(* ===== verification/Prelude.thy ===== *)
theory Prelude
  imports Main "HOL-Library.Word" "HOL-Library.Char_ord"
begin

text \<open>
  What the component theories share: the machine types, the error numbers the C code
  stores in \<open>errno\<close> and the result type of fallible functions, big-endian field access,
  C strings (as lists of characters without the terminating NUL), the library
  functions \<open>strtok_r\<close>, \<open>tolower\<close>, \<open>memcmp\<close> as the code uses them, and two
  interfaces: a wire format with a builder and a parser, and a state machine with an
  invariant.
\<close>

unbundle bit_operations_syntax

named_theorems wire_simps "facts that evaluate builders and parsers of wire formats"
named_theorems step_simps "facts that evaluate the step functions of state machines"

section \<open>Machine types and results\<close>

type_synonym byte = "8 word"
type_synonym u16 = "16 word"
type_synonym u32 = "32 word"
type_synonym u64 = "64 word"
type_synonym i16 = "16 word"

datatype errno =
    EINVAL | EPROTO | EMSGSIZE | EACCES | ENOBUFS | EIO | EALREADY | EPERM
  | ENAMETOOLONG | EAGAIN | EINTR | ENOENT | EEXIST | EBUSY | ENOTSUP | EOTHER

type_synonym 'a result = "errno + 'a"

lemma isl_simps [simp]: "isl (Inl e)" "\<not> isl (Inr v)"
  by simp_all

lemma not_isl_iff: "(\<not> isl r) = (\<exists>v. r = Inr v)"
  by (cases r) auto

section \<open>Words and bytes\<close>

lemma byte_bit_high [simp]: "8 \<le> n \<Longrightarrow> \<not> bit (b :: byte) n"
  using bit_imp_le_length [of b n] by auto

definition be16 :: "byte \<Rightarrow> byte \<Rightarrow> u16" where
  "be16 a b = push_bit 8 (ucast a) OR ucast b"

definition be32 :: "byte \<Rightarrow> byte \<Rightarrow> byte \<Rightarrow> byte \<Rightarrow> u32" where
  "be32 a b c d =
     push_bit 24 (ucast a) OR push_bit 16 (ucast b) OR push_bit 8 (ucast c) OR ucast d"

definition read_be16 :: "byte list \<Rightarrow> nat \<Rightarrow> u16" where
  "read_be16 p i = be16 (p ! i) (p ! (i + 1))"

definition read_be32 :: "byte list \<Rightarrow> nat \<Rightarrow> u32" where
  "read_be32 p i = be32 (p ! i) (p ! (i + 1)) (p ! (i + 2)) (p ! (i + 3))"

definition read_be64 :: "byte list \<Rightarrow> nat \<Rightarrow> u64" where
  "read_be64 p i = push_bit 32 (ucast (read_be32 p i)) OR ucast (read_be32 p (i + 4))"

definition write_be16 :: "u16 \<Rightarrow> byte list" where
  "write_be16 v = [ucast (drop_bit 8 v), ucast v]"

definition write_be32 :: "u32 \<Rightarrow> byte list" where
  "write_be32 v = [ucast (drop_bit 24 v), ucast (drop_bit 16 v), ucast (drop_bit 8 v), ucast v]"

definition write_be64 :: "u64 \<Rightarrow> byte list" where
  "write_be64 v = write_be32 (ucast (drop_bit 32 v)) @ write_be32 (ucast v)"

lemma length_write_be [simp]:
  "length (write_be16 v) = 2" "length (write_be32 w) = 4" "length (write_be64 x) = 8"
  by (simp_all add: write_be16_def write_be32_def write_be64_def)

lemma be16_bytes [simp]: "be16 (ucast (drop_bit 8 v)) (ucast v) = v"
  unfolding be16_def
  by (rule bit_word_eqI) (auto simp: bit_simps)

lemma be32_bytes [simp]:
  "be32 (ucast (drop_bit 24 v)) (ucast (drop_bit 16 v)) (ucast (drop_bit 8 v)) (ucast v) = v"
  unfolding be32_def
proof (rule bit_word_eqI)
  fix n :: nat
  assume n: "n < LENGTH(32)"
  consider "n < 8" | "8 \<le> n" "n < 16" | "16 \<le> n" "n < 24" | "24 \<le> n" by linarith
  then show "bit (push_bit 24 (ucast (ucast (drop_bit 24 v) :: byte)) OR
      push_bit 16 (ucast (ucast (drop_bit 16 v) :: byte)) OR
      push_bit 8 (ucast (ucast (drop_bit 8 v) :: byte)) OR ucast (ucast v :: byte) :: u32) n = bit v n"
    using n by cases (auto simp: bit_simps)
qed

lemma bytes_be16 [simp]:
  "(ucast (drop_bit 8 (be16 a b)) :: byte) = a" "(ucast (be16 a b) :: byte) = b"
  unfolding be16_def by (rule bit_word_eqI; auto simp: bit_simps)+

lemma bytes_be32 [simp]:
  "(ucast (drop_bit 24 (be32 a b c d)) :: byte) = a"
  "(ucast (drop_bit 16 (be32 a b c d)) :: byte) = b"
  "(ucast (drop_bit 8 (be32 a b c d)) :: byte) = c"
  "(ucast (be32 a b c d) :: byte) = d"
  unfolding be32_def by (rule bit_word_eqI; auto simp: bit_simps)+

lemma halves64 [simp]:
  "push_bit 32 (ucast (ucast (drop_bit 32 (x :: u64)) :: u32)) OR ucast (ucast x :: u32) = x"
  by (rule bit_word_eqI) (auto simp: bit_simps)

lemma u32_bit_high [simp]: "32 \<le> n \<Longrightarrow> \<not> bit (b :: u32) n"
  using bit_imp_le_length [of b n] by auto

lemma halves64_inv [simp]:
  "ucast (drop_bit 32 (push_bit 32 (ucast (h :: u32)) OR ucast (l :: u32) :: u64)) = h"
  "ucast (push_bit 32 (ucast h) OR ucast l :: u64) = l"
  by (rule bit_word_eqI; auto simp: bit_simps)+

lemma write_be64_read_be64:
  "write_be64 (read_be64 p i) = write_be32 (read_be32 p i) @ write_be32 (read_be32 p (i + 4))"
  by (simp only: write_be64_def read_be64_def halves64_inv)

lemma unat_u16_less: "unat (v :: u16) < 65536"
  using unsigned_less [where w = v and 'a = nat] by simp

lemma unat_byte_less: "unat (v :: byte) < 256"
  using unsigned_less [where w = v and 'a = nat] by simp

lemma unat_word_of_int32: "0 \<le> k \<Longrightarrow> k < 2 ^ 32 \<Longrightarrow> unat (word_of_int k :: u32) = nat k"
  by (simp add: unsigned_of_int take_bit_int_eq_self)

lemma sint_word_of_int16:
  "- 32768 \<le> k \<Longrightarrow> k < 32768 \<Longrightarrow> sint (word_of_int k :: i16) = k"
  by (simp add: signed_of_int signed_take_bit_int_eq_self)

lemma unat_drop_bit: "unat (drop_bit n (w :: 'a :: len word)) = unat w div 2 ^ n"
  by (simp add: unsigned_drop_bit_eq drop_bit_eq_div [of n "unat w"] take_bit_nat_eq_self)

text \<open>All the values of a byte, for properties that are checked on each of them.\<close>

definition all_bytes :: "byte list" where
  "all_bytes = map word_of_nat [0..<256]"

lemma in_all_bytes: "b \<in> set all_bytes"
proof -
  have "b = word_of_nat (unat b)" by simp
  moreover have "unat b \<in> set [0..<256]" using unat_byte_less [of b] by simp
  ultimately show ?thesis unfolding all_bytes_def by (metis image_eqI list.set_map)
qed

lemma all_bytes_check: "list_all P all_bytes \<Longrightarrow> P b"
  using in_all_bytes by (auto simp: list_all_iff)

section \<open>C strings\<close>

text \<open>
  A C string is the list of its characters before the NUL. Blanks are the two characters
  the trimming loops of the code compare with.
\<close>

definition is_blank :: "char \<Rightarrow> bool" where
  "is_blank c = (c = CHR '' '' \<or> c = CHR 0x09)"

definition c_trim :: "string \<Rightarrow> string" where
  "c_trim s = rev (dropWhile is_blank (rev (dropWhile is_blank s)))"

definition c_code :: "char \<Rightarrow> nat" where
  "c_code c = of_char c"

lemma c_code_less: "c_code c < 256"
  by (simp add: c_code_def)

lemma c_code_inject [simp]: "c_code a = c_code b \<longleftrightarrow> a = b"
  by (simp add: c_code_def)

definition c_tolower :: "char \<Rightarrow> char" where
  "c_tolower c = (if 65 \<le> c_code c \<and> c_code c \<le> 90 then char_of (c_code c + 32) else c)"

text \<open>\<open>strtok_r\<close> in a loop: the maximal runs of characters that are no delimiters.\<close>

function c_tokens :: "(char \<Rightarrow> bool) \<Rightarrow> string \<Rightarrow> string list" where
  "c_tokens d s =
     (case dropWhile d s of
        [] \<Rightarrow> []
      | c # cs \<Rightarrow> (c # takeWhile (\<lambda>x. \<not> d x) cs) # c_tokens d (dropWhile (\<lambda>x. \<not> d x) cs))"
  by pat_completeness auto
termination
proof (relation "measure (\<lambda>(d, s). length s)", simp)
  fix d :: "char \<Rightarrow> bool" and s c cs
  assume "dropWhile d s = c # cs"
  then have "length (c # cs) \<le> length s" by (metis length_dropWhile_le)
  moreover have "length (dropWhile (\<lambda>x. \<not> d x) cs) \<le> length cs" by (rule length_dropWhile_le)
  ultimately have "length (dropWhile (\<lambda>x. \<not> d x) cs) < length s" by simp
  then show "((d, dropWhile (\<lambda>x. \<not> d x) cs), (d, s)) \<in> measure (\<lambda>(d, s). length s)"
    by simp
qed

declare c_tokens.simps [simp del]

lemma c_tokens_Nil [simp]: "c_tokens d [] = []"
  by (simp add: c_tokens.simps)

lemma c_tokens_nonempty: "t \<in> set (c_tokens d s) \<Longrightarrow> t \<noteq> []"
proof (induction d s rule: c_tokens.induct)
  case (1 d s)
  show ?case
  proof (cases "dropWhile d s")
    case Nil
    with "1.prems" show ?thesis by (simp add: c_tokens.simps [of d s])
  next
    case (Cons x xs)
    with "1.prems" "1.IH" [OF Cons] show ?thesis by (auto simp: c_tokens.simps [of d s])
  qed
qed

lemma c_tokens_no_delimiter: "t \<in> set (c_tokens d s) \<Longrightarrow> c \<in> set t \<Longrightarrow> \<not> d c"
proof (induction d s arbitrary: t c rule: c_tokens.induct)
  case (1 d s)
  show ?case
  proof (cases "dropWhile d s")
    case Nil
    with "1.prems"(1) show ?thesis by (simp add: c_tokens.simps [of d s])
  next
    case (Cons x xs)
    have "\<not> d x" using Cons by (metis hd_dropWhile list.distinct(1) list.sel(1))
    moreover from "1.prems"(1) Cons
    have "t = x # takeWhile (\<lambda>x. \<not> d x) xs \<or> t \<in> set (c_tokens d (dropWhile (\<lambda>x. \<not> d x) xs))"
      by (simp add: c_tokens.simps [of d s])
    ultimately show ?thesis
      using "1.prems"(2) "1.IH" [OF Cons, of t c] by (auto dest: set_takeWhileD)
  qed
qed

section \<open>Two interfaces\<close>

text \<open>
  A wire format: a builder that refuses bad messages, a parser that refuses bad
  datagrams, each undoing the other. Whatever satisfies both laws has exactly one
  datagram per message.
\<close>

locale wire_format =
  fixes build :: "'m \<Rightarrow> 'e + byte list"
    and parse :: "byte list \<Rightarrow> 'f + 'm"
  assumes parse_build: "build m = Inr bs \<Longrightarrow> parse bs = Inr m"
    and build_parse: "parse bs = Inr m \<Longrightarrow> build m = Inr bs"
begin

lemma build_inject: "build m = Inr bs \<Longrightarrow> build m' = Inr bs \<Longrightarrow> m = m'"
  using parse_build [of m bs] parse_build [of m' bs] by simp

lemma parse_inject: "parse bs = Inr m \<Longrightarrow> parse bs' = Inr m \<Longrightarrow> bs = bs'"
  using build_parse [of bs m] build_parse [of bs' m] by simp

lemma accepted_iff_built: "(\<exists>m. parse bs = Inr m) \<longleftrightarrow> (\<exists>m. build m = Inr bs)"
  using parse_build build_parse by blast

lemma build_defined_iff: "(\<exists>bs. build m = Inr bs) \<longleftrightarrow> (\<exists>bs. parse bs = Inr m)"
  using parse_build build_parse by blast

end

text \<open>A state machine over a list of events, with an invariant every step keeps.\<close>

locale invariant_machine =
  fixes step :: "'s \<Rightarrow> 'e \<Rightarrow> 's"
    and inv :: "'s \<Rightarrow> bool"
  assumes step_inv: "inv s \<Longrightarrow> inv (step s e)"
begin

lemma run_inv: "inv s \<Longrightarrow> inv (foldl step s es)"
  by (induction es arbitrary: s) (auto intro: step_inv)

lemma run_prefix_inv: "inv s \<Longrightarrow> inv (foldl step s (take n es))"
  by (rule run_inv)

end

end
