(* ===== verification/Alaw.thy ===== *)
theory Alaw
  imports Prelude
begin

text \<open>
  G.711 A-law as the audio router and the guard code it (\<open>src/audio/g711_alaw.c\<close>,
  \<open>jooan_guard_alaw_to_pcm16\<close> of \<open>src/guard/guard_policy.c\<close>): the sample encoder and
  decoder on machine words, and a specification of companding on natural numbers
  that they are shown to implement.
\<close>

section \<open>The code\<close>

definition alaw_ends :: "u32 list" where
  "alaw_ends = [0x1f, 0x3f, 0x7f, 0xff, 0x1ff, 0x3ff, 0x7ff, 0xfff]"

fun alaw_segment_from :: "u32 list \<Rightarrow> u32 \<Rightarrow> u32 \<Rightarrow> u32" where
  "alaw_segment_from [] segment v = segment"
| "alaw_segment_from (e # ends) segment v =
     (if v \<le> e then segment else alaw_segment_from ends (segment + 1) v)"

definition alaw_segment :: "u32 \<Rightarrow> u32" where
  "alaw_segment v = alaw_segment_from alaw_ends 0 v"

definition jooan_alaw_encode_sample :: "i16 \<Rightarrow> byte" where
  "jooan_alaw_encode_sample pcm =
     (let (magnitude, mask) =
            (if 0 \<le> sint pcm then (word_of_int (sint pcm) :: u32, 0xd5 :: byte)
             else (word_of_int (- sint pcm - 1), 0x55));
          magnitude = (if 32635 < magnitude then 32635 else magnitude);
          magnitude = drop_bit 3 magnitude;
          segment = alaw_segment magnitude
      in if 8 \<le> segment then 0x7f XOR mask
         else
           let v = push_bit 4 segment;
               v = v OR ((if segment < 2 then drop_bit 1 magnitude
                          else drop_bit (unat segment) magnitude) AND 0x0f)
           in ucast v XOR mask)"

definition jooan_alaw_decode_sample :: "byte \<Rightarrow> i16" where
  "jooan_alaw_decode_sample alaw =
     (let alaw = alaw XOR 0x55;
          v = push_bit 4 (uint (alaw AND 0x0f));
          segment = drop_bit 4 (alaw AND 0x70);
          v = (if segment = 0 then v + 8
               else if 1 < segment then push_bit (unat (segment - 1)) (v + 0x108)
               else v + 0x108)
      in word_of_int (if alaw AND 0x80 \<noteq> 0 then v else - v))"

definition jooan_alaw_encode :: "i16 list \<Rightarrow> byte list" where
  "jooan_alaw_encode pcm = map jooan_alaw_encode_sample pcm"

definition jooan_alaw_decode :: "byte list \<Rightarrow> i16 list" where
  "jooan_alaw_decode alaw = map jooan_alaw_decode_sample alaw"

definition jooan_guard_alaw_to_pcm16 :: "byte \<Rightarrow> i16" where
  "jooan_guard_alaw_to_pcm16 v =
     (let v = v XOR 0x55;
          magnitude = push_bit 4 (uint (v AND 0x0f));
          segment = drop_bit 4 (v AND 0x70);
          magnitude =
            (if segment = 0 then magnitude + 8
             else if segment = 1 then magnitude + 0x108
             else push_bit (unat (segment - 1)) (magnitude + 0x108))
      in word_of_int (if v AND 0x80 \<noteq> 0 then magnitude else - magnitude))"

section \<open>Companding on natural numbers\<close>

text \<open>
  The specification: a 12-bit magnitude has a segment (how many bits it has above its
  fifth) and four bits of mantissa; the 7-bit code is both, and expanding it gives the
  middle of the interval of samples that share it.
\<close>

fun g711_segment :: "nat \<Rightarrow> nat" where
  "g711_segment m = (if m < 32 then 0 else Suc (g711_segment (m div 2)))"

declare g711_segment.simps [simp del]

definition g711_compress :: "nat \<Rightarrow> nat" where
  "g711_compress m = (let s = g711_segment m in 16 * s + (m div 2 ^ max s 1) mod 16)"

definition g711_expand :: "nat \<Rightarrow> nat" where
  "g711_expand k =
     (let s = k div 16; n = k mod 16
      in if s = 0 then 16 * n + 8 else (16 * n + 264) * 2 ^ (s - 1))"

lemma g711_segment_bounds:
  "(g711_segment m = 0 \<longleftrightarrow> m < 32) \<and> m < 2 ^ (g711_segment m + 5) \<and>
   (32 \<le> m \<longrightarrow> 2 ^ (g711_segment m + 4) \<le> m)"
proof (induction m rule: g711_segment.induct)
  case (1 m)
  show ?case
  proof (cases "m < 32")
    case True
    then show ?thesis by (simp add: g711_segment.simps [of m])
  next
    case False
    with 1 have IH: "m div 2 < 2 ^ (g711_segment (m div 2) + 5)"
      "32 \<le> m div 2 \<longrightarrow> 2 ^ (g711_segment (m div 2) + 4) \<le> m div 2"
      "(g711_segment (m div 2) = 0) = (m div 2 < 32)" by blast+
    have "m < 2 * 2 ^ (g711_segment (m div 2) + 5)" using IH(1) by linarith
    moreover have "2 * 2 ^ (g711_segment (m div 2) + 4) \<le> m"
      using IH(2,3) False by (cases "32 \<le> m div 2") auto
    ultimately show ?thesis using False by (simp add: g711_segment.simps [of m] power_add)
  qed
qed

lemma g711_segment_eqI:
  assumes "2 ^ (s + 4) \<le> m" "m < 2 ^ (s + 5)" "0 < s"
  shows "g711_segment m = s"
proof -
  have "(2::nat) ^ 5 \<le> 2 ^ (s + 4)" using assms(3) by (intro power_increasing) auto
  then have "32 \<le> m" using assms(1) by simp
  then have b: "m < 2 ^ (g711_segment m + 5)" "2 ^ (g711_segment m + 4) \<le> m"
    using g711_segment_bounds [of m] by auto
  then have "(2::nat) ^ (s + 4) < 2 ^ (g711_segment m + 5)"
    "(2::nat) ^ (g711_segment m + 4) < 2 ^ (s + 5)" using assms by linarith+
  then have "s + 4 < g711_segment m + 5" "g711_segment m + 4 < s + 5"
    using power_strict_increasing_iff [of "2::nat"] by auto
  then show ?thesis by simp
qed

lemma g711_segment_0: "m < 32 \<Longrightarrow> g711_segment m = 0"
  using g711_segment_bounds [of m] by simp

lemma g711_quotient:
  assumes "0 < g711_segment m"
  shows "16 \<le> m div 2 ^ g711_segment m \<and> m div 2 ^ g711_segment m < 32"
proof -
  let ?s = "g711_segment m"
  have "2 ^ (?s + 4) \<le> m" "m < 2 ^ (?s + 5)"
    using assms g711_segment_bounds [of m] by auto
  then have "16 * 2 ^ ?s \<le> m" "m < 32 * 2 ^ ?s" by (simp_all add: power_add)
  then show ?thesis by (simp add: less_eq_div_iff_mult_less_eq div_less_iff_less_mult)
qed

lemma g711_split:
  "n < 16 \<Longrightarrow> (16 * s + n) div 16 = (s :: nat)" "n < 16 \<Longrightarrow> (16 * s + n) mod 16 = n"
  by simp_all

text \<open>The reconstructed magnitude lies within half a quantisation step of the sample.\<close>

lemma g711_expand_compress:
  "g711_expand (g711_compress m) =
     (let p = 2 ^ (max (g711_segment m) 1) in 8 * p * (m div p) + 4 * p)"
proof (cases "g711_segment m = 0")
  case True
  then have "m < 32" using g711_segment_bounds by simp
  with True show ?thesis by (simp add: g711_compress_def g711_expand_def Let_def)
next
  case False
  let ?s = "g711_segment m" let ?q = "m div 2 ^ ?s"
  have q: "16 \<le> ?q" "?q < 32" using False g711_quotient by auto
  then have md: "?q mod 16 = ?q - 16" by (metis add_diff_inverse_nat less_diff_conv2 mod_add_self1 mod_less mult_2 not_less numeral_Bit0)
  have mx: "max ?s 1 = ?s" using False by simp
  have s: "(16 * (?q - 16) + 264) * 2 ^ (?s - 1) = 8 * 2 ^ ?s * ?q + 4 * 2 ^ ?s"
  proof -
    have "16 * (?q - 16) + 264 = 16 * ?q + 8" using q by simp
    moreover have "(2::nat) ^ ?s = 2 * 2 ^ (?s - 1)" using False by (simp add: power_eq_if)
    ultimately show ?thesis by (simp add: algebra_simps)
  qed
  have n: "?q - 16 < 16" using q by simp
  have "g711_compress m = 16 * ?s + (?q - 16)" by (simp only: g711_compress_def Let_def mx md)
  then have "g711_expand (g711_compress m) = (16 * (?q - 16) + 264) * 2 ^ (?s - 1)"
    using False n by (simp only: g711_expand_def Let_def g711_split) simp
  then show ?thesis by (simp only: s mx Let_def)
qed

lemma g711_error:
  assumes "m = e div 8"
  shows "\<bar>int (g711_expand (g711_compress m)) - int e\<bar> \<le> 4 * 2 ^ max (g711_segment m) 1"
proof -
  define p :: nat where "p = 2 ^ max (g711_segment m) 1"
  have "e div (8 * p) = m div p" by (simp add: assms div_mult2_eq)
  then have e: "e = 8 * p * (m div p) + e mod (8 * p)" by (metis div_mult_mod_eq mult.commute)
  have "0 < p" by (simp add: p_def)
  then have "e mod (8 * p) < 8 * p" by simp
  moreover have "g711_expand (g711_compress m) = 8 * p * (m div p) + 4 * p"
    by (simp add: g711_expand_compress p_def Let_def)
  ultimately have "\<bar>int (g711_expand (g711_compress m)) - int e\<bar> \<le> 4 * int p"
    using e by linarith
  then show ?thesis by (simp add: p_def)
qed

lemma g711_step_bound:
  assumes "m = e div 8"
  shows "4 * 2 ^ max (g711_segment m) 1 \<le> max 8 (e div 32)"
proof (cases "g711_segment m = 0")
  case False
  then have "2 ^ (g711_segment m + 4) \<le> m" using g711_segment_bounds [of m] by auto
  then have "8 * 2 ^ (g711_segment m + 4) \<le> e" using assms by linarith
  moreover have "(8::nat) * 2 ^ (g711_segment m + 4) = 32 * (4 * 2 ^ g711_segment m)"
    by (simp add: power_add)
  ultimately have "4 * 2 ^ g711_segment m \<le> e div 32"
    by (metis div_le_mono nonzero_mult_div_cancel_left zero_neq_numeral)
  then show ?thesis using False by simp
qed simp

section \<open>The code implements the specification\<close>

lemma unat_nibbles:
  fixes s x :: u32
  assumes "unat s < 8"
  shows "unat (push_bit 4 s OR (x AND 0x0f)) = 16 * unat s + unat x mod 16"
proof -
  have lo: "unat (x AND 0x0f) = unat x mod 16"
    using take_bit_eq_mask [of 4 "unat x"] by (simp add: unsigned_and_eq take_bit_eq_mod mask_numeral)
  have hi: "unat (s * 16) = unat s * 16"
    using assms by (simp add: push_bit_eq_mult unat_word_ariths)
  have "and (push_bit 4 (unat s)) (unat x mod 16) = 0"
    by (rule bit_eqI) (auto simp: bit_simps simp flip: take_bit_eq_mod [where n = 4, simplified])
  then have "or (push_bit 4 (unat s)) (unat x mod 16) = push_bit 4 (unat s) + unat x mod 16"
    by (rule disjunctive_add_eq_or [symmetric])
  then show ?thesis by (simp add: unsigned_or_eq lo hi push_bit_eq_mult)
qed

lemma alaw_segment_spec:
  assumes "unat v < 4096"
  shows "unat (alaw_segment v) = g711_segment (unat v)" "g711_segment (unat v) < 8"
proof -
  consider "unat v < 32" | "32 \<le> unat v" "unat v < 64" | "64 \<le> unat v" "unat v < 128"
    | "128 \<le> unat v" "unat v < 256" | "256 \<le> unat v" "unat v < 512"
    | "512 \<le> unat v" "unat v < 1024" | "1024 \<le> unat v" "unat v < 2048"
    | "2048 \<le> unat v" "unat v < 4096" using assms by linarith
  then have "unat (alaw_segment v) = g711_segment (unat v) \<and> g711_segment (unat v) < 8"
    by cases
      (simp_all add: alaw_segment_def alaw_ends_def word_le_nat_alt g711_segment_0
        g711_segment_eqI [where s = 1] g711_segment_eqI [where s = 2] g711_segment_eqI [where s = 3]
        g711_segment_eqI [where s = 4] g711_segment_eqI [where s = 5] g711_segment_eqI [where s = 6]
        g711_segment_eqI [where s = 7])
  then show "unat (alaw_segment v) = g711_segment (unat v)" "g711_segment (unat v) < 8" by auto
qed


text \<open>What a code byte means: its sign bit and the magnitude the specification gives.\<close>

definition alaw_code :: "byte \<Rightarrow> nat" where
  "alaw_code a = unat (a XOR 0x55) mod 128"

definition alaw_positive :: "byte \<Rightarrow> bool" where
  "alaw_positive a = (128 \<le> unat (a XOR 0x55))"

definition alaw_clip :: "int \<Rightarrow> nat" where
  "alaw_clip x = min 32635 (nat (if 0 \<le> x then x else - x - 1))"

lemma unat_sign_bit:
  fixes c :: byte
  assumes "unat c < 128"
  shows "unat (c XOR 0x80) = unat c + 128"
proof -
  have "unat c = take_bit 7 (unat c)" using assms by (simp add: take_bit_eq_mod)
  then have b: "bit (unat c) n \<Longrightarrow> n < 7" for n by (metis bit_take_bit_iff)
  have "unat (c XOR 0x80) = xor (unat c) 128" by (simp add: unsigned_xor_eq)
  also have "xor (unat c) 128 = flip_bit 7 (unat c)" by (simp add: flip_bit_eq_xor)
  also have "\<dots> = unat c + 128" using b [of 7] by (auto simp: flip_bit_eq_if set_bit_eq)
  finally show ?thesis by simp
qed

lemma if_pair:
  "(case (if c then (a, m) else (b, m')) of (x, y) \<Rightarrow> f x y) =
     f (if c then a else b) (if c then m else m')"
  by simp

lemma alaw_encode_spec:
  "alaw_code (jooan_alaw_encode_sample x) = g711_compress (alaw_clip (sint x) div 8)"
  "alaw_positive (jooan_alaw_encode_sample x) = (0 \<le> sint x)"
proof -
  define mag :: u32 where
    "mag = (if 0 \<le> sint x then word_of_int (sint x) else word_of_int (- sint x - 1))"
  define m :: u32 where "m = drop_bit 3 (if 32635 < mag then 32635 else mag)"
  have rng: "- 32768 \<le> sint x" "sint x < 32768"
    using sint_ge [of x] sint_lt [of x] by simp_all
  have um: "unat mag = nat (if 0 \<le> sint x then sint x else - sint x - 1)"
    using rng unat_word_of_int32 [of "sint x"] unat_word_of_int32 [of "- sint x - 1"]
    unfolding mag_def by auto
  have ud: "unat m = alaw_clip (sint x) div 8"
    by (simp add: m_def unsigned_drop_bit_eq drop_bit_eq_div alaw_clip_def um [symmetric]
        word_less_nat_alt min_def unat_div_distrib)
  then have m: "unat m < 4096" by (simp add: alaw_clip_def)
  note seg = alaw_segment_spec [OF m]
  define v :: u32 where "v = push_bit 4 (alaw_segment m) OR (drop_bit (max (unat (alaw_segment m)) 1) m AND 0x0f)"
  have uv: "unat v = g711_compress (unat m)"
    using seg by (simp add: v_def unat_nibbles unat_drop_bit g711_compress_def Let_def)
  have cl: "unat v < 128" using uv seg by (simp add: g711_compress_def Let_def)
  have two: "(if alaw_segment m < 2 then drop_bit 1 m else drop_bit (unat (alaw_segment m)) m)
      = drop_bit (max (unat (alaw_segment m)) 1) m"
    by (auto simp: word_less_nat_alt max_def)
  have small: "(8 \<le> alaw_segment m) = False" using seg by (simp add: word_le_nat_alt)
  have e: "jooan_alaw_encode_sample x = ucast v XOR (if 0 \<le> sint x then 0xd5 else 0x55)"
    using small
    by (simp only: jooan_alaw_encode_sample_def Let_def if_pair mag_def [symmetric] m_def [symmetric]
        two v_def [symmetric] if_False)
  have uc: "unat (ucast v :: byte) = unat v"
    using cl by (simp add: unsigned_ucast_eq take_bit_nat_eq_self)
  have x: "jooan_alaw_encode_sample x XOR 0x55 = (if 0 \<le> sint x then ucast v XOR 0x80 else ucast v)"
    by (simp add: e xor.assoc)
  have "unat (jooan_alaw_encode_sample x XOR 0x55) = (if 0 \<le> sint x then unat v + 128 else unat v)"
    using cl by (simp add: x unat_sign_bit uc)
  then show "alaw_code (jooan_alaw_encode_sample x) = g711_compress (alaw_clip (sint x) div 8)"
    and "alaw_positive (jooan_alaw_encode_sample x) = (0 \<le> sint x)"
    using cl by (auto simp: alaw_code_def alaw_positive_def uv ud)
qed


lemma alaw_fields:
  fixes b :: byte
  shows "uint (b AND 0x0f) = int (unat b mod 16)"
    and "unat (drop_bit 4 (b AND 0x70)) = unat b mod 128 div 16"
    and "(b AND 0x80 \<noteq> 0) = (128 \<le> unat b)"
proof -
  have "unat (b AND 0x0f) = unat b mod 16"
    using take_bit_eq_mask [of 4 "unat b"] by (simp add: unsigned_and_eq take_bit_eq_mod mask_numeral)
  then show "uint (b AND 0x0f) = int (unat b mod 16)" by (metis uint_nat)
  have "drop_bit 4 (b AND 0x70) = take_bit 3 (drop_bit 4 b)"
    by (simp add: drop_bit_and take_bit_eq_mask and.commute mask_numeral)
  then have "unat (drop_bit 4 (b AND 0x70)) = take_bit 3 (drop_bit 4 (unat b))"
    by (simp only:) (rule bit_eqI, auto simp: bit_simps)
  also have "\<dots> = drop_bit 4 (take_bit 7 (unat b))" by (simp add: drop_bit_take_bit)
  finally show "unat (drop_bit 4 (b AND 0x70)) = unat b mod 128 div 16"
    by (simp add: take_bit_eq_mod drop_bit_eq_div)
  have "b AND 0x80 = b AND push_bit 7 1" by simp
  then have "(b AND 0x80 \<noteq> 0) = bit b 7" by (simp add: bit_iff_and_push_bit_not_eq_0)
  also have "\<dots> = bit (unat b) 7" by (simp add: bit_unsigned_iff)
  also have "\<dots> = odd (unat b div 128)" by (simp add: bit_iff_odd)
  also have "unat b div 128 = (if 128 \<le> unat b then 1 else 0)"
    using unat_byte_less [of b] by (auto intro: div_nat_eqI)
  also have "odd (if 128 \<le> unat b then 1 else 0 :: nat) = (128 \<le> unat b)" by simp
  finally show "(b AND 0x80 \<noteq> 0) = (128 \<le> unat b)" .
qed

lemma g711_expand_bound: "k < 128 \<Longrightarrow> g711_expand k \<le> 32256"
proof -
  assume k: "k < 128"
  then have "k div 16 - 1 \<le> 6" by linarith
  then have "(2::nat) ^ (k div 16 - 1) \<le> 2 ^ 6" by (intro power_increasing) auto
  moreover have "16 * (k mod 16) + 264 \<le> 504" using mod_less_divisor [of 16 k] by linarith
  ultimately have "(16 * (k mod 16) + 264) * 2 ^ (k div 16 - 1) \<le> 504 * 2 ^ 6"
    by (intro mult_le_mono) auto
  moreover have "16 * (k mod 16) + 8 \<le> 32256" using mod_less_divisor [of 16 k] by linarith
  ultimately show ?thesis by (simp add: g711_expand_def Let_def div_eq_0_iff)
qed

lemma alaw_magnitude:
  fixes b :: byte
  shows "(let v = push_bit 4 (uint (b AND 0x0f)); segment = drop_bit 4 (b AND 0x70)
          in if segment = 0 then v + 8
             else if 1 < segment then push_bit (unat (segment - 1)) (v + 0x108)
             else v + 0x108) = int (g711_expand (unat b mod 128))"
proof -
  let ?g = "drop_bit 4 (b AND 0x70)"
  have u: "unat ?g = unat b mod 128 div 16" by (rule alaw_fields)
  have z: "(?g = 0) = (unat b mod 128 div 16 = 0)" using u by (metis unat_eq_zero)
  have o: "(1 < ?g) = (1 < unat b mod 128 div 16)" using u by (simp only: word_less_nat_alt unat_1)
  have m: "?g \<noteq> 0 \<Longrightarrow> unat (?g - 1) = unat b mod 128 div 16 - 1" using u by (metis unat_minus_one)
  have r: "unat b mod 128 mod 16 = unat b mod 16" by (simp add: mod_mod_cancel)
  show ?thesis
    by (cases "?g = 0"; cases "1 < ?g")
      (use z o m r in \<open>auto simp: Let_def alaw_fields(1) g711_expand_def push_bit_eq_mult not_less
          algebra_simps le_Suc_eq\<close>)
qed

lemma alaw_decode_spec:
  "sint (jooan_alaw_decode_sample a) =
     (if alaw_positive a then 1 else -1) * int (g711_expand (alaw_code a))"
proof -
  let ?e = "int (g711_expand (alaw_code a))"
  have "?e \<le> 32256" using g711_expand_bound [of "alaw_code a"] by (simp add: alaw_code_def)
  then have "sint (word_of_int ?e :: i16) = ?e" "sint (word_of_int (- ?e) :: i16) = - ?e"
    by (simp_all only: sint_word_of_int16)
  moreover have "jooan_alaw_decode_sample a = word_of_int (if alaw_positive a then ?e else - ?e)"
    using alaw_magnitude [of "a XOR 0x55"]
    by (simp only: jooan_alaw_decode_sample_def Let_def alaw_fields(3) alaw_positive_def alaw_code_def)
  ultimately show ?thesis by simp
qed


section \<open>Properties\<close>

lemma alaw_code_split:
  "unat (a XOR 0x55) = (if alaw_positive a then 128 else 0) + alaw_code a"
  using unat_byte_less [of "a XOR 0x55"]
  by (auto simp only: alaw_code_def alaw_positive_def le_mod_geq mod_less not_le split: if_splits)

lemma alaw_byte_eqI:
  assumes "alaw_code a = alaw_code b" "alaw_positive a = alaw_positive b"
  shows "a = b"
proof -
  have "unat (a XOR 0x55) = unat (b XOR 0x55)"
    using assms alaw_code_split [of a] alaw_code_split [of b] by (simp only:)
  then have "a XOR 0x55 = b XOR 0x55" by (simp only: word_unat_eq_iff)
  then have "(a XOR 0x55) XOR 0x55 = (b XOR 0x55) XOR 0x55" by (rule arg_cong)
  then show ?thesis by (simp add: xor.assoc)
qed

lemma g711_compress_interval:
  assumes "n < 16" "0 < s" "(n + 16) * 2 ^ (s + 3) \<le> e" "e < (n + 17) * 2 ^ (s + 3)"
  shows "g711_compress (e div 8) = 16 * s + n"
proof -
  have p: "(2::nat) ^ (s + 3) = 8 * 2 ^ s" by (simp add: power_add)
  have q: "e div 8 div 2 ^ s = n + 16"
    using assms(3,4) unfolding p div_mult2_eq [symmetric]
    by (intro div_nat_eqI) (simp_all add: algebra_simps)
  have "16 * 2 ^ s \<le> e div 8"
  proof -
    have "16 \<le> e div 8 div 2 ^ s" using q by simp
    then show ?thesis by (simp add: less_eq_div_iff_mult_less_eq)
  qed
  moreover have "e div 8 < 32 * 2 ^ s"
  proof -
    have "e div 8 div 2 ^ s < 32" using q assms(1) by simp
    then show ?thesis by (simp add: div_less_iff_less_mult)
  qed
  ultimately have "g711_segment (e div 8) = s"
    using assms(2) by (intro g711_segment_eqI) (simp_all add: power_add)
  moreover have "max s 1 = s" using assms(2) by simp
  ultimately show ?thesis using assms(1) q by (simp only: g711_compress_def Let_def) simp
qed

lemma g711_compress_expand:
  "g711_compress (g711_expand k div 8) = k \<and> g711_compress ((g711_expand k - 1) div 8) = k"
proof (cases "k div 16 = 0")
  case True
  then have k: "k < 16" by (simp add: div_eq_0_iff)
  then have "g711_expand k div 8 = 2 * k + 1" "(g711_expand k - 1) div 8 = 2 * k"
    by (simp_all add: g711_expand_def)
  with k show ?thesis by (simp add: g711_compress_def g711_segment_0)
next
  case False
  define s n where "s = k div 16" and "n = k mod 16"
  have k: "k = 16 * s + n" "n < 16" "0 < s" using False by (simp_all add: s_def n_def)
  obtain r where r: "s = Suc r" using k(3) by (cases s) auto
  have E: "g711_expand k = (n + 16) * 2 ^ (s + 3) + 4 * 2 ^ s"
    using False by (simp add: g711_expand_def s_def [symmetric] n_def [symmetric] r power_add algebra_simps)
  have "(n + 16) * 2 ^ (s + 3) = n * 2 ^ (s + 3) + 128 * 2 ^ s"
    "(n + 17) * 2 ^ (s + 3) = n * 2 ^ (s + 3) + 136 * 2 ^ s" "(0::nat) < 2 ^ s"
    by (simp_all add: power_add algebra_simps)
  then have "(n + 16) * 2 ^ (s + 3) \<le> g711_expand k - 1" "g711_expand k < (n + 17) * 2 ^ (s + 3)"
    unfolding E by linarith+
  then show ?thesis
    using g711_compress_interval [OF k(2,3)] k(1) by simp
qed

lemma alaw_code_less: "alaw_code a < 128"
  by (simp add: alaw_code_def)

lemma g711_expand_pos: "0 < g711_expand k"
  by (simp add: g711_expand_def Let_def)

text \<open>
  Decoding and encoding again gives the same A-law byte, for all 256 bytes: the
  encoder picks the code whose reconstruction it was given, in both signs.
\<close>

theorem alaw_encode_decode:
  "jooan_alaw_encode_sample (jooan_alaw_decode_sample a) = a"
proof (rule alaw_byte_eqI)
  let ?E = "int (g711_expand (alaw_code a))"
  have b: "g711_expand (alaw_code a) \<le> 32256" "0 < g711_expand (alaw_code a)"
    using g711_expand_bound [OF alaw_code_less] g711_expand_pos by auto
  show "alaw_positive (jooan_alaw_encode_sample (jooan_alaw_decode_sample a)) = alaw_positive a"
    using b by (simp add: alaw_encode_spec alaw_decode_spec)
  show "alaw_code (jooan_alaw_encode_sample (jooan_alaw_decode_sample a)) = alaw_code a"
    using b g711_compress_expand [of "alaw_code a"]
    by (auto simp: alaw_encode_spec alaw_decode_spec alaw_clip_def nat_diff_distrib nat_int)
qed

text \<open>
  Companding loses at most half a quantisation step: the decoded sample is within 8
  of the input, or within a 32nd of its magnitude, for every 16-bit sample the encoder
  does not clip.
\<close>

theorem alaw_error_bound:
  assumes "- 32636 \<le> sint x" "sint x \<le> 32635"
  shows "\<bar>sint (jooan_alaw_decode_sample (jooan_alaw_encode_sample x)) - sint x\<bar>
           \<le> max 8 (\<bar>sint x\<bar> div 32) + 1"
proof -
  define e where "e = alaw_clip (sint x)"
  have e: "int e = (if 0 \<le> sint x then sint x else - sint x - 1)"
    using assms by (auto simp: e_def alaw_clip_def)
  have "\<bar>int (g711_expand (g711_compress (e div 8))) - int e\<bar> \<le> int (4 * 2 ^ max (g711_segment (e div 8)) 1)"
    using g711_error [of "e div 8" e] by simp
  also have "\<dots> \<le> int (max 8 (e div 32))"
    using g711_step_bound [of "e div 8" e] by (intro of_nat_mono) simp
  also have "\<dots> = max 8 (int e div 32)" by (simp add: zdiv_int)
  also have "\<dots> \<le> max 8 (\<bar>sint x\<bar> div 32)" using e by (auto intro!: max.mono zdiv_mono1)
  finally have "\<bar>int (g711_expand (g711_compress (e div 8))) - int e\<bar> \<le> max 8 (\<bar>sint x\<bar> div 32)" .
  then show ?thesis
    using e by (auto simp: alaw_decode_spec alaw_encode_spec e_def [symmetric] split: if_splits)
qed

lemma alaw_error_bound_witness:
  "\<bar>sint (jooan_alaw_decode_sample (jooan_alaw_encode_sample 1000)) - 1000\<bar> \<le> 32"
  using alaw_error_bound [of 1000] by simp

lemma one_less_byte: "(1 < (b :: byte)) = (b \<noteq> 0 \<and> b \<noteq> 1)"
  by (auto simp: word_less_nat_alt word_unat_eq_iff)

text \<open>
  The guard's own A-law decoder and the audio router's compute the same sample from
  every byte, though they are written differently.
\<close>

theorem guard_alaw_decoder_agrees:
  "jooan_guard_alaw_to_pcm16 a = jooan_alaw_decode_sample a"
  by (simp only: jooan_guard_alaw_to_pcm16_def jooan_alaw_decode_sample_def Let_def one_less_byte)
    simp

end
