(* ===== verification/Audio_Wire.thy ===== *)
theory Audio_Wire
  imports Prelude
begin

text \<open>
  The two audio wire formats: JAUD frames between browser and router
  (\<open>src/audio/audio_wire.c\<close>) and JAGD datagrams between router and guard
  (\<open>src/audio/audio_guard_wire.c\<close>), the sequence check both use, and the WebSocket
  subprotocol offer. A datagram is the list of its bytes, a NULL pointer is \<open>None\<close>.
\<close>

section \<open>JAUD frames\<close>

definition JOOAN_AUDIO_WIRE_HEADER_SIZE :: nat where "JOOAN_AUDIO_WIRE_HEADER_SIZE = 16"
definition JOOAN_AUDIO_WIRE_MAX_PAYLOAD :: nat where "JOOAN_AUDIO_WIRE_MAX_PAYLOAD = 1024"

abbreviation (input) PTT_ACQUIRE :: byte where "PTT_ACQUIRE \<equiv> 1"
abbreviation (input) PTT_PCMA :: byte where "PTT_PCMA \<equiv> 2"
abbreviation (input) PTT_RELEASE :: byte where "PTT_RELEASE \<equiv> 3"
abbreviation (input) MIC_PCMA :: byte where "MIC_PCMA \<equiv> 0x81"
abbreviation (input) AUDIO_STATE :: byte where "AUDIO_STATE \<equiv> 0x82"
abbreviation (input) AUDIO_ERROR :: byte where "AUDIO_ERROR \<equiv> 0xff"

abbreviation (input) STATE_ACQUIRED :: byte where "STATE_ACQUIRED \<equiv> 1"
abbreviation (input) STATE_RELEASED :: byte where "STATE_RELEASED \<equiv> 2"
abbreviation (input) STATE_LEASE_EXPIRED :: byte where "STATE_LEASE_EXPIRED \<equiv> 3"

record jooan_audio_wire_frame =
  wf_type :: byte
  wf_flags :: byte
  wf_sequence :: u32
  wf_payload :: "byte list"
  wf_payload_length :: u16

definition valid_type :: "byte \<Rightarrow> bool" where
  "valid_type t = (t = PTT_ACQUIRE \<or> t = PTT_PCMA \<or> t = PTT_RELEASE \<or> t = MIC_PCMA
     \<or> t = AUDIO_STATE \<or> t = AUDIO_ERROR)"

definition jaud_magic :: "byte list" where "jaud_magic = [0x4a, 0x41, 0x55, 0x44]"

definition jooan_audio_wire_parse :: "byte list option \<Rightarrow> jooan_audio_wire_frame result" where
  "jooan_audio_wire_parse data =
     (case data of
        None \<Rightarrow> Inl EINVAL
      | Some p \<Rightarrow>
          if length p < JOOAN_AUDIO_WIRE_HEADER_SIZE then Inl EINVAL
          else if take 4 p \<noteq> jaud_magic \<or> p ! 4 \<noteq> 1 \<or> p ! 7 \<noteq> 16 \<or> \<not> valid_type (p ! 5)
            \<or> read_be32 p 8 = 0 \<or> read_be16 p 14 \<noteq> 0 then Inl EPROTO
          else
            let payload_length = read_be16 p 12 in
            if JOOAN_AUDIO_WIRE_MAX_PAYLOAD < unat payload_length
              \<or> length p \<noteq> JOOAN_AUDIO_WIRE_HEADER_SIZE + unat payload_length then Inl EMSGSIZE
            else if (p ! 5 = PTT_ACQUIRE \<or> p ! 5 = PTT_RELEASE) \<and> payload_length \<noteq> 0 then Inl EPROTO
            else if (p ! 5 = PTT_PCMA \<or> p ! 5 = MIC_PCMA) \<and> payload_length = 0 then Inl EPROTO
            else Inr \<lparr> wf_type = p ! 5, wf_flags = p ! 6, wf_sequence = read_be32 p 8,
                       wf_payload = drop JOOAN_AUDIO_WIRE_HEADER_SIZE p,
                       wf_payload_length = payload_length \<rparr>)"

definition jooan_audio_wire_build ::
  "nat \<Rightarrow> byte \<Rightarrow> byte \<Rightarrow> u32 \<Rightarrow> byte list option \<Rightarrow> u16 \<Rightarrow> byte list result" where
  "jooan_audio_wire_build capacity t flags sequence payload payload_length =
     (let len = JOOAN_AUDIO_WIRE_HEADER_SIZE + unat payload_length in
      if sequence = 0 \<or> JOOAN_AUDIO_WIRE_MAX_PAYLOAD < unat payload_length \<or> capacity < len
        \<or> (payload_length \<noteq> 0 \<and> payload = None) then Inl EINVAL
      else
        let p = jaud_magic @ [1, t, flags, 16] @ write_be32 sequence @ write_be16 payload_length
                @ write_be16 0 @ (case payload of None \<Rightarrow> [] | Some b \<Rightarrow> take (unat payload_length) b)
        in case jooan_audio_wire_parse (Some p) of Inl e \<Rightarrow> Inl e | Inr _ \<Rightarrow> Inr p)"

section \<open>Sequence numbers\<close>

definition seq_next :: "u32 \<Rightarrow> u32" where
  "seq_next last_sequence = (if last_sequence = 0xffffffff then 1 else last_sequence + 1)"

definition jooan_audio_sequence_accept :: "u32 \<Rightarrow> u32 \<Rightarrow> u32 result" where
  "jooan_audio_sequence_accept last_sequence candidate =
     (if candidate = 0 then Inl EINVAL
      else if candidate \<noteq> seq_next last_sequence then Inl EPROTO
      else Inr candidate)"

section \<open>The WebSocket subprotocol offer\<close>

definition JOOAN_AUDIO_WS_PROTOCOL :: string where "JOOAN_AUDIO_WS_PROTOCOL = ''jaud.v1''"
definition JOOAN_AUDIO_WS_AUTH_PREFIX :: string where "JOOAN_AUDIO_WS_AUTH_PREFIX = ''jaud.auth.''"
definition JOOAN_AUDIO_AUTH_TOKEN_HEX_LENGTH :: nat where "JOOAN_AUDIO_AUTH_TOKEN_HEX_LENGTH = 64"

definition lower_hex :: "char \<Rightarrow> bool" where
  "lower_hex c = (48 \<le> c_code c \<and> c_code c \<le> 57 \<or> 97 \<le> c_code c \<and> c_code c \<le> 102)"

text \<open>The loop over the offered protocols: whether the application protocol was seen, and the token.\<close>

fun ws_protocol_loop :: "string list \<Rightarrow> bool \<Rightarrow> string option \<Rightarrow> (bool \<times> string option) result" where
  "ws_protocol_loop [] application_seen token = Inr (application_seen, token)"
| "ws_protocol_loop (cursor # rest) application_seen token =
     (let v = c_trim cursor; prefix_length = length JOOAN_AUDIO_WS_AUTH_PREFIX in
      if v = JOOAN_AUDIO_WS_PROTOCOL then
        (if application_seen then Inl EPROTO else ws_protocol_loop rest True token)
      else if take prefix_length v = JOOAN_AUDIO_WS_AUTH_PREFIX then
        (if token \<noteq> None then Inl EPROTO
         else ws_protocol_loop rest application_seen (Some (drop prefix_length v)))
      else Inl EPROTO)"

text \<open>The loop over the characters of the token, \<open>difference\<close> accumulated as the code does.\<close>

fun ws_token_loop :: "string \<Rightarrow> string option \<Rightarrow> nat \<Rightarrow> nat \<Rightarrow> u32 \<Rightarrow> u32 result" where
  "ws_token_loop token expected 0 i difference = Inr difference"
| "ws_token_loop token expected (Suc left) i difference =
     (if \<not> lower_hex (token ! i) then Inl EPROTO
      else ws_token_loop token expected left (Suc i)
             (case expected of None \<Rightarrow> difference
              | Some e \<Rightarrow> difference OR (of_nat (c_code (token ! i)) XOR of_nat (c_code (e ! i)))))"

definition jooan_audio_ws_protocol_validate :: "string option \<Rightarrow> string option \<Rightarrow> unit result" where
  "jooan_audio_ws_protocol_validate offered expected_token =
     (case offered of
        None \<Rightarrow> Inl EINVAL
      | Some offer \<Rightarrow>
          if 256 \<le> length offer
            \<or> (case expected_token of None \<Rightarrow> False
                | Some e \<Rightarrow> length e \<noteq> JOOAN_AUDIO_AUTH_TOKEN_HEX_LENGTH) then Inl EINVAL
          else case ws_protocol_loop (c_tokens (\<lambda>c. c = CHR '','') offer) False None of
            Inl e \<Rightarrow> Inl e
          | Inr (application_seen, token) \<Rightarrow>
              (case token of
                 None \<Rightarrow> Inl EPROTO
               | Some tok \<Rightarrow>
                   if \<not> application_seen \<or> length tok \<noteq> JOOAN_AUDIO_AUTH_TOKEN_HEX_LENGTH then Inl EPROTO
                   else case ws_token_loop tok expected_token JOOAN_AUDIO_AUTH_TOKEN_HEX_LENGTH 0 0 of
                       Inl e \<Rightarrow> Inl e
                     | Inr difference \<Rightarrow>
                         if expected_token \<noteq> None \<and> difference \<noteq> 0 then Inl EACCES else Inr ()))"

section \<open>JAGD datagrams\<close>

definition JOOAN_AUDIO_GUARD_HEADER_SIZE :: nat where "JOOAN_AUDIO_GUARD_HEADER_SIZE = 24"
definition JOOAN_AUDIO_SAMPLES_PER_PACKET :: nat where "JOOAN_AUDIO_SAMPLES_PER_PACKET = 320"

abbreviation (input) GUARD_SPEAKER_LEASE :: byte where "GUARD_SPEAKER_LEASE \<equiv> 4"

record jooan_audio_guard_frame =
  gf_type :: byte
  gf_session_id :: u64
  gf_sequence :: u32
  gf_payload :: "byte list"
  gf_payload_length :: u16

definition valid_guard_payload :: "byte \<Rightarrow> u16 \<Rightarrow> bool" where
  "valid_guard_payload t len =
     (if t = PTT_ACQUIRE \<or> t = PTT_RELEASE then len = 0
      else if t = GUARD_SPEAKER_LEASE then len = 0
      else if t = PTT_PCMA then unat len = JOOAN_AUDIO_SAMPLES_PER_PACKET
      else False)"

definition jagd_magic :: "byte list" where "jagd_magic = [0x4a, 0x41, 0x47, 0x44]"

definition jooan_audio_guard_datagram_build ::
  "nat \<Rightarrow> byte \<Rightarrow> u64 \<Rightarrow> u32 \<Rightarrow> byte list option \<Rightarrow> u16 \<Rightarrow> byte list result" where
  "jooan_audio_guard_datagram_build capacity t session_id sequence payload payload_length =
     (let len = JOOAN_AUDIO_GUARD_HEADER_SIZE + unat payload_length in
      if session_id = 0 \<or> sequence = 0 \<or> capacity < len \<or> \<not> valid_guard_payload t payload_length
        \<or> (payload_length \<noteq> 0 \<and> payload = None) then Inl EINVAL
      else Inr (jagd_magic @ [1, t] @ write_be16 0 @ write_be64 session_id @ write_be32 sequence
                @ write_be16 payload_length @ write_be16 0
                @ (case payload of None \<Rightarrow> [] | Some b \<Rightarrow> take (unat payload_length) b)))"

definition jooan_audio_guard_datagram_parse :: "byte list option \<Rightarrow> jooan_audio_guard_frame result" where
  "jooan_audio_guard_datagram_parse data =
     (case data of
        None \<Rightarrow> Inl EINVAL
      | Some p \<Rightarrow>
          if length p < JOOAN_AUDIO_GUARD_HEADER_SIZE then Inl EINVAL
          else
            let payload_length = read_be16 p 20 in
            if take 4 p \<noteq> jagd_magic \<or> p ! 4 \<noteq> 1 \<or> read_be16 p 6 \<noteq> 0 \<or> read_be16 p 22 \<noteq> 0
              \<or> length p \<noteq> JOOAN_AUDIO_GUARD_HEADER_SIZE + unat payload_length
              \<or> \<not> valid_guard_payload (p ! 5) payload_length
              \<or> read_be64 p 8 = 0 \<or> read_be32 p 16 = 0 then Inl EPROTO
            else Inr \<lparr> gf_type = p ! 5, gf_session_id = read_be64 p 8, gf_sequence = read_be32 p 16,
                       gf_payload = drop JOOAN_AUDIO_GUARD_HEADER_SIZE p,
                       gf_payload_length = payload_length \<rparr>)"


section \<open>Both formats round-trip\<close>

definition jaud_header :: "byte \<Rightarrow> byte \<Rightarrow> u32 \<Rightarrow> u16 \<Rightarrow> byte list" where
  "jaud_header t flags s n =
     jaud_magic @ [1, t, flags, 16] @ write_be32 s @ write_be16 n @ write_be16 0"

definition jagd_header :: "byte \<Rightarrow> u64 \<Rightarrow> u32 \<Rightarrow> u16 \<Rightarrow> byte list" where
  "jagd_header t sid s n =
     jagd_magic @ [1, t] @ write_be16 0 @ write_be64 sid @ write_be32 s @ write_be16 n @ write_be16 0"

lemmas header_defs = jaud_header_def jagd_header_def jaud_magic_def jagd_magic_def
  write_be16_def write_be32_def write_be64_def

lemma length_headers [simp]:
  "length (jaud_header t fl s n) = 16" "length (jagd_header t sid s n) = 24"
  by (simp_all add: jaud_header_def jagd_header_def jaud_magic_def jagd_magic_def)

lemma jaud_fields [wire_simps]:
  "take 4 (jaud_header t fl s n @ pl) = jaud_magic" "(jaud_header t fl s n @ pl) ! 4 = 1"
  "(jaud_header t fl s n @ pl) ! 5 = t" "(jaud_header t fl s n @ pl) ! 6 = fl"
  "(jaud_header t fl s n @ pl) ! 7 = 16" "read_be32 (jaud_header t fl s n @ pl) 8 = s"
  "read_be16 (jaud_header t fl s n @ pl) 12 = n" "read_be16 (jaud_header t fl s n @ pl) 14 = 0"
  "drop 16 (jaud_header t fl s n @ pl) = pl"
  by (simp_all add: header_defs read_be16_def read_be32_def) (simp add: be16_def)

lemma jagd_fields [wire_simps]:
  "take 4 (jagd_header t sid s n @ pl) = jagd_magic" "(jagd_header t sid s n @ pl) ! 4 = 1"
  "(jagd_header t sid s n @ pl) ! 5 = t" "read_be16 (jagd_header t sid s n @ pl) 6 = 0"
  "read_be64 (jagd_header t sid s n @ pl) 8 = sid" "read_be32 (jagd_header t sid s n @ pl) 16 = s"
  "read_be16 (jagd_header t sid s n @ pl) 20 = n" "read_be16 (jagd_header t sid s n @ pl) 22 = 0"
  "drop 24 (jagd_header t sid s n @ pl) = pl"
  by (simp_all add: header_defs read_be16_def read_be32_def read_be64_def) (simp_all add: be16_def)

lemma take_headers [wire_simps]:
  "take 4 (jaud_header t fl s n) = jaud_magic" "take 4 (jagd_header t sid s n) = jagd_magic"
  by (simp_all add: jaud_header_def jagd_header_def jaud_magic_def jagd_magic_def)

lemma take_eq_nths: "n \<le> length p \<Longrightarrow> take n p = map ((!) p) [0..<n]"
  by (rule nth_equalityI) simp_all

lemma split_16:
  assumes "16 \<le> length p"
  shows "p = [p!0, p!1, p!2, p!3, p!4, p!5, p!6, p!7, p!8, p!9, p!10, p!11, p!12, p!13, p!14, p!15]
             @ drop 16 p"
proof -
  have "take 16 p = map ((!) p) [0..<16]" using assms by (rule take_eq_nths)
  also have "[0..<16] = [0, 1, 2, 3, 4, 5, 6, 7, 8, 9, 10, 11, 12, 13, 14, 15]"
    by (simp add: upt_rec)
  finally have t: "take 16 p = [p!0, p!1, p!2, p!3, p!4, p!5, p!6, p!7, p!8, p!9, p!10, p!11, p!12,
    p!13, p!14, p!15]" by (simp only: list.map)
  show ?thesis by (simp only: t [symmetric] append_take_drop_id)
qed

lemma split_24:
  assumes "24 \<le> length p"
  shows "p = [p!0, p!1, p!2, p!3, p!4, p!5, p!6, p!7, p!8, p!9, p!10, p!11, p!12, p!13, p!14, p!15,
              p!16, p!17, p!18, p!19, p!20, p!21, p!22, p!23] @ drop 24 p"
proof -
  have "take 24 p = map ((!) p) [0..<24]" using assms by (rule take_eq_nths)
  also have "[0..<24] = [0, 1, 2, 3, 4, 5, 6, 7, 8, 9, 10, 11, 12, 13, 14, 15, 16, 17, 18, 19, 20, 21, 22, 23]"
    by (simp add: upt_rec)
  finally have t: "take 24 p = [p!0, p!1, p!2, p!3, p!4, p!5, p!6, p!7, p!8, p!9, p!10, p!11, p!12,
    p!13, p!14, p!15, p!16, p!17, p!18, p!19, p!20, p!21, p!22, p!23]" by (simp only: list.map)
  show ?thesis by (simp only: t [symmetric] append_take_drop_id)
qed

lemma be16_zero_bytes: "be16 a b = 0 \<Longrightarrow> a = 0 \<and> b = 0"
  using bytes_be16 [of a b] by (metis drop_bit_of_0 unsigned_0)

lemma jaud_parse_header:
  assumes "16 \<le> length p" "take 4 p = jaud_magic" "p ! 4 = 1" "p ! 7 = 16" "read_be16 p 14 = 0"
  shows "p = jaud_header (p ! 5) (p ! 6) (read_be32 p 8) (read_be16 p 12) @ drop 16 p"
proof -
  have m: "p ! 0 = 0x4a \<and> p ! Suc 0 = 0x41 \<and> p ! 2 = 0x55 \<and> p ! 3 = 0x44"
    using assms(2) by (subst (asm) split_16 [OF assms(1)]) (simp add: jaud_magic_def)
  have z: "p ! 14 = 0 \<and> p ! 15 = 0" using assms(5) by (auto simp: read_be16_def dest: be16_zero_bytes)
  show ?thesis
    by (subst split_16 [OF assms(1)])
      (simp add: header_defs read_be32_def read_be16_def m z assms(3,4))
qed

lemma jagd_parse_header:
  assumes "24 \<le> length p" "take 4 p = jagd_magic" "p ! 4 = 1" "read_be16 p 6 = 0" "read_be16 p 22 = 0"
  shows "p = jagd_header (p ! 5) (read_be64 p 8) (read_be32 p 16) (read_be16 p 20) @ drop 24 p"
proof -
  have m: "p ! 0 = 0x4a \<and> p ! Suc 0 = 0x41 \<and> p ! 2 = 0x47 \<and> p ! 3 = 0x44"
    using assms(2) by (subst (asm) split_24 [OF assms(1)]) (simp add: jagd_magic_def)
  have z: "p ! 6 = 0 \<and> p ! 7 = 0" "p ! 22 = 0 \<and> p ! 23 = 0"
    using assms(4,5) by (auto simp: read_be16_def dest: be16_zero_bytes)
  show ?thesis
    by (subst split_24 [OF assms(1)])
      (simp add: jagd_header_def write_be64_read_be64 jagd_magic_def write_be16_def write_be32_def
        read_be32_def read_be16_def m z assms(3))
qed


text \<open>
  The builders on whole frames, with the buffer size their callers use
  (\<open>sizeof frame\<close> in \<open>broadcast_microphone\<close>, \<open>sizeof datagram\<close> in \<open>send_guard\<close>).
\<close>

definition jaud_build :: "jooan_audio_wire_frame \<Rightarrow> byte list result" where
  "jaud_build f =
     (if length (wf_payload f) = unat (wf_payload_length f)
      then jooan_audio_wire_build (JOOAN_AUDIO_WIRE_HEADER_SIZE + JOOAN_AUDIO_WIRE_MAX_PAYLOAD)
             (wf_type f) (wf_flags f) (wf_sequence f) (Some (wf_payload f)) (wf_payload_length f)
      else Inl EINVAL)"

definition jagd_build :: "jooan_audio_guard_frame \<Rightarrow> byte list result" where
  "jagd_build f =
     (if length (gf_payload f) = unat (gf_payload_length f)
      then jooan_audio_guard_datagram_build
             (JOOAN_AUDIO_GUARD_HEADER_SIZE + JOOAN_AUDIO_SAMPLES_PER_PACKET)
             (gf_type f) (gf_session_id f) (gf_sequence f) (Some (gf_payload f)) (gf_payload_length f)
      else Inl EINVAL)"

lemmas wire_sizes = JOOAN_AUDIO_WIRE_HEADER_SIZE_def JOOAN_AUDIO_WIRE_MAX_PAYLOAD_def
  JOOAN_AUDIO_GUARD_HEADER_SIZE_def JOOAN_AUDIO_SAMPLES_PER_PACKET_def

lemma jaud_parse_cases:
  assumes "jooan_audio_wire_parse (Some p) = Inr f"
  shows "p = jaud_header (wf_type f) (wf_flags f) (wf_sequence f) (wf_payload_length f) @ wf_payload f"
    and "length (wf_payload f) = unat (wf_payload_length f)"
    and "unat (wf_payload_length f) \<le> 1024" and "wf_sequence f \<noteq> 0" and "valid_type (wf_type f)"
proof -
  have l: "16 \<le> length p" and m: "take 4 p = jaud_magic" "p ! 4 = 1" "p ! 7 = 16" "read_be16 p 14 = 0"
    and f: "f = \<lparr> wf_type = p ! 5, wf_flags = p ! 6, wf_sequence = read_be32 p 8,
      wf_payload = drop 16 p, wf_payload_length = read_be16 p 12 \<rparr>"
    and r: "length p = 16 + unat (read_be16 p 12)" "unat (read_be16 p 12) \<le> 1024"
      "read_be32 p 8 \<noteq> 0" "valid_type (p ! 5)"
    using assms by (auto simp: jooan_audio_wire_parse_def wire_sizes Let_def split: if_splits)
  show "p = jaud_header (wf_type f) (wf_flags f) (wf_sequence f) (wf_payload_length f) @ wf_payload f"
    using jaud_parse_header [OF l m] by (simp add: f)
  show "length (wf_payload f) = unat (wf_payload_length f)" "unat (wf_payload_length f) \<le> 1024"
    "wf_sequence f \<noteq> 0" "valid_type (wf_type f)" using r f by simp_all
qed

lemma jaud_build_eq:
  assumes "length (wf_payload f) = unat (wf_payload_length f)"
    "unat (wf_payload_length f) \<le> 1024" "wf_sequence f \<noteq> 0"
  shows "jaud_build f =
     (case jooan_audio_wire_parse (Some (jaud_header (wf_type f) (wf_flags f) (wf_sequence f)
             (wf_payload_length f) @ wf_payload f))
      of Inl e \<Rightarrow> Inl e
       | Inr _ \<Rightarrow> Inr (jaud_header (wf_type f) (wf_flags f) (wf_sequence f) (wf_payload_length f) @ wf_payload f))"
  unfolding jaud_build_def jooan_audio_wire_build_def wire_sizes Let_def jaud_header_def
  using assms by (simp cong: sum.case_cong)

lemma jaud_build_cases:
  assumes "jaud_build f = Inr bs"
  shows "bs = jaud_header (wf_type f) (wf_flags f) (wf_sequence f) (wf_payload_length f) @ wf_payload f"
    and "\<exists>g. jooan_audio_wire_parse (Some bs) = Inr g"
proof -
  have c: "length (wf_payload f) = unat (wf_payload_length f)" "unat (wf_payload_length f) \<le> 1024"
    "wf_sequence f \<noteq> 0"
    using assms by (auto simp: jaud_build_def jooan_audio_wire_build_def wire_sizes Let_def split: if_splits)
  show "bs = jaud_header (wf_type f) (wf_flags f) (wf_sequence f) (wf_payload_length f) @ wf_payload f"
    "\<exists>g. jooan_audio_wire_parse (Some bs) = Inr g"
    using assms unfolding jaud_build_eq [OF c] by (auto split: sum.splits)
qed

lemma jaud_parse_build: "jaud_build f = Inr bs \<Longrightarrow> jooan_audio_wire_parse (Some bs) = Inr f"
proof -
  assume b: "jaud_build f = Inr bs"
  then have l: "length (wf_payload f) = unat (wf_payload_length f)"
    by (simp add: jaud_build_def split: if_splits)
  obtain g where g: "jooan_audio_wire_parse (Some bs) = Inr g" using jaud_build_cases(2) [OF b] ..
  have "jaud_header (wf_type g) (wf_flags g) (wf_sequence g) (wf_payload_length g) @ wf_payload g =
      jaud_header (wf_type f) (wf_flags f) (wf_sequence f) (wf_payload_length f) @ wf_payload f"
    (is "?G = ?F")
    using jaud_parse_cases(1) [OF g] jaud_build_cases(1) [OF b] by simp
  then have "?G ! 5 = ?F ! 5" "?G ! 6 = ?F ! 6" "read_be32 ?G 8 = read_be32 ?F 8"
    "read_be16 ?G 12 = read_be16 ?F 12" "drop 16 ?G = drop 16 ?F" by simp_all
  then have "g = f" by (simp only: wire_simps) (cases f, cases g, simp)
  with g show ?thesis by simp
qed

lemma jaud_build_parse: "jooan_audio_wire_parse (Some bs) = Inr f \<Longrightarrow> jaud_build f = Inr bs"
  using jaud_parse_cases [of bs f] by (simp add: jaud_build_eq)

interpretation jaud: wire_format jaud_build "\<lambda>bs. jooan_audio_wire_parse (Some bs)"
  by unfold_locales (auto intro: jaud_parse_build jaud_build_parse)

lemma jagd_build_eq:
  "jagd_build f = Inr bs \<longleftrightarrow>
     length (gf_payload f) = unat (gf_payload_length f) \<and> gf_session_id f \<noteq> 0 \<and> gf_sequence f \<noteq> 0 \<and>
     valid_guard_payload (gf_type f) (gf_payload_length f) \<and>
     bs = jagd_header (gf_type f) (gf_session_id f) (gf_sequence f) (gf_payload_length f) @ gf_payload f"
proof -
  have "valid_guard_payload (gf_type f) (gf_payload_length f) \<Longrightarrow> unat (gf_payload_length f) \<le> 320"
    by (auto simp: valid_guard_payload_def wire_sizes split: if_splits)
  then show ?thesis
    by (auto simp: jagd_build_def jooan_audio_guard_datagram_build_def wire_sizes Let_def
        jagd_header_def not_less split: if_splits)
qed

lemma jagd_parse_build: "jagd_build f = Inr bs \<Longrightarrow> jooan_audio_guard_datagram_parse (Some bs) = Inr f"
  unfolding jagd_build_eq
  by (cases f) (simp add: jooan_audio_guard_datagram_parse_def wire_sizes wire_simps)

lemma jagd_build_parse: "jooan_audio_guard_datagram_parse (Some bs) = Inr f \<Longrightarrow> jagd_build f = Inr bs"
proof -
  assume a: "jooan_audio_guard_datagram_parse (Some bs) = Inr f"
  then have l: "24 \<le> length bs" and m: "take 4 bs = jagd_magic" "bs ! 4 = 1" "read_be16 bs 6 = 0"
      "read_be16 bs 22 = 0"
    and f: "f = \<lparr> gf_type = bs ! 5, gf_session_id = read_be64 bs 8, gf_sequence = read_be32 bs 16,
      gf_payload = drop 24 bs, gf_payload_length = read_be16 bs 20 \<rparr>"
    and r: "length bs = 24 + unat (read_be16 bs 20)" "read_be64 bs 8 \<noteq> 0" "read_be32 bs 16 \<noteq> 0"
      "valid_guard_payload (bs ! 5) (read_be16 bs 20)"
    by (auto simp: jooan_audio_guard_datagram_parse_def wire_sizes Let_def split: if_splits)
  from jagd_parse_header [OF l m] r show ?thesis
    unfolding jagd_build_eq f by simp
qed

interpretation jagd: wire_format jagd_build "\<lambda>bs. jooan_audio_guard_datagram_parse (Some bs)"
  by unfold_locales (auto intro: jagd_parse_build jagd_build_parse)


text \<open>
  C14. JAUD frames: the parser accepts a buffer as a frame exactly when the builder makes
  that buffer from the frame. So nothing is lost on the wire, no two frames share bytes,
  and every accepted buffer is the canonical one (reserved fields zero, exact length).
\<close>

theorem jaud_wire_roundtrip:
  "jooan_audio_wire_parse (Some bs) = Inr f \<longleftrightarrow> jaud_build f = Inr bs"
  using jaud.parse_build jaud.build_parse by blast

text \<open>
  JAGD datagrams: the guard's parser accepts exactly the datagrams the router's
  builder makes, with the type, session, sequence and samples they were made from.
\<close>

theorem jagd_wire_roundtrip:
  "jooan_audio_guard_datagram_parse (Some bs) = Inr f \<longleftrightarrow> jagd_build f = Inr bs"
  using jagd.parse_build jagd.build_parse by blast

section \<open>Sequence numbers do not repeat within a cycle\<close>

text \<open>The frames of one session, each accepted against the last sequence number.\<close>

fun seq_run :: "u32 \<Rightarrow> u32 list \<Rightarrow> u32 result" where
  "seq_run l [] = Inr l"
| "seq_run l (c # cs) =
     (case jooan_audio_sequence_accept l c of Inl e \<Rightarrow> Inl e | Inr l' \<Rightarrow> seq_run l' cs)"

definition seq_nth :: "nat \<Rightarrow> u32" where
  "seq_nth k = (case k of 0 \<Rightarrow> 0 | Suc j \<Rightarrow> of_nat (1 + j mod (2 ^ 32 - 1)))"

lemma unat_seq_nth: "unat (seq_nth (Suc j)) = 1 + j mod (2 ^ 32 - 1)"
proof -
  have "1 + j mod (2 ^ 32 - 1) < (2::nat) ^ LENGTH(32)"
    using mod_less_divisor [of "2 ^ 32 - 1" j] by simp
  then show ?thesis unfolding seq_nth_def nat.case by (simp only: unsigned_of_nat take_bit_nat_eq_self of_nat_id)
qed

lemma seq_next_nth: "seq_next (seq_nth k) = seq_nth (Suc k)"
proof (cases k)
  case 0
  then show ?thesis by (simp add: seq_nth_def seq_next_def)
next
  case (Suc j)
  let ?M = "2 ^ 32 - 1 :: nat"
  have u: "unat (seq_nth k) = 1 + j mod ?M" unfolding Suc by (rule unat_seq_nth)
  have top: "(seq_nth k = 0xffffffff) = (j mod ?M = ?M - 1)"
  proof -
    have "(seq_nth k = 0xffffffff) = (unat (seq_nth k) = unat (0xffffffff :: u32))"
      by (rule word_unat_eq_iff)
    then show ?thesis unfolding u by simp
  qed
  show ?thesis
  proof (cases "j mod ?M = ?M - 1")
    case True
    then have "Suc j mod ?M = 0" by (simp add: mod_Suc)
    with True top show ?thesis by (simp add: seq_next_def seq_nth_def Suc)
  next
    case False
    then have "Suc j mod ?M = Suc (j mod ?M)" by (simp add: mod_Suc)
    moreover have "seq_next (seq_nth k) = seq_nth k + 1" using top False by (simp add: seq_next_def)
    ultimately show ?thesis by (simp add: seq_nth_def Suc)
  qed
qed

lemma seq_run_nth:
  "seq_run (seq_nth k) cs = Inr l \<Longrightarrow> i < length cs \<Longrightarrow> cs ! i = seq_nth (Suc (k + i))"
proof (induction cs arbitrary: k i)
  case (Cons c cs)
  have c: "c = seq_nth (Suc k)" and r: "seq_run (seq_nth (Suc k)) cs = Inr l"
    using Cons.prems(1) by (auto simp: jooan_audio_sequence_accept_def seq_next_nth split: if_splits)
  show ?case
  proof (cases i)
    case (Suc j)
    then show ?thesis using Cons.IH [OF r, of j] Cons.prems(2) by simp
  qed (use c in simp)
qed simp

text \<open>
  C9. In a session whose frames are all accepted, counting from the initial 0, frame
  \<open>i\<close> carries \<open>1 + i mod (2^32 - 1)\<close>: the numbers are never 0, consecutive, and a
  frame number can come again only after all \<open>2^32 - 1\<close> others, so a replayed or
  reordered frame ends the session.
\<close>

theorem accepted_sequence_numbers:
  assumes "seq_run 0 cs = Inr l" and "i < length cs"
  shows "unat (cs ! i) = 1 + i mod (2 ^ 32 - 1)"
proof -
  have "seq_run (seq_nth 0) cs = Inr l" using assms(1) by (simp add: seq_nth_def)
  from seq_run_nth [OF this assms(2)] show ?thesis by (simp only: unat_seq_nth add_0)
qed

lemma accepted_sequence_numbers_witness: "unat ([1, 2, 3 :: u32] ! 2) = 1 + 2 mod (2 ^ 32 - 1)"
  by (rule accepted_sequence_numbers [of _ 3])
    (simp_all add: jooan_audio_sequence_accept_def seq_next_def)


section \<open>Who is let in by the subprotocol offer\<close>

lemma xor_word_eq_0: "(a :: 'a :: len word) XOR b = 0 \<longleftrightarrow> a = b"
proof
  assume "a XOR b = 0"
  then have "(a XOR b) XOR b = 0 XOR b" by simp
  then show "a = b" by (simp add: xor.assoc)
qed simp

lemma of_nat_c_code: "(of_nat (c_code a) :: u32) = of_nat (c_code b) \<longleftrightarrow> a = b"
proof -
  have u: "unat (of_nat (c_code c) :: u32) = c_code c" for c
    using c_code_less [of c] by (simp only: unsigned_of_nat) (simp add: take_bit_nat_eq_self)
  show ?thesis by (metis u c_code_inject)
qed

lemma ws_token_loop_Inr:
  "ws_token_loop tok (Some e) left i d0 = Inr d \<Longrightarrow>
     (d = 0) = (d0 = 0 \<and> (\<forall>j. i \<le> j \<and> j < i + left \<longrightarrow> tok ! j = e ! j)) \<and>
     (\<forall>j. i \<le> j \<and> j < i + left \<longrightarrow> lower_hex (tok ! j))"
proof (induction left arbitrary: i d0)
  case (Suc left)
  have step: "(\<forall>j. i \<le> j \<and> j < i + Suc left \<longrightarrow> P j) =
      (P i \<and> (\<forall>j. Suc i \<le> j \<and> j < Suc i + left \<longrightarrow> P j))" for P
    by (auto simp: less_Suc_eq_le) (metis le_antisym not_less_eq_eq)
  have h: "lower_hex (tok ! i)" and r: "ws_token_loop tok (Some e) left (Suc i)
      (d0 OR (of_nat (c_code (tok ! i)) XOR of_nat (c_code (e ! i)))) = Inr d"
    using Suc.prems by (auto split: if_splits)
  from Suc.IH [OF r] h show ?case
    unfolding step by (auto simp: or_eq_0_iff xor_word_eq_0 of_nat_c_code)
qed auto

lemma ws_token_loop_total:
  "(\<forall>j. i \<le> j \<and> j < i + left \<longrightarrow> lower_hex (tok ! j)) \<Longrightarrow>
     \<exists>d. ws_token_loop tok ex left i d0 = Inr d"
  by (induction left arbitrary: i d0) auto

lemma ws_protocol_loop_both:
  "ws_protocol_loop ts True (Some t) = Inr r \<longleftrightarrow> ts = [] \<and> r = (True, Some t)"
  by (cases ts) (auto simp: Let_def)

lemma prefix_split:
  "take (length p) v = p \<Longrightarrow> drop (length p) v = t \<longleftrightarrow> v = p @ t"
  by (metis append_take_drop_id same_append_eq append_eq_conv_conj)

lemma protocol_not_prefixed: "JOOAN_AUDIO_WS_PROTOCOL \<noteq> JOOAN_AUDIO_WS_AUTH_PREFIX @ t"
  by (simp add: JOOAN_AUDIO_WS_PROTOCOL_def JOOAN_AUDIO_WS_AUTH_PREFIX_def)

lemma ws_protocol_loop_app:
  "ws_protocol_loop ts True None = Inr (True, Some t) \<longleftrightarrow>
     map c_trim ts = [JOOAN_AUDIO_WS_AUTH_PREFIX @ t]"
proof (cases ts)
  case (Cons x xs)
  show ?thesis
  proof (cases "take (length JOOAN_AUDIO_WS_AUTH_PREFIX) (c_trim x) = JOOAN_AUDIO_WS_AUTH_PREFIX")
    case True
    then show ?thesis
      using prefix_split [OF True, of t] protocol_not_prefixed [of t]
      by (auto simp: Cons Let_def ws_protocol_loop_both)
  next
    case False
    then show ?thesis using protocol_not_prefixed [of t] by (auto simp: Cons Let_def)
  qed
qed simp

lemma ws_protocol_loop_tok:
  "ws_protocol_loop ts False (Some t') = Inr (True, Some t) \<longleftrightarrow>
     map c_trim ts = [JOOAN_AUDIO_WS_PROTOCOL] \<and> t' = t"
  by (cases ts) (auto simp: Let_def ws_protocol_loop_both)

lemma ws_protocol_loop_start:
  "ws_protocol_loop ts False None = Inr (True, Some t) \<longleftrightarrow>
     map c_trim ts = [JOOAN_AUDIO_WS_PROTOCOL, JOOAN_AUDIO_WS_AUTH_PREFIX @ t] \<or>
     map c_trim ts = [JOOAN_AUDIO_WS_AUTH_PREFIX @ t, JOOAN_AUDIO_WS_PROTOCOL]"
proof (cases ts)
  case (Cons x xs)
  note d = protocol_not_prefixed [of t]
  consider (P) "c_trim x = JOOAN_AUDIO_WS_PROTOCOL"
    | (X) "c_trim x \<noteq> JOOAN_AUDIO_WS_PROTOCOL"
        "take (length JOOAN_AUDIO_WS_AUTH_PREFIX) (c_trim x) = JOOAN_AUDIO_WS_AUTH_PREFIX"
    | (N) "c_trim x \<noteq> JOOAN_AUDIO_WS_PROTOCOL"
        "take (length JOOAN_AUDIO_WS_AUTH_PREFIX) (c_trim x) \<noteq> JOOAN_AUDIO_WS_AUTH_PREFIX"
    by blast
  then show ?thesis
  proof cases
    case P
    then show ?thesis using d by (simp add: Cons Let_def ws_protocol_loop_app)
  next
    case X
    then show ?thesis
      using prefix_split [OF X(2), of t] by (auto simp add: Cons Let_def ws_protocol_loop_tok)
  next
    case N
    then show ?thesis by (auto simp add: Cons Let_def)
  qed
qed simp

lemma ws_protocol_loop_flags:
  "ws_protocol_loop ts a tok = Inr (a', tok') \<Longrightarrow> a \<Longrightarrow> a'"
  by (induction ts a tok rule: ws_protocol_loop.induct) (auto simp: Let_def split: if_splits)

text \<open>
  The check lets a WebSocket in exactly when its offer is short enough and, trimmed,
  lists the application protocol once and the authentication protocol once, in either
  order and nothing else, with a token of 64 lowercase hex digits equal to the one
  expected. In particular the accumulated difference is an equality test.
\<close>

theorem ws_protocol_accepts_iff:
  "jooan_audio_ws_protocol_validate (Some offer) (Some token) = Inr () \<longleftrightarrow>
     length offer < 256 \<and> length token = 64 \<and> list_all lower_hex token \<and>
     (map c_trim (c_tokens (\<lambda>c. c = CHR '','') offer)
        = [JOOAN_AUDIO_WS_PROTOCOL, JOOAN_AUDIO_WS_AUTH_PREFIX @ token] \<or>
      map c_trim (c_tokens (\<lambda>c. c = CHR '','') offer)
        = [JOOAN_AUDIO_WS_AUTH_PREFIX @ token, JOOAN_AUDIO_WS_PROTOCOL])"
    (is "?L \<longleftrightarrow> ?R")
proof
  let ?ts = "c_tokens (\<lambda>c. c = CHR '','') offer"
  assume ?L
  then obtain t d where t: "ws_protocol_loop ?ts False None = Inr (True, Some t)" "length t = 64"
      "ws_token_loop t (Some token) 64 0 0 = Inr d" "d = 0"
    and l: "length offer < 256" "length token = 64"
    by (auto simp: jooan_audio_ws_protocol_validate_def JOOAN_AUDIO_AUTH_TOKEN_HEX_LENGTH_def not_le
        split: if_splits sum.splits option.splits prod.splits)
  from ws_token_loop_Inr [OF t(3)] t(2,4) l have "t = token" and "list_all lower_hex t"
    by (auto simp: list_all_length intro!: nth_equalityI)
  with t(1) l show ?R by (simp add: ws_protocol_loop_start)
next
  let ?ts = "c_tokens (\<lambda>c. c = CHR '','') offer"
  assume R: ?R
  then have "ws_protocol_loop ?ts False None = Inr (True, Some token)"
    by (simp add: ws_protocol_loop_start)
  moreover obtain d where d: "ws_token_loop token (Some token) 64 0 0 = Inr d"
    using R ws_token_loop_total [of 0 64 token "Some token" 0] by (auto simp: list_all_length)
  moreover have "d = 0" using ws_token_loop_Inr [OF d] by simp
  ultimately show ?L
    using R by (simp add: jooan_audio_ws_protocol_validate_def JOOAN_AUDIO_AUTH_TOKEN_HEX_LENGTH_def)
qed

end
