(* ===== verification/C_Strings.thy ===== *)
theory C_Strings
  imports Prelude
begin

text \<open>
  The parts of the C library's string functions that several components use: character
  classes, \<open>strtoul\<close>, decimal output of \<open>printf\<close>, the conversions of \<open>sscanf\<close>, and what
  \<open>strtok_r\<close> makes of texts that were printed with separators.
\<close>

section \<open>Characters\<close>

definition c_isspace :: "char \<Rightarrow> bool" where
  "c_isspace c = (c_code c = 32 \<or> 9 \<le> c_code c \<and> c_code c \<le> 13)"

definition c_isdigit :: "char \<Rightarrow> bool" where
  "c_isdigit c = (48 \<le> c_code c \<and> c_code c \<le> 57)"

definition c_isalnum :: "char \<Rightarrow> bool" where
  "c_isalnum c = (48 \<le> c_code c \<and> c_code c \<le> 57 \<or> 65 \<le> c_code c \<and> c_code c \<le> 90
     \<or> 97 \<le> c_code c \<and> c_code c \<le> 122)"

section \<open>Decimal numbers\<close>

fun digits_value :: "nat \<Rightarrow> string \<Rightarrow> nat" where
  "digits_value acc [] = acc"
| "digits_value acc (c # cs) = digits_value (10 * acc + (c_code c - 48)) cs"

text \<open>The optional sign in front of a number.\<close>

definition c_sign :: "string \<Rightarrow> bool \<times> string" where
  "c_sign s = (case s of [] \<Rightarrow> (False, []) | c # cs \<Rightarrow>
     if c = CHR ''-'' then (True, cs) else if c = CHR ''+'' then (False, cs) else (False, s))"

text \<open>\<open>strtoul (s, &end, 10)\<close> where \<open>unsigned long\<close> has 32 bits: the value and the rest.\<close>

definition c_strtoul :: "string \<Rightarrow> nat \<times> string" where
  "c_strtoul s =
     (case c_sign (dropWhile c_isspace s) of
        (negative, u) \<Rightarrow>
          let ds = takeWhile c_isdigit u; n = digits_value 0 ds
          in if ds = [] then (0, s)
             else (if 2 ^ 32 \<le> n then 2 ^ 32 - 1
                   else if negative \<and> n \<noteq> 0 then 2 ^ 32 - n else n, dropWhile c_isdigit u))"

text \<open>\<open>strtoll\<close>, which saturates at the ends of 64 bits, as \<open>%lld\<close> of \<open>sscanf\<close> does.\<close>

definition c_strtoll :: "string \<Rightarrow> (int \<times> string) option" where
  "c_strtoll s =
     (case c_sign (dropWhile c_isspace s) of
        (negative, u) \<Rightarrow>
          let ds = takeWhile c_isdigit u; n = int (digits_value 0 ds)
          in if ds = [] then None
             else Some (if negative then max (- (2 ^ 63)) (- n) else min (2 ^ 63 - 1) n, dropWhile c_isdigit u))"

text \<open>\<open>atoi\<close> on the numbers that fit an \<open>int\<close>; others wrap as a conversion of \<open>long\<close> does.\<close>

definition c_int :: "int \<Rightarrow> int" where
  "c_int n = sint (word_of_int n :: 32 word)"

definition c_atoi :: "string \<Rightarrow> int" where
  "c_atoi s = (case c_strtoll s of None \<Rightarrow> 0 | Some (n, _) \<Rightarrow> c_int n)"

text \<open>\<open>printf "%u"\<close> and \<open>"%lld"\<close>.\<close>

fun c_dec :: "nat \<Rightarrow> string" where
  "c_dec n = (if n < 10 then [] else c_dec (n div 10)) @ [char_of (48 + n mod 10)]"

declare c_dec.simps [simp del]

definition c_dec_int :: "int \<Rightarrow> string" where
  "c_dec_int n = (if n < 0 then CHR ''-'' # c_dec (nat (- n)) else c_dec (nat n))"

lemma digits_value_append: "digits_value a (xs @ [c]) = 10 * digits_value a xs + (c_code c - 48)"
  by (induction xs arbitrary: a) auto

lemma c_code_char_of: "n < 256 \<Longrightarrow> c_code (char_of n) = n"
  by (simp add: c_code_def of_char_of)

lemma digits_value_dec: "digits_value 0 (c_dec n) = n"
proof (induction n rule: c_dec.induct)
  case (1 n)
  have "c_code (char_of (48 + n mod 10)) = 48 + n mod 10"
    by (rule c_code_char_of) (use mod_less_divisor [of 10 n] in linarith)
  then show ?case using 1 by (cases "n < 10") (simp_all add: c_dec.simps [of n] digits_value_append)
qed

lemma dec_digits: "c \<in> set (c_dec n) \<Longrightarrow> c_isdigit c"
proof (induction n rule: c_dec.induct)
  case (1 n)
  have "c_code (char_of (48 + n mod 10)) = 48 + n mod 10"
    by (rule c_code_char_of) (use mod_less_divisor [of 10 n] in linarith)
  then have "c_isdigit (char_of (48 + n mod 10))" by (simp add: c_isdigit_def)
  then show ?case using 1 by (cases "n < 10") (auto simp: c_dec.simps [of n])
qed

lemma dec_nonempty [simp]: "c_dec n \<noteq> []"
  by (simp add: c_dec.simps)

lemma digit_facts:
  "c_isdigit c \<Longrightarrow> \<not> c_isspace c" "c_isdigit c \<Longrightarrow> c \<noteq> CHR ''-''" "c_isdigit c \<Longrightarrow> c \<noteq> CHR ''+''"
  "c_isdigit c \<Longrightarrow> c \<noteq> CHR '':''" "c_isdigit c \<Longrightarrow> c \<noteq> CHR 0x0A" "c_isdigit c \<Longrightarrow> c \<noteq> CHR 0x0D"
  by (auto simp: c_isdigit_def c_isspace_def c_code_def)

lemma takeWhile_dec: "\<not> c_isdigit (hd (rest @ [CHR '' ''])) \<Longrightarrow> takeWhile c_isdigit (c_dec n @ rest) = c_dec n"
  and dropWhile_dec: "\<not> c_isdigit (hd (rest @ [CHR '' ''])) \<Longrightarrow> dropWhile c_isdigit (c_dec n @ rest) = rest"
  by (cases rest; simp add: dec_digits takeWhile_append2 dropWhile_append2)+

lemma sign_dec: "c_sign (dropWhile c_isspace (c_dec n @ rest)) = (False, c_dec n @ rest)"
proof -
  obtain c cs where c: "c_dec n = c # cs" by (cases "c_dec n") auto
  then have "c_isdigit c" using dec_digits [of c n] by simp
  then show ?thesis using digit_facts [of c] by (simp add: c c_sign_def)
qed

lemma strtoul_dec: "n < 2 ^ 32 \<Longrightarrow> \<not> c_isdigit (hd (rest @ [CHR '' ''])) \<Longrightarrow> c_strtoul (c_dec n @ rest) = (n, rest)"
  by (simp add: c_strtoul_def sign_dec takeWhile_dec dropWhile_dec digits_value_dec)

lemma strtoll_dec_nat:
  "n < 2 ^ 63 \<Longrightarrow> \<not> c_isdigit (hd (rest @ [CHR '' ''])) \<Longrightarrow> c_strtoll (c_dec n @ rest) = Some (int n, rest)"
  by (simp add: c_strtoll_def sign_dec takeWhile_dec dropWhile_dec digits_value_dec)

lemma strtoll_dec:
  assumes "- (2 ^ 63) \<le> n" "n < 2 ^ 63" "\<not> c_isdigit (hd (rest @ [CHR '' '']))"
  shows "c_strtoll (c_dec_int n @ rest) = Some (n, rest)"
proof (cases "n < 0")
  case True
  have "c_strtoll (CHR ''-'' # c_dec (nat (- n)) @ rest) = Some (n, rest)"
    using True assms by (simp add: c_strtoll_def c_sign_def takeWhile_dec dropWhile_dec digits_value_dec c_isspace_def c_code_def)
  with True show ?thesis by (simp add: c_dec_int_def)
next
  case False
  then show ?thesis using strtoll_dec_nat [of "nat n" rest] assms by (simp add: c_dec_int_def)
qed

section \<open>Words of a text\<close>

text \<open>One \<open>%<n>s\<close> conversion of \<open>sscanf\<close>: at most \<open>n\<close> characters that are not space.\<close>

definition scan_word :: "nat \<Rightarrow> string \<Rightarrow> (string \<times> string) option" where
  "scan_word n s =
     (let s = dropWhile c_isspace s; w = take n (takeWhile (\<lambda>c. \<not> c_isspace c) s)
      in if w = [] then None else Some (w, drop (length w) s))"

lemma scan_word_printed:
  assumes "list_all (\<lambda>c. \<not> c_isspace c) w" "w \<noteq> []" "length w \<le> n" "c_isspace (hd (rest @ [CHR '' '']))"
  shows "scan_word n (w @ rest) = Some (w, rest)"
proof -
  have t: "takeWhile (\<lambda>c. \<not> c_isspace c) (w @ rest) = w"
    using assms(1,4) by (cases rest) (auto simp: list_all_iff takeWhile_append2)
  have d: "dropWhile c_isspace (w @ rest) = w @ rest" using assms(1,2) by (cases w) auto
  have "n \<noteq> 0" using assms(2,3) by (cases w) auto
  then show ?thesis using assms(2,3) by (simp add: scan_word_def d t)
qed

lemma c_tokens_skip: "d x \<Longrightarrow> c_tokens d (x # s) = c_tokens d s"
  by (simp add: c_tokens.simps)

lemma c_tokens_Cons:
  "\<not> d x \<Longrightarrow> c_tokens d (x # s) = (x # takeWhile (\<lambda>y. \<not> d y) s) # c_tokens d (dropWhile (\<lambda>y. \<not> d y) s)"
  by (subst c_tokens.simps) simp

lemma c_tokens_dropWhile: "c_tokens d (dropWhile d s) = c_tokens d s"
  by (induction s) (auto simp: c_tokens_skip)

text \<open>A printed field, its separator and the rest.\<close>

lemma c_tokens_field:
  assumes "w \<noteq> []" "list_all (\<lambda>c. \<not> d c) w" "d x"
  shows "c_tokens d (w @ x # s) = w # c_tokens d s"
proof -
  obtain c cs where w: "w = c # cs" using assms(1) by (cases w) auto
  have t: "takeWhile (\<lambda>y. \<not> d y) (cs @ x # s) = cs" "dropWhile (\<lambda>y. \<not> d y) (cs @ x # s) = x # s"
    using assms(2,3) by (auto simp: w list_all_iff takeWhile_append2 dropWhile_append2)
  have "\<not> d c" using assms(2) by (simp add: w)
  then show ?thesis unfolding w append_Cons c_tokens_Cons [where d = d, OF \<open>\<not> d c\<close>] t
    using assms(3) by (simp add: c_tokens_skip)
qed

section \<open>Bytes and characters\<close>

definition chars_of :: "byte list \<Rightarrow> string" where
  "chars_of bs = map (\<lambda>b. char_of (unat b)) bs"

definition bytes_of :: "string \<Rightarrow> byte list" where
  "bytes_of s = map (\<lambda>c. of_nat (c_code c)) s"

lemma chars_of_bytes_of [simp]: "chars_of (bytes_of s) = s"
proof -
  have "char_of (unat (of_nat (c_code c) :: byte)) = c" for c
    using c_code_less [of c] by (simp add: unsigned_of_nat take_bit_nat_eq_self c_code_def)
  then show ?thesis by (simp add: chars_of_def bytes_of_def comp_def)
qed

lemma length_chars [simp]: "length (chars_of bs) = length bs" "length (bytes_of s) = length s"
  by (simp_all add: chars_of_def bytes_of_def)

lemma bytes_of_append [simp]: "bytes_of (s @ t) = bytes_of s @ bytes_of t"
  by (simp add: bytes_of_def)

text \<open>The C string at the start of a buffer that ends in a NUL byte.\<close>

definition c_string :: "byte list \<Rightarrow> string" where
  "c_string bs = chars_of (takeWhile (\<lambda>b. b \<noteq> 0) bs)"

lemma bytes_of_nonzero: "CHR 0x00 \<notin> set s \<Longrightarrow> b \<in> set (bytes_of s) \<Longrightarrow> b \<noteq> 0"
proof
  assume s: "CHR 0x00 \<notin> set s" and b: "b \<in> set (bytes_of s)" and z: "b = 0"
  then obtain c where c: "c \<in> set s" "(of_nat (c_code c) :: byte) = 0" by (auto simp: bytes_of_def)
  have "unat (of_nat (c_code c) :: byte) = c_code c"
    using c_code_less [of c] by (simp add: unsigned_of_nat take_bit_nat_eq_self)
  then have "c_code c = 0" unfolding c(2) by simp
  then have "c_code c = c_code (CHR 0x00)" by (simp add: c_code_def)
  then have "c = CHR 0x00" by (simp only: c_code_inject)
  with c(1) s show False by simp
qed

lemma c_string_bytes_of [simp]: "CHR 0x00 \<notin> set s \<Longrightarrow> c_string (bytes_of s) = s"
proof -
  assume "CHR 0x00 \<notin> set s"
  then have "takeWhile (\<lambda>b. b \<noteq> 0) (bytes_of s) = bytes_of s"
    unfolding takeWhile_eq_all_conv using bytes_of_nonzero by blast
  then show ?thesis unfolding c_string_def by (simp only: chars_of_bytes_of)
qed

end
