(* ===== verification/Hashes.thy ===== *)
theory Hashes
  imports C_Strings
begin

text \<open>
  The three streaming hashes of the platform: SHA-256 of the guard
  (\<open>src/guard/guard_sha256.c\<close>), the daemon's SHA-256, HMAC and PBKDF2
  (\<open>src/daemon/crypto.c\<close>), and the router's SHA-1 with base64 for the WebSocket
  handshake (\<open>src/audio/audio_router.c\<close>). Each keeps a 64-byte block that it fills and
  compresses; the interface \<open>incremental_hash\<close> says that the digest depends only on
  the concatenation of what was fed in and is the padded Merkle-Damgard digest.
\<close>

section \<open>Filling and compressing blocks\<close>

definition memcpy_at :: "byte list \<Rightarrow> nat \<Rightarrow> byte list \<Rightarrow> byte list" where
  "memcpy_at buf i xs = take i buf @ xs @ drop (i + length xs) buf"

text \<open>
  The loop of the update functions over the state words, the block and how much of it is
  used. A context never holds a full block (the loop empties it at once), so the
  equation stops there.
\<close>

function absorb ::
  "('s \<Rightarrow> byte list \<Rightarrow> 's) \<Rightarrow> 's \<Rightarrow> byte list \<Rightarrow> nat \<Rightarrow> byte list \<Rightarrow> 's \<times> byte list \<times> nat" where
  "absorb transform st block used input =
     (if input = [] \<or> 64 \<le> used then (st, block, used)
      else
        let amount = min (64 - used) (length input);
            block = memcpy_at block used (take amount input);
            used = used + amount
        in if used = 64 then absorb transform (transform st block) block 0 (drop amount input)
           else absorb transform st block used (drop amount input))"
  by pat_completeness auto
termination
  by (relation "measure (\<lambda>(transform, st, block, used, input). length input)") (auto simp: min_def)

declare absorb.simps [simp del]

text \<open>What that loop means: whole blocks compressed, the rest kept.\<close>

function fold_blocks :: "('s \<Rightarrow> byte list \<Rightarrow> 's) \<Rightarrow> 's \<Rightarrow> byte list \<Rightarrow> 's \<times> byte list" where
  "fold_blocks f st xs =
     (if length xs < 64 then (st, xs) else fold_blocks f (f st (take 64 xs)) (drop 64 xs))"
  by pat_completeness auto
termination
  by (relation "measure (\<lambda>(f, st, xs). length xs)") auto

declare fold_blocks.simps [simp del]

lemma fold_blocks_short: "length xs < 64 \<Longrightarrow> fold_blocks f st xs = (st, xs)"
  by (simp add: fold_blocks.simps)

lemma fold_blocks_step:
  "length xs = 64 \<Longrightarrow> fold_blocks f st (xs @ ys) = fold_blocks f (f st xs) ys"
  by (subst fold_blocks.simps) simp

lemma fold_blocks_rest: "length (snd (fold_blocks f st xs)) < 64"
proof (induction f st xs rule: fold_blocks.induct)
  case (1 f st xs)
  then show ?case by (cases "length xs < 64") (simp_all add: fold_blocks.simps [of f st xs])
qed

lemma fold_blocks_append:
  "fold_blocks f st xs = (st', r) \<Longrightarrow> fold_blocks f st (xs @ ys) = fold_blocks f st' (r @ ys)"
proof (induction f st xs rule: fold_blocks.induct)
  case (1 f st xs)
  show ?case
  proof (cases "length xs < 64")
    case True
    with "1.prems" show ?thesis by (simp add: fold_blocks_short)
  next
    case False
    then have "fold_blocks f (f st (take 64 xs)) (drop 64 xs) = (st', r)"
      using "1.prems" by (simp add: fold_blocks.simps [of f st xs])
    from "1.IH" [OF False this] have
      "fold_blocks f (f st (take 64 xs)) (drop 64 xs @ ys) = fold_blocks f st' (r @ ys)" .
    moreover have "fold_blocks f st (xs @ ys) = fold_blocks f (f st (take 64 xs)) (drop 64 xs @ ys)"
      using False fold_blocks_step [of "take 64 xs" f st "drop 64 xs @ ys"]
      by (metis append_assoc append_take_drop_id length_take min.absorb2 not_less)
    ultimately show ?thesis by simp
  qed
qed

lemma memcpy_at_length:
  "i + length xs \<le> length buf \<Longrightarrow> length (memcpy_at buf i xs) = length buf"
  by (simp add: memcpy_at_def)

lemma memcpy_at_take:
  "i + length xs \<le> length buf \<Longrightarrow> take (i + length xs) (memcpy_at buf i xs) = take i buf @ xs"
  by (simp add: memcpy_at_def)

lemma absorb_fold_blocks:
  assumes "length block = 64" "used < 64"
  shows "(case absorb f st block used input of (st', block', used') \<Rightarrow>
     length block' = 64 \<and> used' < 64 \<and> (st', take used' block') = fold_blocks f st (take used block @ input))"
  using assms
proof (induction f st block used input rule: absorb.induct)
  case (1 f st block used input)
  note prems = "1.prems"
  show ?case
  proof (cases "input = []")
    case True
    with prems show ?thesis by (simp add: absorb.simps [of f st block used] fold_blocks_short)
  next
    case False
    define amount where "amount = min (64 - used) (length input)"
    define block' where "block' = memcpy_at block used (take amount input)"
    have la: "length (take amount input) = amount" "amount \<le> 64 - used" by (simp_all add: amount_def)
    have l: "length block' = 64" using prems la by (simp add: block'_def memcpy_at_length)
    have t: "take (used + amount) block' = take used block @ take amount input"
      using memcpy_at_take [of used "take amount input" block] prems la by (simp add: block'_def)
    have g: "\<not> (input = [] \<or> 64 \<le> used)" using False prems by simp
    have e: "absorb f st block used input =
        (if used + amount = 64 then absorb f (f st block') block' 0 (drop amount input)
         else absorb f st block' (used + amount) (drop amount input))"
      using g by (simp add: absorb.simps [of f st block used input] amount_def block'_def Let_def)
    show ?thesis
    proof (cases "used + amount = 64")
      case True
      have "block' = take used block @ take amount input" using t True l by simp
      then have fb: "fold_blocks f st (take used block @ input) = fold_blocks f (f st block') (drop amount input)"
        using fold_blocks_step [OF l, of f st "drop amount input"] by simp
      show ?thesis
        using "1.IH"(1) [OF g amount_def block'_def refl True l] e True fb by simp
    next
      case False
      then have "used + amount < 64" using la prems by simp
      from "1.IH"(2) [OF g amount_def block'_def refl False l this]
      show ?thesis using e False by (simp add: t)
    qed
  qed
qed

section \<open>Padding and the interface\<close>

text \<open>The padded message of FIPS 180-4: one bit, zeros, the length in bits.\<close>

definition md_pad :: "byte list \<Rightarrow> byte list" where
  "md_pad xs = xs @ 0x80 # replicate ((119 - length xs mod 64) mod 64) 0 @ write_be64 (of_nat (8 * length xs))"

text \<open>The code's padding: the last steps of the final functions on the block.\<close>

definition finish_blocks :: "('s \<Rightarrow> byte list \<Rightarrow> 's) \<Rightarrow> 's \<Rightarrow> byte list \<Rightarrow> nat \<Rightarrow> u64 \<Rightarrow> 's" where
  "finish_blocks transform st block used bits =
     (let block = block[used := 0x80]; used = used + 1;
          (st, block, used) =
            (if 56 < used
             then let block = memcpy_at block used (replicate (64 - used) 0)
                  in (transform st block, block, 0)
             else (st, block, used));
          block = memcpy_at block used (replicate (56 - used) 0);
          block = foldl (\<lambda>b i. b[63 - i := ucast (drop_bit (i * 8) bits)]) block [0..<8]
      in transform st block)"

definition md_digest :: "('s \<Rightarrow> byte list \<Rightarrow> 's) \<Rightarrow> 's \<Rightarrow> byte list \<Rightarrow> 's" where
  "md_digest f iv xs = fst (fold_blocks f iv (md_pad xs))"

text \<open>
  An incremental hash: \<open>holds c xs\<close> says that context \<open>c\<close> has taken in the message
  \<open>xs\<close>. Only the bytes matter, neither how they were cut nor what the block held.
\<close>

locale incremental_hash =
  fixes fresh :: "'c \<Rightarrow> bool"
    and update :: "'c \<Rightarrow> byte list \<Rightarrow> 'c"
    and final :: "'c \<Rightarrow> byte list"
    and holds :: "'c \<Rightarrow> byte list \<Rightarrow> bool"
    and digest :: "byte list \<Rightarrow> byte list"
  assumes holds_fresh: "fresh c \<Longrightarrow> holds c []"
    and holds_update: "holds c xs \<Longrightarrow> holds (update c ys) (xs @ ys)"
    and final_holds: "holds c xs \<Longrightarrow> final c = digest xs"
begin

lemma holds_chunks: "holds c xs \<Longrightarrow> holds (foldl update c css) (xs @ concat css)"
proof (induction css arbitrary: c xs)
  case (Cons ys css)
  from Cons.IH [OF holds_update [OF Cons.prems, of ys]] show ?case by simp
qed simp

lemma digest_of_chunks: "fresh c \<Longrightarrow> final (foldl update c css) = digest (concat css)"
  using holds_chunks [OF holds_fresh, of c css] final_holds by simp

lemma digest_once: "fresh c \<Longrightarrow> final (update c xs) = digest xs"
  using digest_of_chunks [of c "[xs]"] by simp

lemma digest_twice: "fresh c \<Longrightarrow> final (update (update c xs) ys) = digest (xs @ ys)"
  using digest_of_chunks [of c "[xs, ys]"] by simp

end

lemma set_last_bytes:
  assumes "length b = 64"
  shows "foldl (\<lambda>b i. b[63 - i := ucast (drop_bit (i * 8) bits)]) b [0..<8] =
    take 56 b @ write_be64 (bits :: u64)"
proof -
  have u: "[0..<8] = [0, 1, 2, 3, 4, 5, 6, 7 :: nat]" by (simp add: upt_rec)
  have w: "write_be64 bits = [ucast (drop_bit 56 bits), ucast (drop_bit 48 bits), ucast (drop_bit 40 bits),
     ucast (drop_bit 32 bits), ucast (drop_bit 24 bits), ucast (drop_bit 16 bits), ucast (drop_bit 8 bits), ucast bits]"
    unfolding write_be64_def write_be32_def by (simp, intro conjI; rule bit_word_eqI; auto simp: bit_simps)
  have "b = take 56 b @ drop 56 b" by simp
  moreover define xs where "xs = drop 56 b"
  moreover have "length xs = 8" using assms by (simp add: xs_def)
  then obtain b0 b1 b2 b3 b4 b5 b6 b7 where "xs = [b0, b1, b2, b3, b4, b5, b6, b7]"
    by (auto simp: numeral_eq_Suc length_Suc_conv)
  ultimately have b: "b = take 56 b @ [b0, b1, b2, b3, b4, b5, b6, b7]" by simp
  have l: "length (take 56 b) = 56" using assms by simp
  show ?thesis
    unfolding u w by (subst b) (simp add: list_update_append l assms)
qed

lemma fold_blocks_rest_mod: "length (snd (fold_blocks f st xs)) = length xs mod 64"
proof (induction f st xs rule: fold_blocks.induct)
  case (1 f st xs)
  then show ?case
    by (cases "length xs < 64") (simp_all add: fold_blocks.simps [of f st xs] le_mod_geq)
qed

lemma set_then_zero:
  assumes "length block = 64" "used < n" "n \<le> 64"
  shows "memcpy_at (block[used := 0x80]) (Suc used) (replicate (n - Suc used) 0) =
    take used block @ 0x80 # replicate (n - Suc used) 0 @ drop n block"
  using assms by (simp add: memcpy_at_def upd_conv_take_nth_drop drop_Cons')

lemma finish_blocks_md:
  assumes l: "length block = 64" and u: "used < 64"
    and fb: "fold_blocks f iv xs = (st, take used block)"
  shows "finish_blocks f st block used (of_nat (8 * length xs)) = md_digest f iv xs"
proof -
  let ?bits = "of_nat (8 * length xs) :: u64" and ?r = "take used block"
  have n: "length xs mod 64 = used" using fold_blocks_rest_mod [of f iv xs] fb l u by simp
  define P where "P = 0x80 # replicate ((119 - used) mod 64) 0 @ write_be64 ?bits"
  have d: "md_digest f iv xs = fst (fold_blocks f st (?r @ P))"
    using fold_blocks_append [OF fb, of P] by (simp add: md_digest_def md_pad_def n P_def)
  show ?thesis
  proof (cases "56 < Suc used")
    case False
    then have z: "(119 - used) mod 64 = 56 - Suc used" by (simp add: le_mod_geq)
    have rl: "length ?r = used" using l u by simp
    have "fold_blocks f st (?r @ P) = (f st (?r @ P), [])"
      using fold_blocks_step [of "?r @ P" f st "[]"] rl False
      by (simp add: P_def z fold_blocks_short)
    moreover have "finish_blocks f st block used ?bits = f st (?r @ P)"
      using False l set_then_zero [OF l, of used 56]
      by (simp add: finish_blocks_def Let_def set_last_bytes memcpy_at_length P_def z rl take_Cons')
    ultimately show ?thesis using d by simp
  next
    case True
    have z: "(119 - used) mod 64 = (64 - Suc used) + 56" using True u by simp
    let ?b1 = "?r @ 0x80 # replicate (64 - Suc used) 0"
    have rl: "length ?r = used" using l u by simp
    have P: "?r @ P = ?b1 @ replicate 56 0 @ write_be64 ?bits"
      by (simp add: P_def z replicate_add)
    have b1: "length ?b1 = 64" using rl u by simp
    have "fold_blocks f st (?r @ P) = (f (f st ?b1) (replicate 56 0 @ write_be64 ?bits), [])"
      unfolding P using fold_blocks_step [of "?b1" f st "replicate 56 0 @ write_be64 ?bits"] b1
        fold_blocks_step [of "replicate 56 0 @ write_be64 ?bits" f "f st ?b1" "[]"]
      by (simp add: fold_blocks_short)
    moreover have "finish_blocks f st block used ?bits = f (f st ?b1) (replicate 56 0 @ write_be64 ?bits)"
    proof -
      have "memcpy_at (block[used := 0x80]) (Suc used) (replicate (64 - Suc used) 0) = ?b1"
        using set_then_zero [OF l, of used 64] u l by simp
      moreover have "memcpy_at ?b1 0 (replicate 56 0) = replicate 56 0 @ drop 56 ?b1"
        by (simp only: memcpy_at_def) simp
      moreover have "length (replicate 56 0 @ drop 56 ?b1) = 64" using b1 by simp
      ultimately show ?thesis
        using True by (simp only: finish_blocks_def Let_def) (simp add: set_last_bytes)
    qed
    ultimately show ?thesis using d by simp
  qed
qed


section \<open>SHA-256 of the guard\<close>

record sha256_context =
  state :: "u32 list"
  bit_count :: u64
  block :: "byte list"
  block_length :: nat

definition round_constants :: "u32 list" where
  "round_constants =
    [0x428a2f98, 0x71374491, 0xb5c0fbcf, 0xe9b5dba5] @
    [0x3956c25b, 0x59f111f1, 0x923f82a4, 0xab1c5ed5] @
    [0xd807aa98, 0x12835b01, 0x243185be, 0x550c7dc3] @
    [0x72be5d74, 0x80deb1fe, 0x9bdc06a7, 0xc19bf174] @
    [0xe49b69c1, 0xefbe4786, 0x0fc19dc6, 0x240ca1cc] @
    [0x2de92c6f, 0x4a7484aa, 0x5cb0a9dc, 0x76f988da] @
    [0x983e5152, 0xa831c66d, 0xb00327c8, 0xbf597fc7] @
    [0xc6e00bf3, 0xd5a79147, 0x06ca6351, 0x14292967] @
    [0x27b70a85, 0x2e1b2138, 0x4d2c6dfc, 0x53380d13] @
    [0x650a7354, 0x766a0abb, 0x81c2c92e, 0x92722c85] @
    [0xa2bfe8a1, 0xa81a664b, 0xc24b8b70, 0xc76c51a3] @
    [0xd192e819, 0xd6990624, 0xf40e3585, 0x106aa070] @
    [0x19a4c116, 0x1e376c08, 0x2748774c, 0x34b0bcb5] @
    [0x391c0cb3, 0x4ed8aa4a, 0x5b9cca4f, 0x682e6ff3] @
    [0x748f82ee, 0x78a5636f, 0x84c87814, 0x8cc70208] @
    [0x90befffa, 0xa4506ceb, 0xbef9a3f7, 0xc67178f2]"

definition rotate_right :: "u32 \<Rightarrow> nat \<Rightarrow> u32" where
  "rotate_right v amount = drop_bit amount v OR push_bit (32 - amount) v"

type_synonym sha256_regs = "u32 \<times> u32 \<times> u32 \<times> u32 \<times> u32 \<times> u32 \<times> u32 \<times> u32"

definition sha256_words :: "byte list \<Rightarrow> u32 list" where
  "sha256_words blk =
     foldl (\<lambda>w i.
         let sigma0 = rotate_right (w ! (i - 15)) 7 XOR rotate_right (w ! (i - 15)) 18 XOR drop_bit 3 (w ! (i - 15));
             sigma1 = rotate_right (w ! (i - 2)) 17 XOR rotate_right (w ! (i - 2)) 19 XOR drop_bit 10 (w ! (i - 2))
         in w @ [w ! (i - 16) + sigma0 + w ! (i - 7) + sigma1])
       (map (\<lambda>i. read_be32 blk (i * 4)) [0..<16]) [16..<64]"

fun sha256_round :: "u32 list \<Rightarrow> sha256_regs \<Rightarrow> nat \<Rightarrow> sha256_regs" where
  "sha256_round w (a, b, c, d, e, f, g, h) i =
     (let sigma1 = rotate_right e 6 XOR rotate_right e 11 XOR rotate_right e 25;
          choice = (e AND f) XOR (NOT e AND g);
          temporary1 = h + sigma1 + choice + round_constants ! i + w ! i;
          sigma0 = rotate_right a 2 XOR rotate_right a 13 XOR rotate_right a 22;
          majority = (a AND b) XOR (a AND c) XOR (b AND c);
          temporary2 = sigma0 + majority
      in (temporary1 + temporary2, a, b, c, d + temporary1, e, f, g))"

definition sha256_transform :: "u32 list \<Rightarrow> byte list \<Rightarrow> u32 list" where
  "sha256_transform st blk =
     (case foldl (sha256_round (sha256_words blk))
             (st ! 0, st ! 1, st ! 2, st ! 3, st ! 4, st ! 5, st ! 6, st ! 7) [0..<64] of
        (a, b, c, d, e, f, g, h) \<Rightarrow>
          [st ! 0 + a, st ! 1 + b, st ! 2 + c, st ! 3 + d, st ! 4 + e, st ! 5 + f, st ! 6 + g, st ! 7 + h])"

definition sha256_iv :: "u32 list" where
  "sha256_iv = [0x6a09e667, 0xbb67ae85, 0x3c6ef372, 0xa54ff53a,
                0x510e527f, 0x9b05688c, 0x1f83d9ab, 0x5be0cd19]"

text \<open>The block of a fresh context is uninitialised stack memory, the parameter \<open>garbage\<close>.\<close>

definition sha256_init :: "byte list \<Rightarrow> sha256_context" where
  "sha256_init garbage = \<lparr> state = sha256_iv, bit_count = 0, block = garbage, block_length = 0 \<rparr>"

definition sha256_update :: "sha256_context \<Rightarrow> byte list \<Rightarrow> sha256_context" where
  "sha256_update c input =
     (case absorb sha256_transform (state c) (block c) (block_length c) input of
        (st, blk, used) \<Rightarrow>
          c\<lparr>state := st, bit_count := bit_count c + of_nat (length input) * 8, block := blk, block_length := used\<rparr>)"

definition digest_words :: "u32 list \<Rightarrow> byte list" where
  "digest_words ws = concat (map write_be32 ws)"

definition sha256_final :: "sha256_context \<Rightarrow> byte list" where
  "sha256_final c =
     digest_words (finish_blocks sha256_transform (state c) (block c) (block_length c) (bit_count c))"

definition hex_digits :: string where "hex_digits = ''0123456789abcdef''"

definition digest_to_hex :: "byte list \<Rightarrow> string" where
  "digest_to_hex digest =
     concat (map (\<lambda>b. [hex_digits ! unat (drop_bit 4 b), hex_digits ! unat (b AND 0x0f)]) digest)"

definition jooan_guard_sha256_bytes_hex :: "byte list \<Rightarrow> byte list option \<Rightarrow> string result" where
  "jooan_guard_sha256_bytes_hex garbage data =
     (case data of None \<Rightarrow> Inl EINVAL
      | Some bs \<Rightarrow> Inr (digest_to_hex (sha256_final (sha256_update (sha256_init garbage) bs))))"

text \<open>
  Hashing a file: the results of the successive \<open>read\<close> calls are the environment's
  \<open>reads\<close> (bytes, or an error number; an empty read is the end of the file).
\<close>

fun sha256_file_loop :: "sha256_context \<Rightarrow> (errno + byte list) list \<Rightarrow> sha256_context result" where
  "sha256_file_loop c [] = Inr c"
| "sha256_file_loop c (Inr bs # reads) =
     (if bs = [] then Inr c else sha256_file_loop (sha256_update c bs) reads)"
| "sha256_file_loop c (Inl e # reads) = (if e = EINTR then sha256_file_loop c reads else Inl e)"

definition jooan_guard_sha256_file_hex ::
  "byte list \<Rightarrow> (errno + (errno + byte list) list) option \<Rightarrow> string result" where
  "jooan_guard_sha256_file_hex garbage opened =
     (case opened of None \<Rightarrow> Inl EINVAL
      | Some (Inl e) \<Rightarrow> Inl e
      | Some (Inr reads) \<Rightarrow>
          (case sha256_file_loop (sha256_init garbage) reads of Inl e \<Rightarrow> Inl e
           | Inr c \<Rightarrow> Inr (digest_to_hex (sha256_final c))))"

section \<open>SHA-256, HMAC and PBKDF2 of the daemon\<close>

definition S256_K :: "u32 list" where
  "S256_K =
    [0x428a2f98, 0x71374491, 0xb5c0fbcf, 0xe9b5dba5] @
    [0x3956c25b, 0x59f111f1, 0x923f82a4, 0xab1c5ed5] @
    [0xd807aa98, 0x12835b01, 0x243185be, 0x550c7dc3] @
    [0x72be5d74, 0x80deb1fe, 0x9bdc06a7, 0xc19bf174] @
    [0xe49b69c1, 0xefbe4786, 0x0fc19dc6, 0x240ca1cc] @
    [0x2de92c6f, 0x4a7484aa, 0x5cb0a9dc, 0x76f988da] @
    [0x983e5152, 0xa831c66d, 0xb00327c8, 0xbf597fc7] @
    [0xc6e00bf3, 0xd5a79147, 0x06ca6351, 0x14292967] @
    [0x27b70a85, 0x2e1b2138, 0x4d2c6dfc, 0x53380d13] @
    [0x650a7354, 0x766a0abb, 0x81c2c92e, 0x92722c85] @
    [0xa2bfe8a1, 0xa81a664b, 0xc24b8b70, 0xc76c51a3] @
    [0xd192e819, 0xd6990624, 0xf40e3585, 0x106aa070] @
    [0x19a4c116, 0x1e376c08, 0x2748774c, 0x34b0bcb5] @
    [0x391c0cb3, 0x4ed8aa4a, 0x5b9cca4f, 0x682e6ff3] @
    [0x748f82ee, 0x78a5636f, 0x84c87814, 0x8cc70208] @
    [0x90befffa, 0xa4506ceb, 0xbef9a3f7, 0xc67178f2]"

definition rr :: "u32 \<Rightarrow> nat \<Rightarrow> u32" where
  "rr x n = drop_bit n x OR push_bit (32 - n) x"

definition S256_words :: "byte list \<Rightarrow> u32 list" where
  "S256_words p =
     foldl (\<lambda>w i. let x = w ! (i - 15); y = w ! (i - 2)
                  in w @ [(rr x 7 XOR rr x 18 XOR drop_bit 3 x) + w ! (i - 16)
                          + (rr y 17 XOR rr y 19 XOR drop_bit 10 y) + w ! (i - 7)])
       (map (\<lambda>i. be32 (p ! (i * 4)) (p ! (i * 4 + 1)) (p ! (i * 4 + 2)) (p ! (i * 4 + 3))) [0..<16]) [16..<64]"

fun S256_round :: "u32 list \<Rightarrow> sha256_regs \<Rightarrow> nat \<Rightarrow> sha256_regs" where
  "S256_round w (a, b, c, d, e, f, g, h) i =
     (let t1 = h + (rr e 6 XOR rr e 11 XOR rr e 25) + ((e AND f) XOR (NOT e AND g)) + S256_K ! i + w ! i;
          t2 = (rr a 2 XOR rr a 13 XOR rr a 22) + ((a AND b) XOR (a AND c) XOR (b AND c))
      in (t1 + t2, a, b, c, d + t1, e, f, g))"

definition S256_block :: "u32 list \<Rightarrow> byte list \<Rightarrow> u32 list" where
  "S256_block h p =
     (case foldl (S256_round (S256_words p)) (h ! 0, h ! 1, h ! 2, h ! 3, h ! 4, h ! 5, h ! 6, h ! 7) [0..<64] of
        (a, b, c, d, e, f, g, h7) \<Rightarrow>
          [h ! 0 + a, h ! 1 + b, h ! 2 + c, h ! 3 + d, h ! 4 + e, h ! 5 + f, h ! 6 + g, h ! 7 + h7])"

record S256 =
  s_h :: "u32 list"
  s_bits :: u64
  s_b :: "byte list"
  s_n :: nat

definition S256_init :: "byte list \<Rightarrow> S256" where
  "S256_init garbage =
     \<lparr> s_h = [0x6a09e667, 0xbb67ae85, 0x3c6ef372, 0xa54ff53a, 0x510e527f, 0x9b05688c, 0x1f83d9ab, 0x5be0cd19],
       s_bits = 0, s_b = garbage, s_n = 0 \<rparr>"

definition S256_upd :: "S256 \<Rightarrow> byte list \<Rightarrow> S256" where
  "S256_upd s v =
     (case absorb S256_block (s_h s) (s_b s) (s_n s) v of
        (h, b, n) \<Rightarrow> s\<lparr>s_h := h, s_bits := s_bits s + of_nat (length v) * 8, s_b := b, s_n := n\<rparr>)"

definition S256_fin :: "S256 \<Rightarrow> byte list" where
  "S256_fin s = digest_words (finish_blocks S256_block (s_h s) (s_b s) (s_n s) (s_bits s))"

definition joan_sha256 :: "byte list \<Rightarrow> byte list \<Rightarrow> byte list" where
  "joan_sha256 garbage d = S256_fin (S256_upd (S256_init garbage) d)"

definition hmac :: "byte list \<Rightarrow> byte list \<Rightarrow> byte list \<Rightarrow> byte list" where
  "hmac garbage k d =
     (let k = (if 64 < length k then joan_sha256 garbage k else k);
          kb = memcpy_at (replicate 64 0) 0 k;
          ip = map (\<lambda>b. b XOR 0x36) kb;
          op = map (\<lambda>b. b XOR 0x5c) kb;
          x = S256_fin (S256_upd (S256_upd (S256_init garbage) ip) d)
      in S256_fin (S256_upd (S256_upd (S256_init garbage) op) x))"

text \<open>The inner loop of PBKDF2: \<open>rounds - 1\<close> further HMACs folded into \<open>t\<close>.\<close>

fun pbkdf2_rounds :: "byte list \<Rightarrow> byte list \<Rightarrow> nat \<Rightarrow> byte list \<Rightarrow> byte list \<Rightarrow> byte list" where
  "pbkdf2_rounds garbage pw 0 u t = t"
| "pbkdf2_rounds garbage pw (Suc r) u t =
     (let u = hmac garbage pw u in pbkdf2_rounds garbage pw r u (map2 (XOR) t u))"

function pbkdf2_blocks :: "byte list \<Rightarrow> byte list \<Rightarrow> byte list \<Rightarrow> nat \<Rightarrow> u32 \<Rightarrow> nat \<Rightarrow> byte list" where
  "pbkdf2_blocks garbage pw salt rounds bi on =
     (if on = 0 then []
      else let u = hmac garbage pw (salt @ write_be32 bi);
               t = pbkdf2_rounds garbage pw (rounds - 1) u u;
               amount = (if on < 32 then on else 32)
           in take amount t @ pbkdf2_blocks garbage pw salt rounds (bi + 1) (on - amount))"
  by pat_completeness auto
termination
  by (relation "measure (\<lambda>(garbage, pw, salt, rounds, bi, on). on)") auto

declare pbkdf2_blocks.simps [simp del]

text \<open>\<open>None\<close> where the code returns without writing its output.\<close>

definition joan_pbkdf2_sha256 :: "byte list \<Rightarrow> byte list \<Rightarrow> byte list \<Rightarrow> u32 \<Rightarrow> nat \<Rightarrow> byte list option" where
  "joan_pbkdf2_sha256 garbage pw salt rounds on =
     (if 123 < length salt \<or> rounds = 0 then None
      else Some (pbkdf2_blocks garbage pw salt (unat rounds) 1 on))"

section \<open>SHA-1, base64 and the WebSocket accept key\<close>

record sha1_context =
  sha1_state :: "u32 list"
  sha1_bytes :: u64
  sha1_block :: "byte list"
  sha1_used :: nat

definition rotate_left :: "u32 \<Rightarrow> nat \<Rightarrow> u32" where
  "rotate_left v bits = push_bit bits v OR drop_bit (32 - bits) v"

definition sha1_words :: "byte list \<Rightarrow> u32 list" where
  "sha1_words blk =
     foldl (\<lambda>w i. w @ [rotate_left (w ! (i - 3) XOR w ! (i - 8) XOR w ! (i - 14) XOR w ! (i - 16)) 1])
       (map (\<lambda>i. read_be32 blk (i * 4)) [0..<16]) [16..<80]"

fun sha1_round :: "u32 list \<Rightarrow> u32 \<times> u32 \<times> u32 \<times> u32 \<times> u32 \<Rightarrow> nat \<Rightarrow> u32 \<times> u32 \<times> u32 \<times> u32 \<times> u32" where
  "sha1_round w (a, b, c, d, e) i =
     (let (f, k) =
            (if i < 20 then ((b AND c) OR (NOT b AND d), 0x5a827999)
             else if i < 40 then (b XOR c XOR d, 0x6ed9eba1)
             else if i < 60 then ((b AND c) OR (b AND d) OR (c AND d), 0x8f1bbcdc)
             else (b XOR c XOR d, 0xca62c1d6));
          temporary = rotate_left a 5 + f + e + k + w ! i
      in (temporary, a, rotate_left b 30, c, d))"

definition sha1_transform :: "u32 list \<Rightarrow> byte list \<Rightarrow> u32 list" where
  "sha1_transform st blk =
     (case foldl (sha1_round (sha1_words blk)) (st ! 0, st ! 1, st ! 2, st ! 3, st ! 4) [0..<80] of
        (a, b, c, d, e) \<Rightarrow> [st ! 0 + a, st ! 1 + b, st ! 2 + c, st ! 3 + d, st ! 4 + e])"

definition sha1_init :: sha1_context where
  "sha1_init =
     \<lparr> sha1_state = [0x67452301, 0xefcdab89, 0x98badcfe, 0x10325476, 0xc3d2e1f0],
       sha1_bytes = 0, sha1_block = replicate 64 0, sha1_used = 0 \<rparr>"

definition sha1_update :: "sha1_context \<Rightarrow> byte list \<Rightarrow> sha1_context" where
  "sha1_update c data =
     (case absorb sha1_transform (sha1_state c) (sha1_block c) (sha1_used c) data of
        (st, blk, used) \<Rightarrow>
          c\<lparr>sha1_state := st, sha1_bytes := sha1_bytes c + of_nat (length data), sha1_block := blk, sha1_used := used\<rparr>)"

definition sha1_final :: "sha1_context \<Rightarrow> byte list" where
  "sha1_final c =
     digest_words (finish_blocks sha1_transform (sha1_state c) (sha1_block c) (sha1_used c) (sha1_bytes c * 8))"

definition base64_alphabet :: string where
  "base64_alphabet = ''ABCDEFGHIJKLMNOPQRSTUVWXYZabcdefghijklmnopqrstuvwxyz0123456789+/''"

definition base64_char :: "u32 \<Rightarrow> string" where
  "base64_char v = [base64_alphabet ! unat (v AND 63)]"

fun base64_groups :: "byte list \<Rightarrow> string" where
  "base64_groups [] = []"
| "base64_groups [a] =
     (let v = push_bit 16 (ucast a)
      in base64_char (drop_bit 18 v) @ base64_char (drop_bit 12 v) @ ''=='')"
| "base64_groups [a, b] =
     (let v = push_bit 16 (ucast a) OR push_bit 8 (ucast b)
      in base64_char (drop_bit 18 v) @ base64_char (drop_bit 12 v) @ base64_char (drop_bit 6 v) @ ''='')"
| "base64_groups (a # b # c # rest) =
     (let v = push_bit 16 (ucast a) OR push_bit 8 (ucast b) OR ucast c
      in base64_char (drop_bit 18 v) @ base64_char (drop_bit 12 v) @ base64_char (drop_bit 6 v)
         @ base64_char v @ base64_groups rest)"

definition base64_encode :: "byte list \<Rightarrow> nat \<Rightarrow> string option" where
  "base64_encode input capacity =
     (if capacity < (length input + 2) div 3 * 4 + 1 then None else Some (base64_groups input))"

definition WS_GUID :: string where
  "WS_GUID = ''258EAFA5-E914-47DA-95CA-C5AB0DC85B11''"

definition websocket_accept :: "string \<Rightarrow> string option" where
  "websocket_accept key =
     base64_encode (sha1_final (sha1_update (sha1_update sha1_init (bytes_of key)) (bytes_of WS_GUID))) 29"


section \<open>The contexts implement the padded digest\<close>

definition block_holds ::
  "('s \<Rightarrow> byte list \<Rightarrow> 's) \<Rightarrow> 's \<Rightarrow> 's \<Rightarrow> byte list \<Rightarrow> nat \<Rightarrow> byte list \<Rightarrow> bool" where
  "block_holds f iv st blk used xs \<longleftrightarrow>
     length blk = 64 \<and> used < 64 \<and> fold_blocks f iv xs = (st, take used blk)"

lemma block_holds_absorb:
  assumes "block_holds f iv st blk used xs" "absorb f st blk used ys = (st', blk', used')"
  shows "block_holds f iv st' blk' used' (xs @ ys)"
proof -
  have "fold_blocks f iv (xs @ ys) = fold_blocks f st (take used blk @ ys)"
    using assms(1) by (intro fold_blocks_append) (simp add: block_holds_def)
  then show ?thesis
    using assms absorb_fold_blocks [of blk used f st ys] by (simp add: block_holds_def)
qed

lemma block_holds_fresh: "length blk = 64 \<Longrightarrow> block_holds f iv iv blk 0 []"
  by (simp add: block_holds_def fold_blocks_short)

lemma block_holds_finish:
  "block_holds f iv st blk used xs \<Longrightarrow>
     finish_blocks f st blk used (of_nat (8 * length xs)) = md_digest f iv xs"
  unfolding block_holds_def by (blast intro: finish_blocks_md)

definition sha256_digest :: "byte list \<Rightarrow> byte list" where
  "sha256_digest xs = digest_words (md_digest sha256_transform sha256_iv xs)"

definition sha1_digest :: "byte list \<Rightarrow> byte list" where
  "sha1_digest xs = digest_words (md_digest sha1_transform (sha1_state sha1_init) xs)"

definition sha256_fresh :: "sha256_context \<Rightarrow> bool" where
  "sha256_fresh c \<longleftrightarrow> (\<exists>garbage. length garbage = 64 \<and> c = sha256_init garbage)"

definition sha256_holds :: "sha256_context \<Rightarrow> byte list \<Rightarrow> bool" where
  "sha256_holds c xs \<longleftrightarrow>
     bit_count c = of_nat (8 * length xs) \<and>
     block_holds sha256_transform sha256_iv (state c) (block c) (block_length c) xs"

definition S256_fresh :: "S256 \<Rightarrow> bool" where
  "S256_fresh s \<longleftrightarrow> (\<exists>garbage. length garbage = 64 \<and> s = S256_init garbage)"

definition S256_holds :: "S256 \<Rightarrow> byte list \<Rightarrow> bool" where
  "S256_holds s xs \<longleftrightarrow>
     s_bits s = of_nat (8 * length xs) \<and>
     block_holds S256_block sha256_iv (s_h s) (s_b s) (s_n s) xs"

definition sha1_holds :: "sha1_context \<Rightarrow> byte list \<Rightarrow> bool" where
  "sha1_holds c xs \<longleftrightarrow>
     sha1_bytes c = of_nat (length xs) \<and>
     block_holds sha1_transform (sha1_state sha1_init) (sha1_state c) (sha1_block c) (sha1_used c) xs"

lemma S256_block_eq: "S256_block = sha256_transform"
proof (intro ext)
  fix h :: "u32 list" and p :: "byte list"
  have r: "rr = rotate_right" by (intro ext) (simp add: rr_def rotate_right_def)
  have k: "S256_K = round_constants" by (simp add: S256_K_def round_constants_def)
  have sum: "(s0 + w16 + s1 + w7 :: u32) = w16 + s0 + w7 + s1" for s0 s1 w16 w7
    by (simp only: ac_simps)
  have w: "S256_words p = sha256_words p"
    by (simp only: S256_words_def sha256_words_def r read_be32_def Let_def sum)
  have "S256_round (S256_words p) = sha256_round (sha256_words p)"
  proof (intro ext)
    fix x :: sha256_regs and i
    show "S256_round (S256_words p) x i = sha256_round (sha256_words p) x i"
    proof (cases x)
      case (fields a b c d e f gh)
      then show ?thesis
        by (cases gh) (simp only: S256_round.simps sha256_round.simps w r k Let_def)
    qed
  qed
  then show "S256_block h p = sha256_transform h p"
    by (simp only: S256_block_def sha256_transform_def)
qed

interpretation guard_sha256: incremental_hash sha256_fresh sha256_update sha256_final sha256_holds sha256_digest
proof unfold_locales
  fix c assume "sha256_fresh c"
  then show "sha256_holds c []"
    by (auto simp: sha256_fresh_def sha256_holds_def sha256_init_def block_holds_fresh)
next
  fix c xs ys assume h: "sha256_holds c xs"
  obtain st blk used where a: "absorb sha256_transform (state c) (block c) (block_length c) ys = (st, blk, used)"
    by (cases "absorb sha256_transform (state c) (block c) (block_length c) ys")
  show "sha256_holds (sha256_update c ys) (xs @ ys)"
    using h block_holds_absorb [OF _ a] by (simp add: sha256_holds_def sha256_update_def a algebra_simps)
next
  fix c xs assume "sha256_holds c xs"
  then show "sha256_final c = sha256_digest xs"
    unfolding sha256_final_def sha256_digest_def sha256_holds_def by (metis block_holds_finish)
qed

interpretation daemon_sha256: incremental_hash S256_fresh S256_upd S256_fin S256_holds sha256_digest
proof unfold_locales
  fix c assume "S256_fresh c"
  then show "S256_holds c []"
    by (auto simp: S256_fresh_def S256_holds_def S256_init_def block_holds_fresh sha256_iv_def [symmetric])
next
  fix c xs ys assume h: "S256_holds c xs"
  obtain st blk used where a: "absorb S256_block (s_h c) (s_b c) (s_n c) ys = (st, blk, used)"
    by (cases "absorb S256_block (s_h c) (s_b c) (s_n c) ys")
  show "S256_holds (S256_upd c ys) (xs @ ys)"
    using h block_holds_absorb [OF _ a] by (simp add: S256_holds_def S256_upd_def a algebra_simps)
next
  fix c xs assume "S256_holds c xs"
  then show "S256_fin c = sha256_digest xs"
    unfolding S256_fin_def sha256_digest_def S256_holds_def S256_block_eq by (metis block_holds_finish)
qed

interpretation router_sha1: incremental_hash "\<lambda>c. c = sha1_init" sha1_update sha1_final sha1_holds sha1_digest
proof unfold_locales
  fix c assume "c = sha1_init"
  then show "sha1_holds c []" by (simp add: sha1_holds_def sha1_init_def block_holds_fresh)
next
  fix c xs ys assume h: "sha1_holds c xs"
  obtain st blk used where a: "absorb sha1_transform (sha1_state c) (sha1_block c) (sha1_used c) ys = (st, blk, used)"
    by (cases "absorb sha1_transform (sha1_state c) (sha1_block c) (sha1_used c) ys")
  show "sha1_holds (sha1_update c ys) (xs @ ys)"
    using h block_holds_absorb [OF _ a] by (simp add: sha1_holds_def sha1_update_def a)
next
  fix c xs assume h: "sha1_holds c xs"
  then have "sha1_bytes c * 8 = of_nat (8 * length xs)" by (simp add: sha1_holds_def)
  with h show "sha1_final c = sha1_digest xs"
    unfolding sha1_final_def sha1_digest_def sha1_holds_def by (metis block_holds_finish)
qed

text \<open>
  C21. The guard's file hash is the SHA-256 digest of the file: it does not depend on how
  the reads cut the file, on interrupted reads, or on what the uninitialised block held.
\<close>

theorem guard_sha256_file_digest:
  assumes "length garbage = 64"
    and "\<forall>r \<in> set reads. r = Inl EINTR \<or> (\<exists>bs. r = Inr bs \<and> bs \<noteq> [])"
  shows "jooan_guard_sha256_file_hex garbage (Some (Inr (reads @ [Inr []]))) =
           Inr (digest_to_hex (sha256_digest (concat [bs. Inr bs \<leftarrow> reads])))"
proof -
  have loop: "sha256_file_loop c (reads @ [Inr []]) = Inr (foldl sha256_update c [bs. Inr bs \<leftarrow> reads])" for c
    using assms(2)
  proof (induction reads arbitrary: c)
    case (Cons r reads)
    then show ?case by (cases r) auto
  qed simp
  have "sha256_fresh (sha256_init garbage)" using assms(1) by (auto simp: sha256_fresh_def)
  then show ?thesis
    by (simp add: jooan_guard_sha256_file_hex_def loop guard_sha256.digest_of_chunks)
qed

lemma guard_sha256_file_digest_witness:
  "jooan_guard_sha256_file_hex (replicate 64 7) (Some (Inr ([Inr [1, 2], Inl EINTR, Inr [3]] @ [Inr []]))) =
     Inr (digest_to_hex (sha256_digest [1, 2, 3]))"
  using guard_sha256_file_digest [of "replicate 64 7" "[Inr [1, 2], Inl EINTR, Inr [3]]"] by simp

text \<open>
  The daemon's compact SHA-256 and the guard's give the same hex digest for every
  message, whatever the blocks of their contexts held before.
\<close>

theorem sha256_implementations_agree:
  assumes "length garbage = 64" "length garbage' = 64"
  shows "jooan_guard_sha256_bytes_hex garbage (Some d) = Inr (digest_to_hex (joan_sha256 garbage' d))"
proof -
  have "sha256_fresh (sha256_init garbage)" "S256_fresh (S256_init garbage')"
    using assms by (auto simp: sha256_fresh_def S256_fresh_def)
  then show ?thesis
    by (simp add: jooan_guard_sha256_bytes_hex_def joan_sha256_def guard_sha256.digest_once
        daemon_sha256.digest_once)
qed

lemma sha256_implementations_agree_witness:
  "jooan_guard_sha256_bytes_hex (replicate 64 1) (Some [0x61]) =
     Inr (digest_to_hex (joan_sha256 (replicate 64 2) [0x61]))"
  by (rule sha256_implementations_agree) simp_all


lemma length_sha1_final: "length (sha1_final c) = 20"
proof -
  have "length (digest_words (finish_blocks sha1_transform st blk used bits)) = 20" for st blk used bits
    by (simp add: finish_blocks_def Let_def sha1_transform_def digest_words_def split: prod.splits)
  then show ?thesis by (metis sha1_final_def)
qed

lemma websocket_accept_eq:
  "websocket_accept key =
     Some (base64_groups (sha1_final (sha1_update (sha1_update sha1_init (bytes_of key)) (bytes_of WS_GUID))))"
  by (simp add: websocket_accept_def base64_encode_def length_sha1_final)

text \<open>
  The accept key of the WebSocket handshake never fails for want of room in its
  29-byte buffer, and is the base64 form of SHA-1 of the client's key and the protocol's
  identifier, though the code hashes the two in separate calls.
\<close>

theorem websocket_accept_value:
  "websocket_accept key = Some (base64_groups (sha1_digest (bytes_of (key @ WS_GUID))))"
  by (simp add: websocket_accept_eq router_sha1.digest_twice bytes_of_def)

section \<open>PBKDF2 is RFC 8018's\<close>

definition hmac_pad :: "byte list \<Rightarrow> byte list" where
  "hmac_pad k = (let k = (if 64 < length k then sha256_digest k else k) in k @ replicate (64 - length k) 0)"

definition hmac_sha256 :: "byte list \<Rightarrow> byte list \<Rightarrow> byte list" where
  "hmac_sha256 k d =
     sha256_digest (map (\<lambda>b. b XOR 0x5c) (hmac_pad k) @ sha256_digest (map (\<lambda>b. b XOR 0x36) (hmac_pad k) @ d))"

definition pbkdf2_T :: "byte list \<Rightarrow> byte list \<Rightarrow> nat \<Rightarrow> u32 \<Rightarrow> byte list" where
  "pbkdf2_T pw salt c i =
     foldl (map2 (XOR)) (hmac_sha256 pw (salt @ write_be32 i))
       (map (\<lambda>j. (hmac_sha256 pw ^^ j) (hmac_sha256 pw (salt @ write_be32 i))) [1..<c])"

lemma length_sha256_digest: "length (sha256_digest xs) = 32"
proof -
  have "length (digest_words (finish_blocks sha256_transform st blk used bits)) = 32" for st blk used bits
    by (simp add: finish_blocks_def Let_def sha256_transform_def digest_words_def split: prod.splits)
  moreover have "sha256_digest xs = sha256_final (sha256_update (sha256_init (replicate 64 0)) xs)"
    by (rule guard_sha256.digest_once [symmetric])
      (unfold sha256_fresh_def, rule exI [of _ "replicate 64 0"], simp)
  ultimately show ?thesis by (simp add: sha256_final_def)
qed

lemma hmac_eq:
  assumes "length garbage = 64"
  shows "hmac garbage k d = hmac_sha256 k d"
proof -
  have f: "S256_fresh (S256_init garbage)" using assms by (auto simp: S256_fresh_def)
  have k: "joan_sha256 garbage k = sha256_digest k"
    by (simp add: joan_sha256_def daemon_sha256.digest_once [OF f])
  show ?thesis
    by (simp add: hmac_def k daemon_sha256.digest_twice [OF f] hmac_sha256_def hmac_pad_def Let_def
        memcpy_at_def)
qed

lemma pbkdf2_rounds_eq:
  assumes "length garbage = 64"
  shows "pbkdf2_rounds garbage pw r u t =
    foldl (map2 (XOR)) t (map (\<lambda>j. (hmac_sha256 pw ^^ j) u) [1..<Suc r])"
proof (induction r arbitrary: u t)
  case (Suc r)
  have "[1..<Suc (Suc r)] = 1 # map Suc [1..<Suc r]" by (simp only: map_Suc_upt) (simp add: upt_conv_Cons)
  then show ?case
    by (simp add: Suc hmac_eq [OF assms] comp_def funpow_swap1 Let_def del: upt_Suc)
qed simp

lemma length_pbkdf2_T: "length (pbkdf2_T pw salt c i) = 32"
proof -
  have h: "length (hmac_sha256 k d) = 32" for k d by (simp add: hmac_sha256_def length_sha256_digest)
  have "length t = 32 \<Longrightarrow> \<forall>x \<in> set xs. length x = 32 \<Longrightarrow> length (foldl (map2 (XOR)) t xs) = 32"
    for t :: "byte list" and xs
    by (induction xs arbitrary: t) auto
  moreover have "length ((hmac_sha256 pw ^^ j) (hmac_sha256 pw d)) = 32" for j d
    by (cases j) (simp_all add: h)
  ultimately show ?thesis by (simp add: pbkdf2_T_def h)
qed

lemma pbkdf2_blocks_eq:
  assumes "length garbage = 64" "0 < rounds"
  shows "pbkdf2_blocks garbage pw salt rounds bi on =
    take on (concat (map (\<lambda>j. pbkdf2_T pw salt rounds (bi + of_nat j)) [0..<(on + 31) div 32]))"
proof (induction "on" arbitrary: bi rule: less_induct)
  case (less "on")
  let ?T = "\<lambda>i. pbkdf2_T pw salt rounds i"
  show ?case
  proof (cases "on = 0")
    case True
    then show ?thesis by (simp add: pbkdf2_blocks.simps)
  next
    case False
    let ?n = "(on + 31) div 32" let ?a = "min on 32"
    have n: "?n = Suc ((on - ?a + 31) div 32)" using False by (auto simp: min_def)
    have t: "pbkdf2_rounds garbage pw (rounds - Suc 0) (hmac garbage pw (salt @ write_be32 bi))
        (hmac garbage pw (salt @ write_be32 bi)) = ?T bi"
      using assms by (simp add: pbkdf2_rounds_eq hmac_eq pbkdf2_T_def Suc_pred del: upt_Suc)
    have "pbkdf2_blocks garbage pw salt rounds bi on =
        take ?a (?T bi) @ pbkdf2_blocks garbage pw salt rounds (bi + 1) (on - ?a)"
      using False by (subst pbkdf2_blocks.simps) (auto simp: t Let_def min_def)
    also have "pbkdf2_blocks garbage pw salt rounds (bi + 1) (on - ?a) =
        take (on - ?a) (concat (map (\<lambda>j. ?T (bi + 1 + of_nat j)) [0..<(on - ?a + 31) div 32]))"
      using False by (intro less) auto
    also have "take ?a (?T bi) = take on (?T bi)" by (simp add: min_def length_pbkdf2_T)
    also have "take on (?T bi) @ take (on - ?a) (concat (map (\<lambda>j. ?T (bi + 1 + of_nat j)) [0..<(on - ?a + 31) div 32]))
        = take on (concat (map (\<lambda>j. ?T (bi + of_nat j)) [0..<?n]))"
      unfolding n by (simp add: upt_conv_Cons map_Suc_upt [symmetric] comp_def length_pbkdf2_T min_def
          algebra_simps del: upt_Suc)
    finally show ?thesis .
  qed
qed

text \<open>
  C22. The daemon's PBKDF2 derives the key of RFC 8018 with HMAC-SHA-256: the first
  \<open>on\<close> bytes of the concatenated blocks, each the XOR of \<open>rounds\<close> iterated HMACs, for
  every password, every salt that fits its buffer and every positive round count.
\<close>

theorem pbkdf2_rfc8018:
  assumes "length garbage = 64" "length salt \<le> 123" "rounds \<noteq> 0"
  shows "joan_pbkdf2_sha256 garbage pw salt rounds on =
    Some (take on (concat (map (\<lambda>j. pbkdf2_T pw salt (unat rounds) (1 + of_nat j)) [0..<(on + 31) div 32])))"
proof -
  have "0 < unat rounds" using assms(3) by (simp add: unat_gt_0)
  then show ?thesis using assms by (simp add: joan_pbkdf2_sha256_def pbkdf2_blocks_eq)
qed

lemma pbkdf2_rfc8018_witness:
  "joan_pbkdf2_sha256 (replicate 64 0) [1, 2] [3] 2 32 =
    Some (take 32 (concat (map (\<lambda>j. pbkdf2_T [1, 2] [3] (unat (2 :: u32)) (1 + of_nat j)) [0..<63 div 32])))"
  using pbkdf2_rfc8018 [of "replicate 64 0" "[3]" 2 "[1, 2]" 32] by simp

end
