(* ===== verification/Guard_Client.thy ===== *)
theory Guard_Client
  imports Audio_Wire
begin

text \<open>
  The router's side of a talk session with the containment guard
  (\<open>src/audio/audio_guard.c\<close>). The operating system is an environment that answers
  the \<open>n\<close>-th call of a run; the world counts the calls and keeps the datagrams handed
  to \<open>sendto\<close> and the descriptors closed, in order.
\<close>

section \<open>Environment and world\<close>

record env =
  env_sendto :: "nat \<Rightarrow> byte list \<Rightarrow> errno + nat"
  env_socket :: "nat \<Rightarrow> errno + nat"

record world =
  tick :: nat
  datagrams :: "byte list list"
  closed :: "int list"

section \<open>The client\<close>

record jooan_audio_guard_client =
  g_fd :: int
  g_session_id :: u64
  g_last_sequence :: u32
  g_acquired :: bool
  g_path :: string

definition guard_zero :: jooan_audio_guard_client where
  "guard_zero = \<lparr> g_fd = -1, g_session_id = 0, g_last_sequence = 0, g_acquired = False, g_path = [] \<rparr>"

definition send_guard ::
  "'e env_scheme \<Rightarrow> jooan_audio_guard_client \<Rightarrow> byte \<Rightarrow> u32 \<Rightarrow> byte list option \<Rightarrow> nat
     \<Rightarrow> 'w world_scheme \<Rightarrow> unit result \<times> 'w world_scheme" where
  "send_guard env c t sequence payload len w =
     (if g_fd c < 0 \<or> sequence = 0 \<or> JOOAN_AUDIO_WIRE_MAX_PAYLOAD < len \<or> (len \<noteq> 0 \<and> payload = None)
      then (Inl EINVAL, w)
      else case jooan_audio_guard_datagram_build
                  (JOOAN_AUDIO_GUARD_HEADER_SIZE + JOOAN_AUDIO_SAMPLES_PER_PACKET)
                  t (g_session_id c) sequence payload (of_nat len) of
        Inl e \<Rightarrow> (Inl e, w)
      | Inr datagram \<Rightarrow>
          (case env_sendto env (tick w) datagram of Inl e \<Rightarrow> Inl e
           | Inr sent \<Rightarrow> if sent \<noteq> length datagram then Inl EIO else Inr (),
           w\<lparr>tick := Suc (tick w), datagrams := datagrams w @ [datagram]\<rparr>))"

text \<open>\<open>sun_path\<close> has 108 bytes.\<close>

definition jooan_audio_guard_open ::
  "'e env_scheme \<Rightarrow> jooan_audio_guard_client \<Rightarrow> string option \<Rightarrow> u64 \<Rightarrow> 'w world_scheme
     \<Rightarrow> unit result \<times> jooan_audio_guard_client \<times> 'w world_scheme" where
  "jooan_audio_guard_open env c socket_path session_id w =
     (case socket_path of
        None \<Rightarrow> (Inl EINVAL, c, w)
      | Some path \<Rightarrow>
          if session_id = 0 then (Inl EINVAL, c, w)
          else if path = [] \<or> 108 \<le> length path then (Inl ENAMETOOLONG, c, w)
          else
            let c = guard_zero\<lparr>g_path := path\<rparr>; w' = w\<lparr>tick := Suc (tick w)\<rparr>
            in case env_socket env (tick w) of
                 Inl e \<Rightarrow> (Inl e, c, w')
               | Inr fd \<Rightarrow> (Inr (), c\<lparr>g_fd := int fd, g_session_id := session_id\<rparr>, w'))"

definition jooan_audio_guard_acquire ::
  "'e env_scheme \<Rightarrow> jooan_audio_guard_client \<Rightarrow> u32 \<Rightarrow> 'w world_scheme
     \<Rightarrow> unit result \<times> jooan_audio_guard_client \<times> 'w world_scheme" where
  "jooan_audio_guard_acquire env c sequence w =
     (if g_acquired c then (Inl EALREADY, c, w)
      else case jooan_audio_sequence_accept (g_last_sequence c) sequence of
        Inl e \<Rightarrow> (Inl e, c, w)
      | Inr accepted \<Rightarrow>
          (case send_guard env c PTT_ACQUIRE sequence None 0 w of
             (Inl e, w) \<Rightarrow> (Inl e, c, w)
           | (Inr _, w) \<Rightarrow> (Inr (), c\<lparr>g_last_sequence := accepted, g_acquired := True\<rparr>, w)))"

definition jooan_audio_guard_pcma ::
  "'e env_scheme \<Rightarrow> jooan_audio_guard_client \<Rightarrow> u32 \<Rightarrow> byte list option \<Rightarrow> nat \<Rightarrow> 'w world_scheme
     \<Rightarrow> unit result \<times> jooan_audio_guard_client \<times> 'w world_scheme" where
  "jooan_audio_guard_pcma env c sequence pcma len w =
     (if \<not> g_acquired c then (Inl EPERM, c, w)
      else if pcma = None \<or> len \<noteq> JOOAN_AUDIO_SAMPLES_PER_PACKET then (Inl EINVAL, c, w)
      else case jooan_audio_sequence_accept (g_last_sequence c) sequence of
        Inl e \<Rightarrow> (Inl e, c, w)
      | Inr accepted \<Rightarrow>
          (case send_guard env c PTT_PCMA sequence pcma len w of
             (Inl e, w) \<Rightarrow> (Inl e, c, w)
           | (Inr _, w) \<Rightarrow> (Inr (), c\<lparr>g_last_sequence := accepted\<rparr>, w)))"

definition jooan_audio_guard_speaker_lease ::
  "'e env_scheme \<Rightarrow> jooan_audio_guard_client \<Rightarrow> u32 \<Rightarrow> 'w world_scheme
     \<Rightarrow> unit result \<times> jooan_audio_guard_client \<times> 'w world_scheme" where
  "jooan_audio_guard_speaker_lease env c sequence w =
     (if \<not> g_acquired c then (Inl EPERM, c, w)
      else case jooan_audio_sequence_accept (g_last_sequence c) sequence of
        Inl e \<Rightarrow> (Inl e, c, w)
      | Inr accepted \<Rightarrow>
          (case send_guard env c GUARD_SPEAKER_LEASE sequence None 0 w of
             (Inl e, w) \<Rightarrow> (Inl e, c, w)
           | (Inr _, w) \<Rightarrow> (Inr (), c\<lparr>g_last_sequence := accepted\<rparr>, w)))"

definition jooan_audio_guard_release ::
  "'e env_scheme \<Rightarrow> jooan_audio_guard_client \<Rightarrow> u32 \<Rightarrow> 'w world_scheme
     \<Rightarrow> unit result \<times> jooan_audio_guard_client \<times> 'w world_scheme" where
  "jooan_audio_guard_release env c sequence w =
     (if \<not> g_acquired c then (Inr (), c, w)
      else
        let sequence = (if sequence = 0 then seq_next (g_last_sequence c) else sequence)
        in case jooan_audio_sequence_accept (g_last_sequence c) sequence of
             Inl e \<Rightarrow> (Inl e, c, w)
           | Inr accepted \<Rightarrow>
               (case send_guard env c PTT_RELEASE sequence None 0 w of
                  (r, w) \<Rightarrow> (r, c\<lparr>g_acquired := False, g_last_sequence := accepted\<rparr>, w)))"

definition jooan_audio_guard_close ::
  "'e env_scheme \<Rightarrow> jooan_audio_guard_client \<Rightarrow> 'w world_scheme
     \<Rightarrow> jooan_audio_guard_client \<times> 'w world_scheme" where
  "jooan_audio_guard_close env c w =
     (if 0 \<le> g_fd c
      then case jooan_audio_guard_release env c 0 w of
             (_, c', w) \<Rightarrow> (guard_zero, w\<lparr>closed := closed w @ [g_fd c]\<rparr>)
      else (guard_zero, w))"

section \<open>What the guard sees of a session\<close>

text \<open>The operations of an open client, in any order and with any arguments.\<close>

datatype guard_op =
    Acquire u32 | Pcma u32 "byte list" | SpeakerLease u32 | Release u32

fun guard_step ::
  "'e env_scheme \<Rightarrow> jooan_audio_guard_client \<times> 'w world_scheme \<Rightarrow> guard_op
     \<Rightarrow> jooan_audio_guard_client \<times> 'w world_scheme" where
  "guard_step env (c, w) (Acquire s) = snd (jooan_audio_guard_acquire env c s w)"
| "guard_step env (c, w) (Pcma s p) = snd (jooan_audio_guard_pcma env c s (Some p) (length p) w)"
| "guard_step env (c, w) (SpeakerLease s) = snd (jooan_audio_guard_speaker_lease env c s w)"
| "guard_step env (c, w) (Release s) = snd (jooan_audio_guard_release env c s w)"

text \<open>
  The protocol the guard expects: it ends up talking or not after a list of datagram
  types, and \<open>None\<close> if a datagram comes out of turn.
\<close>

fun talk_trace :: "bool \<Rightarrow> byte list \<Rightarrow> bool option" where
  "talk_trace a [] = Some a"
| "talk_trace a (t # ts) =
     (if t = PTT_ACQUIRE then (if a then None else talk_trace True ts)
      else if t = PTT_RELEASE then (if a then talk_trace False ts else None)
      else if a then talk_trace a ts else None)"

lemma talk_trace_append:
  "talk_trace a (ts @ us) = (case talk_trace a ts of None \<Rightarrow> None | Some b \<Rightarrow> talk_trace b us)"
  by (induction ts arbitrary: a) auto

text \<open>A kernel that takes every datagram whole.\<close>

definition reliable :: "'e env_scheme \<Rightarrow> bool" where
  "reliable env \<longleftrightarrow> (\<forall>n d. env_sendto env n d = Inr (length d))"

text \<open>
  What was sent since the log was \<open>before\<close>: datagrams that parse to frames of session
  \<open>sid\<close>, numbered from 1, of types that follow the protocol and end with the microphone
  of the guard acquired or not.
\<close>

definition session_log :: "u64 \<Rightarrow> byte list list \<Rightarrow> byte list list \<Rightarrow> jooan_audio_guard_frame list \<Rightarrow> bool \<Rightarrow> bool" where
  "session_log sid before log frames acquired \<longleftrightarrow>
     log = before @ map (projr \<circ> jagd_build) frames \<and>
     list_all (\<lambda>f. jooan_audio_guard_datagram_parse (Some (projr (jagd_build f))) = Inr f
                    \<and> gf_session_id f = sid) frames \<and>
     map gf_sequence frames = map (\<lambda>k. seq_nth (Suc k)) [0..<length frames] \<and>
     talk_trace False (map gf_type frames) = Some acquired"

definition session_inv ::
  "u64 \<Rightarrow> byte list list \<Rightarrow> jooan_audio_guard_client \<times> 'w world_scheme \<Rightarrow> bool" where
  "session_inv sid before cw \<longleftrightarrow>
     (case cw of (c, w) \<Rightarrow>
        sid \<noteq> 0 \<and> 0 \<le> g_fd c \<and> g_session_id c = sid \<and>
        (\<exists>frames. session_log sid before (datagrams w) frames (g_acquired c) \<and>
           g_last_sequence c = seq_nth (length frames)))"

lemma session_log_snoc:
  assumes "session_log sid before log frames a" and "jagd_build f = Inr d" and "gf_session_id f = sid"
    and "gf_sequence f = seq_next (seq_nth (length frames))" and "talk_trace a [gf_type f] = Some b"
  shows "session_log sid before (log @ [d]) (frames @ [f]) b"
  using assms jagd_parse_build [OF assms(2)]
  by (simp add: session_log_def talk_trace_append seq_next_nth del: talk_trace.simps upt_Suc)
    (simp add: upt_Suc)

lemma send_guard_ok:
  assumes "reliable env" and "send_guard env c t s payload n w = (Inr (), w')"
    and "payload = None \<and> n = 0 \<or> (\<exists>p. payload = Some p \<and> length p = n \<and> n < 65536)"
  shows "\<exists>f d. jagd_build f = Inr d \<and> datagrams w' = datagrams w @ [d] \<and> gf_type f = t \<and>
           gf_session_id f = g_session_id c \<and> gf_sequence f = s"
proof -
  let ?p = "case payload of None \<Rightarrow> [] | Some p \<Rightarrow> p"
  let ?f = "\<lparr> gf_type = t, gf_session_id = g_session_id c, gf_sequence = s,
      gf_payload = ?p, gf_payload_length = of_nat n :: u16 \<rparr>"
  have u: "unat (of_nat n :: u16) = n"
    using assms(3) by (auto simp: unsigned_of_nat take_bit_nat_eq_self)
  from assms(1,2) obtain d where
      d: "jooan_audio_guard_datagram_build 344 t (g_session_id c) s payload (of_nat n) = Inr d"
    and w': "datagrams w' = datagrams w @ [d]"
    by (auto simp: send_guard_def wire_sizes reliable_def split: if_splits sum.splits)
  have "jagd_build ?f = Inr d"
    using d u assms(3)
    by (auto simp: jagd_build_def jooan_audio_guard_datagram_build_def wire_sizes Let_def split: if_splits)
  with w' show ?thesis by (intro exI [of _ ?f] exI [of _ d]) simp
qed

lemma send_guard_fail:
  "reliable env \<Longrightarrow> send_guard env c t s payload n w = (Inl e, w') \<Longrightarrow> w' = w"
  by (auto simp: send_guard_def reliable_def split: if_splits sum.splits)

text \<open>A datagram that went out carries the session's invariant one frame further.\<close>

lemma session_inv_send:
  assumes "reliable env" and "session_inv sid before (c, w)"
    and "send_guard env c t s payload n w = (Inr (), w')"
    and "payload = None \<and> n = 0 \<or> (\<exists>p. payload = Some p \<and> length p = n \<and> n < 65536)"
    and "jooan_audio_sequence_accept (g_last_sequence c) s = Inr accepted"
    and "talk_trace (g_acquired c) [t] = Some b"
  shows "session_inv sid before (c\<lparr>g_last_sequence := accepted, g_acquired := b\<rparr>, w')"
proof -
  from assms(2) obtain frames where i: "sid \<noteq> 0" "0 \<le> g_fd c" "g_session_id c = sid"
      "session_log sid before (datagrams w) frames (g_acquired c)"
      "g_last_sequence c = seq_nth (length frames)"
    by (auto simp: session_inv_def)
  have a: "accepted = s" "s = seq_next (seq_nth (length frames))"
    using assms(5) i(5) by (auto simp: jooan_audio_sequence_accept_def split: if_splits)
  from send_guard_ok [OF assms(1,3,4)] obtain f d where f: "jagd_build f = Inr d"
      "datagrams w' = datagrams w @ [d]" "gf_type f = t" "gf_session_id f = sid" "gf_sequence f = s"
    unfolding i(3) by blast
  have "session_log sid before (datagrams w @ [d]) (frames @ [f]) b"
    by (rule session_log_snoc [OF i(4) f(1,4)]) (use f a assms(6) in simp_all)
  with i f a show ?thesis
    unfolding session_inv_def by (auto simp: seq_next_nth intro!: exI [of _ "frames @ [f]"])
qed

lemma session_inv_record: "session_inv sid before (c\<lparr>g_last_sequence := a, g_acquired := True\<rparr>, w) \<Longrightarrow>
   g_acquired c \<Longrightarrow> session_inv sid before (c\<lparr>g_last_sequence := a\<rparr>, w)"
  by (simp add: session_inv_def)

lemma seq_next_nonzero: "seq_next l \<noteq> 0"
proof -
  have "l = - 1" if "l + 1 = 0" using that by (simp add: eq_neg_iff_add_eq_0)
  then show ?thesis by (auto simp: seq_next_def)
qed

lemma session_inv_release:
  assumes "reliable env" and "session_inv sid before (c, w)"
  shows "session_inv sid before (snd (jooan_audio_guard_release env c s0 w))"
    and "s0 = 0 \<Longrightarrow> \<not> g_acquired (fst (snd (jooan_audio_guard_release env c s0 w)))"
proof -
  define s where "s = (if s0 = 0 then seq_next (g_last_sequence c) else s0)"
  have s: "s \<noteq> 0" by (simp add: s_def seq_next_nonzero)
  have "g_session_id c \<noteq> 0" "0 \<le> g_fd c" using assms(2) by (auto simp: session_inv_def)
  with s assms(1) obtain w' where w': "send_guard env c PTT_RELEASE s None 0 w = (Inr (), w')"
    by (simp add: send_guard_def reliable_def jooan_audio_guard_datagram_build_def
        valid_guard_payload_def wire_sizes Let_def)
  have r: "jooan_audio_guard_release env c s0 w =
      (if \<not> g_acquired c then (Inr (), c, w)
       else case jooan_audio_sequence_accept (g_last_sequence c) s of Inl e \<Rightarrow> (Inl e, c, w)
        | Inr a \<Rightarrow> (Inr (), c\<lparr>g_last_sequence := a, g_acquired := False\<rparr>, w'))"
    by (simp add: jooan_audio_guard_release_def s_def [symmetric] w' split: sum.splits)
  show "session_inv sid before (snd (jooan_audio_guard_release env c s0 w))"
    using assms session_inv_send [OF assms w', of _ False] unfolding r
    by (auto split: sum.splits)
  show "\<not> g_acquired (fst (snd (jooan_audio_guard_release env c s0 w)))" if "s0 = 0"
    unfolding r using that s by (simp add: s_def jooan_audio_sequence_accept_def)
qed

lemma session_inv_acquire:
  assumes "reliable env" "session_inv sid before (c, w)"
  shows "session_inv sid before (snd (jooan_audio_guard_acquire env c s w))"
  using assms session_inv_send [OF assms, of PTT_ACQUIRE s None 0]
  by (auto simp: jooan_audio_guard_acquire_def split: sum.splits prod.splits dest: send_guard_fail)

lemma session_inv_pcma:
  assumes "reliable env" "session_inv sid before (c, w)"
  shows "session_inv sid before (snd (jooan_audio_guard_pcma env c s (Some p) (length p) w))"
  using assms session_inv_send [OF assms, of PTT_PCMA s "Some p" "length p"]
  by (auto simp: jooan_audio_guard_pcma_def wire_sizes split: sum.splits prod.splits
      dest: send_guard_fail intro!: session_inv_record)

lemma session_inv_speaker_lease:
  assumes "reliable env" "session_inv sid before (c, w)"
  shows "session_inv sid before (snd (jooan_audio_guard_speaker_lease env c s w))"
  using assms session_inv_send [OF assms, of GUARD_SPEAKER_LEASE s None 0]
  by (auto simp: jooan_audio_guard_speaker_lease_def split: sum.splits prod.splits
      dest: send_guard_fail intro!: session_inv_record)

lemma session_inv_step:
  "reliable env \<Longrightarrow> session_inv sid before cw \<Longrightarrow> session_inv sid before (guard_step env cw op)"
  by (cases cw; cases op)
    (auto intro: session_inv_acquire session_inv_pcma session_inv_speaker_lease session_inv_release(1))

text \<open>
  The session as a state machine: an unreliable kernel is allowed to break the invariant.
\<close>

interpretation guard_session: invariant_machine "guard_step env"
    "\<lambda>cw. reliable env \<longrightarrow> session_inv sid before cw" for env sid before
  by unfold_locales (auto intro: session_inv_step)

lemma session_inv_open:
  "jooan_audio_guard_open env c0 path sid w0 = (Inr (), c, w) \<Longrightarrow> session_inv sid (datagrams w0) (c, w)"
  by (auto simp: jooan_audio_guard_open_def session_inv_def session_log_def guard_zero_def
      seq_nth_def Let_def intro!: exI [of _ "[]"] split: option.splits if_splits sum.splits)



end
