(* ===== verification/Ws_Handshake.thy ===== *)
theory Ws_Handshake
  imports Audio_Wire Hashes
begin

text \<open>
  The HTTP upgrade request of an audio WebSocket, as \<open>client_handshake\<close> of
  \<open>src/audio/audio_router.c\<close> reads it: the request line by \<open>sscanf\<close>, the header lines
  by \<open>strtok_r\<close>, the checks on the five headers it looks at and the response. What the
  function does with its client is in the theory of the router's clients.
\<close>

section \<open>Characters\<close>

abbreviation (input) CR :: char where "CR \<equiv> CHR 0x0D"
abbreviation (input) LF :: char where "LF \<equiv> CHR 0x0A"

definition c_lower :: "string \<Rightarrow> string" where "c_lower = map c_tolower"

text \<open>\<open>strcasecmp\<close> is 0.\<close>

definition strcasecmp_eq :: "string \<Rightarrow> string \<Rightarrow> bool" where
  "strcasecmp_eq a b = (c_lower a = c_lower b)"

section \<open>The checks on header values\<close>

definition valid_websocket_key :: "string \<Rightarrow> bool" where
  "valid_websocket_key key =
     (length key = 24 \<and> key ! 22 = CHR ''='' \<and> key ! 23 = CHR ''='' \<and>
      list_all (\<lambda>i. c_isalnum (key ! i) \<or> key ! i = CHR ''+'' \<or> key ! i = CHR ''/'') [0..<22])"

definition c_rtrim :: "string \<Rightarrow> string" where
  "c_rtrim s = rev (dropWhile is_blank (rev s))"

lemma c_rtrim_prefix: "\<exists>b. s = c_rtrim s @ b \<and> list_all is_blank b"
  unfolding c_rtrim_def
  by (rule exI [of _ "rev (takeWhile is_blank (rev s))"])
    (metis (no_types, lifting) list_all_iff list_all_rev rev_append rev_rev_ident set_takeWhileD
      takeWhile_dropWhile_id)

lemma c_rtrim_Nil [simp]: "c_rtrim [] = []"
  by (simp add: c_rtrim_def)

lemma length_c_rtrim: "length (c_rtrim s) \<le> length s"
  unfolding c_rtrim_def by (metis length_dropWhile_le length_rev)

function token_list_contains :: "string \<Rightarrow> string \<Rightarrow> bool" where
  "token_list_contains cursor wanted =
     (if cursor = [] then False
      else
        let cursor = dropWhile (\<lambda>c. is_blank c \<or> c = CHR '','') cursor;
            token = c_rtrim (takeWhile (\<lambda>c. c \<noteq> CHR '','') cursor)
        in if length token = length wanted \<and> strcasecmp_eq token wanted then True
           else case drop (length token) cursor of
                  [] \<Rightarrow> False
                | _ # rest \<Rightarrow> token_list_contains rest wanted)"
  by pat_completeness auto
termination
proof (relation "measure (length \<circ> fst)", simp)
  fix cursor wanted :: string and c token rest x
  assume "cursor \<noteq> []" and c: "c = dropWhile (\<lambda>c. is_blank c \<or> c = CHR '','') cursor"
    and "drop (length token) c = x # rest"
  then have "length rest < length c" by (metis Suc_le_lessD diff_le_self length_Cons length_drop)
  also have "length c \<le> length cursor" unfolding c by (rule length_dropWhile_le)
  finally show "((rest, wanted), (cursor, wanted)) \<in> measure (length \<circ> fst)" by simp
qed

declare token_list_contains.simps [simp del]

section \<open>The request line and the headers\<close>

definition request_line_ok :: "string \<Rightarrow> bool" where
  "request_line_ok line =
     (case scan_word 7 line of None \<Rightarrow> False | Some (method, s) \<Rightarrow>
      (case scan_word 127 s of None \<Rightarrow> False | Some (path, s) \<Rightarrow>
      (case scan_word 15 s of None \<Rightarrow> False | Some (http_version, s) \<Rightarrow>
         method = ''GET'' \<and> http_version = ''HTTP/1.1'' \<and>
         (path = ''/ws/audio/mic'' \<or> path = ''/ws/audio/talk''))))"

text \<open>The header values; \<open>None\<close> is a count of 0, and a second value is refused.\<close>

record handshake_headers =
  hh_upgrade :: "string option"
  hh_connection :: "string option"
  hh_version :: "string option"
  hh_key :: "string option"
  hh_protocols :: "string option"

definition no_headers :: handshake_headers where
  "no_headers = \<lparr> hh_upgrade = None, hh_connection = None, hh_version = None, hh_key = None,
     hh_protocols = None \<rparr>"

definition once :: "string option \<Rightarrow> string \<Rightarrow> nat \<Rightarrow> string option option" where
  "once old value capacity = (if old \<noteq> None \<or> capacity \<le> length value then None else Some (Some value))"

definition header_line :: "handshake_headers \<Rightarrow> string \<Rightarrow> handshake_headers option" where
  "header_line h line =
     (case dropWhile (\<lambda>c. c \<noteq> CHR '':'') line of
        [] \<Rightarrow> None
      | _ # after \<Rightarrow>
          let name = takeWhile (\<lambda>c. c \<noteq> CHR '':'') line; value = c_trim after in
          if strcasecmp_eq name ''Upgrade'' then
            map_option (\<lambda>v. h\<lparr>hh_upgrade := v\<rparr>) (once (hh_upgrade h) value 64)
          else if strcasecmp_eq name ''Connection'' then
            map_option (\<lambda>v. h\<lparr>hh_connection := v\<rparr>) (once (hh_connection h) value 128)
          else if strcasecmp_eq name ''Sec-WebSocket-Version'' then
            map_option (\<lambda>v. h\<lparr>hh_version := v\<rparr>) (once (hh_version h) value 32)
          else if strcasecmp_eq name ''Sec-WebSocket-Key'' then
            map_option (\<lambda>v. h\<lparr>hh_key := v\<rparr>) (once (hh_key h) value 128)
          else if strcasecmp_eq name ''Sec-WebSocket-Protocol'' then
            map_option (\<lambda>v. h\<lparr>hh_protocols := v\<rparr>) (once (hh_protocols h) value 1024)
          else Some h)"

fun header_lines :: "handshake_headers \<Rightarrow> string list \<Rightarrow> handshake_headers option" where
  "header_lines h [] = Some h"
| "header_lines h (line # lines) =
     (case header_line h line of None \<Rightarrow> None | Some h' \<Rightarrow> header_lines h' lines)"

text \<open>The check after the loop, with the accept value it computes.\<close>

definition headers_accept :: "handshake_headers \<Rightarrow> string option" where
  "headers_accept h =
     (case (hh_upgrade h, hh_connection h, hh_version h, hh_key h, hh_protocols h) of
        (Some upgrade, Some connection, Some version, Some key, Some protocols) \<Rightarrow>
          if \<not> strcasecmp_eq upgrade ''websocket'' \<or> \<not> token_list_contains connection ''Upgrade''
            \<or> version \<noteq> ''13'' \<or> \<not> valid_websocket_key key
            \<or> \<not> (\<not> isl (jooan_audio_ws_protocol_validate (Some protocols) None)) then None
          else websocket_accept key
      | _ \<Rightarrow> None)"

text \<open>\<open>strstr (request, "\r\n\r\n")\<close>, as the length of what precedes it.\<close>

fun find_header_end :: "string \<Rightarrow> nat option" where
  "find_header_end s =
     (if take 4 s = [CR, LF, CR, LF] then Some 0
      else case s of [] \<Rightarrow> None | _ # s' \<Rightarrow> map_option Suc (find_header_end s'))"

declare find_header_end.simps [simp del]

text \<open>
  What the request makes of the handshake: its end has not come yet, it is refused before
  or after \<open>allow_talk\<close> is set, or it is accepted with the accept value and the number of
  bytes it took. The lines are tokens of the whole request, also past its end.
\<close>

datatype handshake = HsMore | HsBad | HsBadHeaders | HsOk string nat

definition is_crlf :: "char \<Rightarrow> bool" where
  "is_crlf c = (c = CR \<or> c = LF)"

definition parse_handshake :: "string \<Rightarrow> handshake" where
  "parse_handshake request =
     (case find_header_end request of
        None \<Rightarrow> HsMore
      | Some header_end \<Rightarrow>
          (case c_tokens is_crlf request of
             [] \<Rightarrow> HsBad
           | line # lines \<Rightarrow>
               if \<not> request_line_ok line then HsBad
               else case header_lines no_headers lines of
                      None \<Rightarrow> HsBadHeaders
                    | Some h \<Rightarrow>
                        (case headers_accept h of
                           None \<Rightarrow> HsBadHeaders
                         | Some accept \<Rightarrow> HsOk accept (header_end + 4))))"

definition crlf :: string where "crlf = [CR, LF]"

definition handshake_response :: "string \<Rightarrow> string" where
  "handshake_response accept =
     ''HTTP/1.1 101 Switching Protocols'' @ crlf @ ''Upgrade: websocket'' @ crlf @
     ''Connection: Upgrade'' @ crlf @ ''Sec-WebSocket-Accept: '' @ accept @ crlf @
     ''Sec-WebSocket-Protocol: '' @ JOOAN_AUDIO_WS_PROTOCOL @ crlf @ crlf"

section \<open>What the token list search finds\<close>

text \<open>The elements of a comma-separated list, trimmed, without regard to case.\<close>

definition list_elements :: "string \<Rightarrow> string list" where
  "list_elements value = map (c_lower \<circ> c_trim) (c_tokens (\<lambda>c. c = CHR '','') value)"

lemma c_trim_eq: "c_trim s = c_rtrim (dropWhile is_blank s)"
  by (simp add: c_trim_def c_rtrim_def)

lemma list_elements_comma: "list_elements (CHR '','' # s) = list_elements s"
  by (simp add: list_elements_def c_tokens_skip)

lemma list_elements_Nil [simp]: "list_elements [] = []"
  by (simp add: list_elements_def)

lemma is_blank_comma [simp]: "\<not> is_blank (CHR '','')"
  by (simp add: is_blank_def)

text \<open>A blank in front of a list makes at most an empty element more.\<close>

lemma list_elements_blank:
  assumes "is_blank b" "w \<noteq> []"
  shows "w \<in> set (list_elements (b # s)) \<longleftrightarrow> w \<in> set (list_elements s)"
proof -
  let ?d = "\<lambda>c. c = CHR '',''"
  have b: "\<not> ?d b" using assms(1) by (auto simp: is_blank_def)
  have t: "c_trim (b # u) = c_trim u" for u using assms(1) by (simp add: c_trim_def)
  show ?thesis
  proof (cases s)
    case Nil
    then show ?thesis using assms by (simp add: list_elements_def c_tokens_Cons [where d = ?d, OF b] t c_lower_def)
        (simp add: c_trim_def)
  next
    case (Cons x xs)
    show ?thesis
    proof (cases "?d x")
      case True
      then show ?thesis using assms
        by (simp add: Cons list_elements_def c_tokens_Cons [where d = ?d, OF b] t c_lower_def c_tokens_skip)
          (simp add: c_trim_def)
    next
      case False
      then show ?thesis
        by (simp add: Cons list_elements_def c_tokens_Cons [where d = ?d, OF b]
            c_tokens_Cons [where d = ?d, OF False] t)
    qed
  qed
qed

lemma list_elements_skip:
  "w \<noteq> [] \<Longrightarrow> w \<in> set (list_elements (dropWhile (\<lambda>c. is_blank c \<or> c = CHR '','') s))
     \<longleftrightarrow> w \<in> set (list_elements s)"
  by (induction s) (auto simp: list_elements_blank list_elements_comma)

lemma list_elements_blanks:
  "w \<noteq> [] \<Longrightarrow> list_all is_blank b \<Longrightarrow> w \<in> set (list_elements (b @ s)) \<longleftrightarrow> w \<in> set (list_elements s)"
  by (induction b) (auto simp: list_elements_blank)

lemma c_trim_nonblank: "\<not> is_blank x \<Longrightarrow> c_trim (x # s) = c_rtrim (x # s)"
  by (simp add: c_trim_eq)

text \<open>The first element of a list that starts with one, and where the search goes on.\<close>

lemma list_elements_first:
  assumes "\<not> is_blank x" "x \<noteq> CHR '',''" "w \<noteq> []" "token = c_rtrim (takeWhile (\<lambda>c. c \<noteq> CHR '','') (x # s))"
  shows "w \<in> set (list_elements (x # s)) \<longleftrightarrow> w = c_lower token \<or>
     (case drop (length token) (x # s) of [] \<Rightarrow> False | _ # rest \<Rightarrow> w \<in> set (list_elements rest))"
proof -
  let ?p = "takeWhile (\<lambda>c. c \<noteq> CHR '','') (x # s)" and ?r = "dropWhile (\<lambda>c. c \<noteq> CHR '','') (x # s)"
  obtain b where b: "?p = token @ b" "list_all is_blank b"
    using c_rtrim_prefix [of ?p] assms(4) by metis
  have xs: "x # s = token @ b @ ?r" using b(1) by (metis append.assoc takeWhile_dropWhile_id)
  have e: "list_elements (x # s) = c_lower token # list_elements ?r"
    using assms(1,2,4) by (simp add: list_elements_def c_tokens_Cons c_trim_nonblank)
  have d: "drop (length token) (x # s) = b @ ?r" by (metis append_eq_conv_conj xs)
  have r: "(case b @ ?r of [] \<Rightarrow> False | _ # rest \<Rightarrow> w \<in> set (list_elements rest)) = (w \<in> set (list_elements ?r))"
  proof (cases b)
    case Nil
    show ?thesis
    proof (cases ?r)
      case (Cons y ys)
      then have "y = CHR '',''" by (metis (mono_tags) hd_dropWhile list.distinct(1) list.sel(1))
      then show ?thesis unfolding Cons Nil by (simp add: list_elements_comma)
    qed (simp add: Nil)
  next
    case (Cons y ys)
    then show ?thesis using b(2) assms(3) by (simp add: list_elements_blanks)
  qed
  show ?thesis unfolding d r e using assms(3) by auto
qed

lemma token_list_contains_elements:
  "c_lower wanted \<noteq> [] \<Longrightarrow> token_list_contains value wanted \<longleftrightarrow> c_lower wanted \<in> set (list_elements value)"
proof (induction "value" wanted rule: token_list_contains.induct)
  case (1 cursor wanted)
  define c where "c = dropWhile (\<lambda>c. is_blank c \<or> c = CHR '','') cursor"
  define token where "token = c_rtrim (takeWhile (\<lambda>c. c \<noteq> CHR '','') c)"
  have len: "strcasecmp_eq token wanted \<Longrightarrow> length token = length wanted"
    by (auto simp: strcasecmp_eq_def c_lower_def dest: map_eq_imp_length_eq)
  show ?case
  proof (cases c)
    case Nil
    then have "token = []" by (simp add: token_def c_rtrim_def)
    moreover have "c_lower wanted \<notin> set (list_elements cursor)"
      using list_elements_skip [OF "1.prems", of cursor] Nil list_elements_Nil
      unfolding c_def [symmetric] by (metis empty_iff empty_set)
    ultimately show ?thesis using Nil "1.prems"
      by (auto simp: token_list_contains.simps [of cursor] c_def [symmetric] token_def [symmetric]
          strcasecmp_eq_def c_lower_def Let_def)
  next
    case (Cons x xs)
    then have x: "\<not> is_blank x" "x \<noteq> CHR '',''" "cursor \<noteq> []"
      using hd_dropWhile [of "\<lambda>c. is_blank c \<or> c = CHR '',''" cursor] by (auto simp: c_def)
    have IH: "drop (length token) c = y # rest \<Longrightarrow> \<not> strcasecmp_eq token wanted \<Longrightarrow>
        token_list_contains rest wanted = (c_lower wanted \<in> set (list_elements rest))" for y rest
      by (rule "1.IH" [OF x(3) c_def token_def]) (use "1.prems" in simp_all)
    have "token_list_contains cursor wanted =
        (if length token = length wanted \<and> strcasecmp_eq token wanted then True
         else case drop (length token) c of [] \<Rightarrow> False | _ # rest \<Rightarrow> token_list_contains rest wanted)"
      using x(3) by (simp only: token_list_contains.simps [of cursor wanted] Let_def c_def token_def if_False)
    then have "token_list_contains cursor wanted \<longleftrightarrow> strcasecmp_eq token wanted \<or>
        (case drop (length token) c of [] \<Rightarrow> False | _ # rest \<Rightarrow> token_list_contains rest wanted)"
      using len by argo
    also have "\<dots> \<longleftrightarrow> c_lower wanted \<in> set (list_elements c)"
    proof -
      have f: "c_lower wanted \<in> set (list_elements c) \<longleftrightarrow> c_lower wanted = c_lower token \<or>
          (case drop (length token) c of [] \<Rightarrow> False | _ # rest \<Rightarrow> c_lower wanted \<in> set (list_elements rest))"
        using list_elements_first [OF x(1,2) "1.prems", of token xs] by (simp only: Cons token_def simp_thms)
      show ?thesis
      proof (cases "drop (length token) c")
        case Nil
        with f show ?thesis by (simp only: list.case strcasecmp_eq_def) metis
      next
        case (Cons y ys)
        with f IH [OF Cons] show ?thesis by (simp only: list.case strcasecmp_eq_def) metis
      qed
    qed
    also have "\<dots> \<longleftrightarrow> c_lower wanted \<in> set (list_elements cursor)"
      unfolding c_def by (rule list_elements_skip [OF "1.prems"])
    finally show ?thesis .
  qed
qed

section \<open>What the header loop keeps\<close>

definition header_name :: "string \<Rightarrow> string" where
  "header_name line = c_lower (takeWhile (\<lambda>c. c \<noteq> CHR '':'') line)"

definition header_value :: "string \<Rightarrow> string" where
  "header_value line = c_trim (tl (dropWhile (\<lambda>c. c \<noteq> CHR '':'') line))"

text \<open>The values of the lines of a name, given in lower case.\<close>

definition header_values :: "string \<Rightarrow> string list \<Rightarrow> string list" where
  "header_values name lines = map header_value (filter (\<lambda>l. header_name l = name) lines)"

definition field_after :: "string option \<Rightarrow> nat \<Rightarrow> string list \<Rightarrow> string option \<Rightarrow> bool" where
  "field_after old capacity vals new \<longleftrightarrow>
     (case vals of [] \<Rightarrow> new = old
      | [v] \<Rightarrow> old = None \<and> length v < capacity \<and> new = Some v
      | _ \<Rightarrow> False)"

lemma field_after_simps [simp]:
  "field_after old n [] new \<longleftrightarrow> new = old"
  "field_after old n (v # vs) new \<longleftrightarrow> old = None \<and> length v < n \<and> vs = [] \<and> new = Some v"
  by (auto simp: field_after_def split: list.splits)

lemma header_name_literals:
  "strcasecmp_eq (takeWhile (\<lambda>c. c \<noteq> CHR '':'') l) ''Upgrade'' \<longleftrightarrow> header_name l = ''upgrade''"
  "strcasecmp_eq (takeWhile (\<lambda>c. c \<noteq> CHR '':'') l) ''Connection'' \<longleftrightarrow> header_name l = ''connection''"
  "strcasecmp_eq (takeWhile (\<lambda>c. c \<noteq> CHR '':'') l) ''Sec-WebSocket-Version'' \<longleftrightarrow>
     header_name l = ''sec-websocket-version''"
  "strcasecmp_eq (takeWhile (\<lambda>c. c \<noteq> CHR '':'') l) ''Sec-WebSocket-Key'' \<longleftrightarrow>
     header_name l = ''sec-websocket-key''"
  "strcasecmp_eq (takeWhile (\<lambda>c. c \<noteq> CHR '':'') l) ''Sec-WebSocket-Protocol'' \<longleftrightarrow>
     header_name l = ''sec-websocket-protocol''"
proof -
  have "c_lower ''Upgrade'' = ''upgrade''" "c_lower ''Connection'' = ''connection''"
    "c_lower ''Sec-WebSocket-Version'' = ''sec-websocket-version''"
    "c_lower ''Sec-WebSocket-Key'' = ''sec-websocket-key''"
    "c_lower ''Sec-WebSocket-Protocol'' = ''sec-websocket-protocol''"
    by code_simp+
  then show
    "strcasecmp_eq (takeWhile (\<lambda>c. c \<noteq> CHR '':'') l) ''Upgrade'' \<longleftrightarrow> header_name l = ''upgrade''"
    "strcasecmp_eq (takeWhile (\<lambda>c. c \<noteq> CHR '':'') l) ''Connection'' \<longleftrightarrow> header_name l = ''connection''"
    "strcasecmp_eq (takeWhile (\<lambda>c. c \<noteq> CHR '':'') l) ''Sec-WebSocket-Version'' \<longleftrightarrow>
       header_name l = ''sec-websocket-version''"
    "strcasecmp_eq (takeWhile (\<lambda>c. c \<noteq> CHR '':'') l) ''Sec-WebSocket-Key'' \<longleftrightarrow>
       header_name l = ''sec-websocket-key''"
    "strcasecmp_eq (takeWhile (\<lambda>c. c \<noteq> CHR '':'') l) ''Sec-WebSocket-Protocol'' \<longleftrightarrow>
       header_name l = ''sec-websocket-protocol''"
    by (simp_all only: strcasecmp_eq_def header_name_def)
qed

lemma colon_split:
  "CHR '':'' \<in> set l \<Longrightarrow> \<exists>a. dropWhile (\<lambda>c. c \<noteq> CHR '':'') l = CHR '':'' # a"
  "CHR '':'' \<notin> set l \<Longrightarrow> dropWhile (\<lambda>c. c \<noteq> CHR '':'') l = []"
  by (induction l) auto

lemma header_values_simps [simp]:
  "header_values n [] = []"
  "header_values n (l # ls) = (if header_name l = n then header_value l # header_values n ls else header_values n ls)"
  by (simp_all add: header_values_def)

lemma handshake_headers_eq_iff:
  "(h' :: handshake_headers) = h \<longleftrightarrow> hh_upgrade h' = hh_upgrade h \<and> hh_connection h' = hh_connection h \<and>
     hh_version h' = hh_version h \<and> hh_key h' = hh_key h \<and> hh_protocols h' = hh_protocols h"
  by (cases h; cases h') auto

lemma once_eq: "once old v n = Some new \<longleftrightarrow> field_after old n [v] new"
  by (auto simp: once_def)

lemma header_line_eq:
  "header_line h l = Some h' \<longleftrightarrow> CHR '':'' \<in> set l \<and>
     field_after (hh_upgrade h) 64 (header_values ''upgrade'' [l]) (hh_upgrade h') \<and>
     field_after (hh_connection h) 128 (header_values ''connection'' [l]) (hh_connection h') \<and>
     field_after (hh_version h) 32 (header_values ''sec-websocket-version'' [l]) (hh_version h') \<and>
     field_after (hh_key h) 128 (header_values ''sec-websocket-key'' [l]) (hh_key h') \<and>
     field_after (hh_protocols h) 1024 (header_values ''sec-websocket-protocol'' [l]) (hh_protocols h')"
proof (cases "CHR '':'' \<in> set l")
  case True
  then obtain a where a: "dropWhile (\<lambda>c. c \<noteq> CHR '':'') l = CHR '':'' # a" using colon_split(1) by blast
  have v: "header_value l = c_trim a" by (simp add: header_value_def a)
  note line = header_line_def [of h l, unfolded a list.case Let_def header_name_literals v [symmetric]]
  note eqs = map_option_eq_Some once_eq handshake_headers_eq_iff [of _ h'] True
  consider "header_name l = ''upgrade''" | "header_name l = ''connection''"
    | "header_name l = ''sec-websocket-version''" | "header_name l = ''sec-websocket-key''"
    | "header_name l = ''sec-websocket-protocol''"
    | "header_name l \<noteq> ''upgrade''" "header_name l \<noteq> ''connection''"
      "header_name l \<noteq> ''sec-websocket-version''" "header_name l \<noteq> ''sec-websocket-key''"
      "header_name l \<noteq> ''sec-websocket-protocol''" by blast
  then show ?thesis by cases (auto simp: line eqs)
next
  case False
  then show ?thesis by (simp add: header_line_def colon_split(2))
qed

lemma header_lines_eq:
  "header_lines h ls = Some h' \<longleftrightarrow> (\<forall>l\<in>set ls. CHR '':'' \<in> set l) \<and>
     field_after (hh_upgrade h) 64 (header_values ''upgrade'' ls) (hh_upgrade h') \<and>
     field_after (hh_connection h) 128 (header_values ''connection'' ls) (hh_connection h') \<and>
     field_after (hh_version h) 32 (header_values ''sec-websocket-version'' ls) (hh_version h') \<and>
     field_after (hh_key h) 128 (header_values ''sec-websocket-key'' ls) (hh_key h') \<and>
     field_after (hh_protocols h) 1024 (header_values ''sec-websocket-protocol'' ls) (hh_protocols h')"
proof (induction ls arbitrary: h)
  case Nil
  then show ?case by (auto simp: handshake_headers_eq_iff [of h h'])
next
  case (Cons l ls)
  have two: "(\<exists>m. field_after a n (header_values k [l]) m \<and> field_after m n (header_values k ls) b) \<longleftrightarrow>
      field_after a n (header_values k (l # ls)) b" for a b n k
    by (cases "header_values k ls") auto
  have "header_lines h (l # ls) = Some h' \<longleftrightarrow> (\<exists>m. header_line h l = Some m \<and> header_lines m ls = Some h')"
    by (auto split: option.splits)
  also have "\<dots> \<longleftrightarrow> CHR '':'' \<in> set l \<and> (\<forall>l\<in>set ls. CHR '':'' \<in> set l) \<and>
      (\<exists>u c v k p.
        (field_after (hh_upgrade h) 64 (header_values ''upgrade'' [l]) u \<and>
         field_after u 64 (header_values ''upgrade'' ls) (hh_upgrade h')) \<and>
        (field_after (hh_connection h) 128 (header_values ''connection'' [l]) c \<and>
         field_after c 128 (header_values ''connection'' ls) (hh_connection h')) \<and>
        (field_after (hh_version h) 32 (header_values ''sec-websocket-version'' [l]) v \<and>
         field_after v 32 (header_values ''sec-websocket-version'' ls) (hh_version h')) \<and>
        (field_after (hh_key h) 128 (header_values ''sec-websocket-key'' [l]) k \<and>
         field_after k 128 (header_values ''sec-websocket-key'' ls) (hh_key h')) \<and>
        (field_after (hh_protocols h) 1024 (header_values ''sec-websocket-protocol'' [l]) p \<and>
         field_after p 1024 (header_values ''sec-websocket-protocol'' ls) (hh_protocols h')))"
    (is "?E = ?A")
  proof
    show "?E \<Longrightarrow> ?A" unfolding header_line_eq Cons.IH by (elim exE conjE) (intro conjI exI; assumption)
    assume ?A
    then obtain u c v k p where "header_line h l = Some (handshake_headers.make u c v k p)"
        and "header_lines (handshake_headers.make u c v k p) ls = Some h'"
      unfolding header_line_eq Cons.IH handshake_headers.defs handshake_headers.simps by blast
    then show ?E by blast
  qed
  also have "\<dots> \<longleftrightarrow> CHR '':'' \<in> set l \<and> (\<forall>l\<in>set ls. CHR '':'' \<in> set l) \<and>
      (\<exists>u. field_after (hh_upgrade h) 64 (header_values ''upgrade'' [l]) u \<and>
         field_after u 64 (header_values ''upgrade'' ls) (hh_upgrade h')) \<and>
      (\<exists>c. field_after (hh_connection h) 128 (header_values ''connection'' [l]) c \<and>
         field_after c 128 (header_values ''connection'' ls) (hh_connection h')) \<and>
      (\<exists>v. field_after (hh_version h) 32 (header_values ''sec-websocket-version'' [l]) v \<and>
         field_after v 32 (header_values ''sec-websocket-version'' ls) (hh_version h')) \<and>
      (\<exists>k. field_after (hh_key h) 128 (header_values ''sec-websocket-key'' [l]) k \<and>
         field_after k 128 (header_values ''sec-websocket-key'' ls) (hh_key h')) \<and>
      (\<exists>p. field_after (hh_protocols h) 1024 (header_values ''sec-websocket-protocol'' [l]) p \<and>
         field_after p 1024 (header_values ''sec-websocket-protocol'' ls) (hh_protocols h'))"
    by (simp only: ex_simps)
  finally show ?case unfolding two by (simp only: list.set ball_simps Ball_def insert_iff) auto
qed

section \<open>Which requests are accepted\<close>

lemma headers_accept_eq:
  "headers_accept h = Some accept \<longleftrightarrow>
     (\<exists>upgrade connection key protocols.
        h = \<lparr> hh_upgrade = Some upgrade, hh_connection = Some connection, hh_version = Some ''13'',
              hh_key = Some key, hh_protocols = Some protocols \<rparr> \<and>
        c_lower upgrade = ''websocket'' \<and> ''upgrade'' \<in> set (list_elements connection) \<and>
        valid_websocket_key key \<and> jooan_audio_ws_protocol_validate (Some protocols) None = Inr () \<and>
        websocket_accept key = Some accept)"
proof -
  have l: "c_lower ''websocket'' = ''websocket''" "c_lower ''Upgrade'' = ''upgrade''" by code_simp+
  have t: "token_list_contains c ''Upgrade'' \<longleftrightarrow> ''upgrade'' \<in> set (list_elements c)" for c
    using token_list_contains_elements [of "''Upgrade''" c] l(2) by simp
  have v: "\<not> isl r \<longleftrightarrow> r = Inr ()" for r :: "unit result" by (cases r) auto
  show ?thesis
    by (cases h) (auto simp: headers_accept_def t v strcasecmp_eq_def l split: option.splits if_splits)
qed

lemma upgrade_length: "c_lower u = ''websocket'' \<Longrightarrow> length u = 9"
  using arg_cong [where f = length and x = "c_lower u"] by (fastforce simp: c_lower_def)

text \<open>
  C23. A request is upgraded exactly when it has ended, its first line asks for one of the
  two audio routes, every other line has a colon, each of the five headers occurs once
  (without regard to case) with an acceptable value, and the offered subprotocols pass.
  The answer is computed from the key of that header, and the bytes taken are those up to
  the end of the headers.
\<close>

theorem handshake_accepts_iff:
  "parse_handshake request = HsOk accept n \<longleftrightarrow>
     (\<exists>e line lines upgrade connection key protocols.
        find_header_end request = Some e \<and> n = e + 4 \<and>
        c_tokens is_crlf request = line # lines \<and> request_line_ok line \<and>
        list_all (\<lambda>l. CHR '':'' \<in> set l) lines \<and>
        header_values ''upgrade'' lines = [upgrade] \<and> c_lower upgrade = ''websocket'' \<and>
        header_values ''connection'' lines = [connection] \<and> length connection < 128 \<and>
        ''upgrade'' \<in> set (list_elements connection) \<and>
        header_values ''sec-websocket-version'' lines = [''13''] \<and>
        header_values ''sec-websocket-key'' lines = [key] \<and> valid_websocket_key key \<and>
        header_values ''sec-websocket-protocol'' lines = [protocols] \<and> length protocols < 1024 \<and>
        jooan_audio_ws_protocol_validate (Some protocols) None = Inr () \<and>
        websocket_accept key = Some accept)"
    (is "?L \<longleftrightarrow> ?R")
proof
  assume ?L
  then obtain e line lines h where p: "find_header_end request = Some e" "n = e + 4"
      "c_tokens is_crlf request = line # lines" "request_line_ok line"
      "header_lines no_headers lines = Some h" "headers_accept h = Some accept"
    by (auto simp: parse_handshake_def split: option.splits list.splits if_splits)
  have one: "field_after None k vals (Some v) \<longleftrightarrow> vals = [v] \<and> length v < k" for k vals v
    by (cases vals) auto
  show ?R
    using p by (auto simp: headers_accept_eq header_lines_eq no_headers_def one list_all_iff)
next
  assume ?R
  then obtain e line lines upgrade connection key protocols where
    r: "find_header_end request = Some e" "n = e + 4" "c_tokens is_crlf request = line # lines"
      "request_line_ok line" "list_all (\<lambda>l. CHR '':'' \<in> set l) lines"
      "header_values ''upgrade'' lines = [upgrade]" "c_lower upgrade = ''websocket''"
      "header_values ''connection'' lines = [connection]" "length connection < 128"
      "''upgrade'' \<in> set (list_elements connection)"
      "header_values ''sec-websocket-version'' lines = [''13'']"
      "header_values ''sec-websocket-key'' lines = [key]" "valid_websocket_key key"
      "header_values ''sec-websocket-protocol'' lines = [protocols]" "length protocols < 1024"
      "jooan_audio_ws_protocol_validate (Some protocols) None = Inr ()"
      "websocket_accept key = Some accept"
    by blast
  let ?h = "\<lparr> hh_upgrade = Some upgrade, hh_connection = Some connection, hh_version = Some ''13'',
              hh_key = Some key, hh_protocols = Some protocols \<rparr>"
  have "length key = 24" using r(13) by (simp add: valid_websocket_key_def)
  then have "header_lines no_headers lines = Some ?h"
    unfolding header_lines_eq using r upgrade_length [OF r(7)]
    by (simp add: no_headers_def list_all_iff)
  moreover have "headers_accept ?h = Some accept" using r by (simp add: headers_accept_eq)
  ultimately show ?L using r(1-4) by (simp add: parse_handshake_def)
qed

section \<open>Bytes after the headers\<close>

lemma c_tokens_append:
  "s = [] \<or> d (last s) \<Longrightarrow> c_tokens d (s @ t) = c_tokens d s @ c_tokens d t"
proof (induction d s rule: c_tokens.induct)
  case (1 d s)
  show ?case
  proof (cases "dropWhile d s")
    case Nil
    then have "list_all d s" by (simp add: list_all_iff)
    then have "dropWhile d (s @ t) = dropWhile d t" by (simp add: list_all_iff)
    then have "c_tokens d (s @ t) = c_tokens d t" by (metis c_tokens_dropWhile)
    moreover have "c_tokens d s = []" using Nil by (metis c_tokens_Nil c_tokens_dropWhile)
    ultimately show ?thesis by simp
  next
    case (Cons c cs)
    then have c: "\<not> d c" by (metis hd_dropWhile list.distinct(1) list.sel(1))
    have s: "s = takeWhile d s @ c # cs" using Cons by (metis takeWhile_dropWhile_id)
    then have l: "d (last (c # cs))" using "1.prems" by (metis last_appendR list.distinct(1) Nil_is_append_conv)
    then have cs: "cs \<noteq> []" "d (last cs)" using c by (auto split: if_splits)
    then have w: "takeWhile (\<lambda>x. \<not> d x) (cs @ t) = takeWhile (\<lambda>x. \<not> d x) cs"
      "dropWhile (\<lambda>x. \<not> d x) (cs @ t) = dropWhile (\<lambda>x. \<not> d x) cs @ t"
      by (metis last_in_set takeWhile_append1, metis last_in_set dropWhile_append1)
    have r: "dropWhile (\<lambda>x. \<not> d x) cs = [] \<or> d (last (dropWhile (\<lambda>x. \<not> d x) cs))"
      using cs(2) by (metis last_appendR takeWhile_dropWhile_id)
    have "dropWhile d (s @ t) = c # cs @ t"
      using Cons by (metis append_Cons dropWhile_append dropWhile_eq_Nil_conv list.distinct(1))
    then show ?thesis using "1.IH" [OF Cons r] Cons w
      by (simp add: c_tokens.simps [of d "s @ t"] c_tokens.simps [of d s])
  qed
qed

lemma find_header_end_at: "find_header_end s = Some e \<Longrightarrow> take 4 (drop e s) = [CR, LF, CR, LF]"
proof (induction s arbitrary: e)
  case (Cons c s)
  then show ?case by (cases e) (auto simp: find_header_end.simps [of "c # s"] split: if_splits)
qed (simp add: find_header_end.simps)

lemma find_header_end_append: "find_header_end s = Some e \<Longrightarrow> find_header_end (s @ t) = Some e"
proof (induction s arbitrary: e)
  case (Cons c s)
  show ?case
  proof (cases "take 4 (c # s) = [CR, LF, CR, LF]")
    case True
    have l: "length (take 4 (c # s)) = 4" unfolding True by simp
    then have "take 4 ((c # s) @ t) = take 4 (c # s)" by simp
    then have T: "take 4 (c # s @ t) = [CR, LF, CR, LF]" unfolding True by simp
    have "find_header_end (c # s) = Some 0" "find_header_end (c # s @ t) = Some 0"
      by (subst find_header_end.simps, simp only: True T refl if_True)+
    with Cons.prems show ?thesis by simp
  next
    case False
    with Cons.prems obtain e' where e': "find_header_end s = Some e'" "e = Suc e'"
      by (auto simp: find_header_end.simps [of "c # s"])
    show ?thesis
    proof (cases "take 4 ((c # s) @ t) = [CR, LF, CR, LF]")
      case True
      have "4 \<le> length s" using arg_cong [OF find_header_end_at [OF e'(1)], of length] by simp
      with True False show ?thesis by simp
    next
      case False
      with Cons.IH [OF e'(1)] e'(2) show ?thesis by (simp add: find_header_end.simps [of "c # s @ t"])
    qed
  qed
qed (simp add: find_header_end.simps)

lemma header_lines_append:
  "header_lines h (ls @ ms) = (case header_lines h ls of None \<Rightarrow> None | Some h' \<Rightarrow> header_lines h' ms)"
  by (induction ls arbitrary: h) (auto split: option.splits)

text \<open>
  C24. Text that arrives together with an acceptable request, after its end and without a
  colon, is read as one more header line, so the request is refused, although the code
  goes on to keep what follows the headers as WebSocket input.
\<close>

theorem pipelined_text_refused:
  assumes "parse_handshake request = HsOk accept (length request)"
    and "extra \<noteq> []" and "list_all (\<lambda>c. \<not> is_crlf c \<and> c \<noteq> CHR '':'') extra"
  shows "parse_handshake (request @ extra) = HsBadHeaders"
proof -
  from assms(1) obtain e line lines h where p: "find_header_end request = Some e" "length request = e + 4"
      "c_tokens is_crlf request = line # lines" "request_line_ok line"
      "header_lines no_headers lines = Some h"
    by (auto simp: parse_handshake_def split: option.splits list.splits if_splits) metis
  have "drop e request = [CR, LF, CR, LF]" using find_header_end_at [OF p(1)] p(2) by simp
  then have "is_crlf (last request)"
    by (metis append_take_drop_id is_crlf_def last.simps last_appendR list.distinct(1))
  then have a: "c_tokens is_crlf (request @ extra) = line # lines @ c_tokens is_crlf extra"
    using c_tokens_append [of request is_crlf extra] p(3) by simp
  obtain x xs where x: "extra = x # xs" using assms(2) by (cases extra) auto
  have d: "dropWhile (\<lambda>y. \<not> is_crlf y) xs = []" and w: "takeWhile (\<lambda>y. \<not> is_crlf y) xs = xs"
    using assms(3) x by (auto simp: list_all_iff takeWhile_eq_all_conv)
  have "\<not> is_crlf x" using assms(3) x by simp
  then have b: "c_tokens is_crlf extra = [extra]" unfolding x c_tokens_Cons [where d = is_crlf, OF \<open>\<not> is_crlf x\<close>] d w by simp
  have "header_line h' extra = None" for h'
  proof -
    have "CHR '':'' \<notin> set extra" using assms(3) by (auto simp: list_all_iff)
    then show ?thesis by (simp add: header_line_def colon_split(2))
  qed
  then show ?thesis
    using p a b find_header_end_append [OF p(1), of extra]
    by (simp add: parse_handshake_def header_lines_append)
qed

text \<open>A browser's request, and the same with text behind it.\<close>

definition sample_request :: string where
  "sample_request = ''GET /ws/audio/talk HTTP/1.1'' @ crlf @ ''Host: cam'' @ crlf @
     ''upgrade: WebSocket'' @ crlf @ ''Connection: keep-alive, Upgrade'' @ crlf @
     ''Sec-WebSocket-Version: 13'' @ crlf @ ''Sec-WebSocket-Key: dGhlIHNhbXBsZSBub25jZQ=='' @ crlf @
     ''Sec-WebSocket-Protocol: jaud.v1, jaud.auth.'' @ replicate 64 (CHR ''a'') @ crlf @ crlf"

lemma sample_request_accepted:
  "\<exists>accept. parse_handshake sample_request = HsOk accept (length sample_request)"
proof -
  have 1: "find_header_end sample_request = Some (length sample_request - 4)" by code_simp
  have 2: "hd (c_tokens is_crlf sample_request) = ''GET /ws/audio/talk HTTP/1.1''
      \<and> c_tokens is_crlf sample_request \<noteq> [] \<and> request_line_ok ''GET /ws/audio/talk HTTP/1.1''" by code_simp
  have 3: "header_lines no_headers (tl (c_tokens is_crlf sample_request)) =
      Some \<lparr> hh_upgrade = Some ''WebSocket'', hh_connection = Some ''keep-alive, Upgrade'',
        hh_version = Some ''13'', hh_key = Some ''dGhlIHNhbXBsZSBub25jZQ=='',
        hh_protocols = Some (''jaud.v1, jaud.auth.'' @ replicate 64 (CHR ''a'')) \<rparr>" by code_simp
  have 4: "c_lower ''WebSocket'' = ''websocket''" "''upgrade'' \<in> set (list_elements ''keep-alive, Upgrade'')"
    "valid_websocket_key ''dGhlIHNhbXBsZSBub25jZQ==''"
    "jooan_audio_ws_protocol_validate (Some (''jaud.v1, jaud.auth.'' @ replicate 64 (CHR ''a''))) None = Inr ()"
    by code_simp+
  obtain accept where 5: "websocket_accept ''dGhlIHNhbXBsZSBub25jZQ=='' = Some accept"
    using websocket_accept_eq by blast
  have 6: "4 \<le> length sample_request" by (simp add: sample_request_def)
  obtain line lines where ts: "c_tokens is_crlf sample_request = line # lines" using 2 by (meson neq_Nil_conv)
  with 2 have line: "request_line_ok line" by simp
  let ?h = "\<lparr> hh_upgrade = Some ''WebSocket'', hh_connection = Some ''keep-alive, Upgrade'',
      hh_version = Some ''13'', hh_key = Some ''dGhlIHNhbXBsZSBub25jZQ=='',
      hh_protocols = Some (''jaud.v1, jaud.auth.'' @ replicate 64 (CHR ''a'')) \<rparr>"
  have h: "header_lines no_headers lines = Some ?h" using 3 unfolding ts list.sel .
  have "headers_accept ?h = Some accept" unfolding headers_accept_eq using 4 5 by blast
  then show ?thesis unfolding parse_handshake_def 1 ts option.case list.case h using line 6 by simp
qed

lemma pipelined_text_refused_witness: "parse_handshake (sample_request @ ''hello'') = HsBadHeaders"
proof -
  obtain accept where "parse_handshake sample_request = HsOk accept (length sample_request)"
    using sample_request_accepted by blast
  then show ?thesis
    by (rule pipelined_text_refused) (simp_all add: is_crlf_def)
qed

end
