(* ===== verification/Router_Client.thy ===== *)
theory Router_Client
  imports Guard_Client Ws_Handshake Alaw
begin

text \<open>
  One WebSocket client of the audio router (\<open>src/audio/audio_router.c\<close>): its output queue,
  the frames sent and received, the upgrade, the push-to-talk protocol and reading. The
  process's statics and what it gave to the kernel are the \<open>router\<close> record, the kernel's
  answers an environment indexed by the number of the call.
\<close>

section \<open>State\<close>

definition INPUT_CAPACITY :: nat where "INPUT_CAPACITY = 8192"
definition OUTPUT_CAPACITY :: nat where "OUTPUT_CAPACITY = 16384"
definition MAX_WS_PAYLOAD :: nat where
  "MAX_WS_PAYLOAD = JOOAN_AUDIO_WIRE_HEADER_SIZE + JOOAN_AUDIO_WIRE_MAX_PAYLOAD"

datatype client_state = CLIENT_HTTP | CLIENT_OPEN

text \<open>\<open>output\<close> holds the bytes still to send, which the code keeps from \<open>output_offset\<close> on.\<close>

record client =
  fd :: int
  state :: client_state
  allow_talk :: bool
  input :: "byte list"
  "output" :: "byte list"
  output_offset :: nat
  receive_sequence :: u32
  transmit_sequence :: u32
  session_id :: u64
  talk_deadline :: u64
  guard :: jooan_audio_guard_client

record router_env = env +
  env_send :: "nat \<Rightarrow> byte list \<Rightarrow> errno + nat"
  env_recv :: "nat \<Rightarrow> nat \<Rightarrow> errno + byte list"
  env_urandom :: "nat \<Rightarrow> u64 option"
  env_time_pid_stack :: "nat \<Rightarrow> u64 \<times> u64 \<times> u64"
  env_monotonic :: "nat \<Rightarrow> (u64 \<times> u64) option"
  env_play :: "nat \<Rightarrow> i16 list \<Rightarrow> errno option \<times> nat"
  env_amplifier :: "nat \<Rightarrow> char option"

record router = world +
  sent :: "(int \<times> byte list) list"
  played :: "i16 list list"
  speaker_output_direct :: bool
  speaker_output_descriptor :: int
  speaker_talk_logged :: bool
  guard_socket_path :: string
  maximum_talk_ms :: u32

definition next_tick :: "'w world_scheme \<Rightarrow> 'w world_scheme" where
  "next_tick w = w\<lparr>tick := Suc (tick w)\<rparr>"

section \<open>Session numbers and time\<close>

definition new_session_id :: "'e router_env_scheme \<Rightarrow> 'w router_scheme \<Rightarrow> u64 \<times> 'w router_scheme" where
  "new_session_id env w =
     (case env_urandom env (tick w) of
        Some v \<Rightarrow> if v \<noteq> 0 then (v, next_tick w)
          else (case env_time_pid_stack env (tick w) of (t, pid, stack) \<Rightarrow>
                  let v = push_bit 32 t XOR push_bit 16 pid XOR stack
                  in (if v \<noteq> 0 then v else 1, next_tick w))
      | None \<Rightarrow> (case env_time_pid_stack env (tick w) of (t, pid, stack) \<Rightarrow>
                  let v = push_bit 32 t XOR push_bit 16 pid XOR stack
                  in (if v \<noteq> 0 then v else 1, next_tick w)))"

definition monotonic_milliseconds :: "'e router_env_scheme \<Rightarrow> 'w router_scheme \<Rightarrow> u64 \<times> 'w router_scheme" where
  "monotonic_milliseconds env w =
     (case env_monotonic env (tick w) of
        None \<Rightarrow> 0
      | Some (tv_sec, tv_nsec) \<Rightarrow> tv_sec * 1000 + tv_nsec div 1000000,
      next_tick w)"

section \<open>The output queue\<close>

definition client_init :: client where
  "client_init = \<lparr> fd = -1, state = CLIENT_HTTP, allow_talk = False, input = [], output = [],
     output_offset = 0, receive_sequence = 0, transmit_sequence = 0, session_id = 0,
     talk_deadline = 0, guard = guard_zero \<rparr>"

definition client_close :: "'e router_env_scheme \<Rightarrow> client \<Rightarrow> 'w router_scheme \<Rightarrow> client \<times> 'w router_scheme" where
  "client_close env c w =
     (let w = (if 0 \<le> fd c then w\<lparr>closed := closed w @ [fd c]\<rparr> else w);
          (_, w) = jooan_audio_guard_close env (guard c) w
      in (client_init, w))"

definition client_queue :: "client \<Rightarrow> byte list \<Rightarrow> unit result \<times> client" where
  "client_queue c data =
     (let c = (if output_offset c \<noteq> 0 \<and> OUTPUT_CAPACITY < output_offset c + length (output c) + length data
               then c\<lparr>output_offset := 0\<rparr> else c)
      in if OUTPUT_CAPACITY - output_offset c - length (output c) < length data then (Inl ENOBUFS, c)
         else (Inr (), c\<lparr>output := output c @ data\<rparr>))"

text \<open>\<open>None\<close>: \<open>send\<close> is interrupted for ever.\<close>

partial_function (option) client_flush ::
  "'e router_env_scheme \<Rightarrow> client \<Rightarrow> 'w router_scheme \<Rightarrow> (bool \<times> client \<times> 'w router_scheme) option" where
  "client_flush env c w =
     (if output c = [] then Some (True, c\<lparr>output_offset := 0\<rparr>, w)
      else case env_send env (tick w) (output c) of
        Inr amount \<Rightarrow>
          if 0 < amount then
            client_flush env
              (c\<lparr>output_offset := output_offset c + amount, output := drop amount (output c)\<rparr>)
              (next_tick w\<lparr>sent := sent w @ [(fd c, take amount (output c))]\<rparr>)
          else Some (False, c, next_tick w)
      | Inl e \<Rightarrow>
          if e = EINTR then client_flush env c (next_tick w)
          else if e = EAGAIN then Some (True, c, next_tick w)
          else Some (False, c, next_tick w))"

definition queue_ws_frame :: "client \<Rightarrow> byte \<Rightarrow> byte list \<Rightarrow> bool \<times> client" where
  "queue_ws_frame c opcode payload =
     (if 65535 < length payload then (False, c)
      else
        let header = (0x80 OR opcode) #
              (if length payload \<le> 125 then [of_nat (length payload)]
               else [126, of_nat (length payload div 256), of_nat (length payload)])
        in case client_queue c header of
             (Inl _, c) \<Rightarrow> (False, c)
           | (Inr _, c) \<Rightarrow>
               if payload = [] then (True, c)
               else (case client_queue c payload of (r, c) \<Rightarrow> (\<not> isl r, c)))"

definition queue_audio_state :: "client \<Rightarrow> byte \<Rightarrow> bool \<times> client" where
  "queue_audio_state c st =
     (let sequence = seq_next (transmit_sequence c)
      in case jooan_audio_wire_build (JOOAN_AUDIO_WIRE_HEADER_SIZE + 1) AUDIO_STATE 0 sequence (Some [st]) 1 of
           Inl _ \<Rightarrow> (False, c)
         | Inr frame \<Rightarrow>
             (case queue_ws_frame c 0x2 frame of
                (False, c) \<Rightarrow> (False, c)
              | (True, c) \<Rightarrow> (True, c\<lparr>transmit_sequence := sequence\<rparr>)))"

definition client_release_guard ::
  "'e router_env_scheme \<Rightarrow> client \<Rightarrow> byte \<Rightarrow> 'w router_scheme \<Rightarrow> bool \<times> client \<times> 'w router_scheme" where
  "client_release_guard env c st w =
     (let (ok, g, w) = (if g_acquired (guard c)
            then (case jooan_audio_guard_release env (guard c) 0 w of (r, g, w) \<Rightarrow> (\<not> isl r, g, w))
            else (True, guard c, w));
          (g, w) = jooan_audio_guard_close env g w;
          (queued, c) = queue_audio_state (c\<lparr>guard := g, talk_deadline := 0\<rparr>) st
      in (ok \<and> queued, c, w))"

section \<open>The upgrade\<close>

text \<open>
  The request is the input up to a NUL byte. The result is -1, 0 or 1 as in the code.
\<close>

definition client_handshake :: "client \<Rightarrow> int \<times> client" where
  "client_handshake c =
     (if INPUT_CAPACITY + 1 \<le> length (input c) then (-1, c)
      else case parse_handshake (chars_of (takeWhile (\<lambda>b. b \<noteq> 0) (input c))) of
        HsMore \<Rightarrow> (0, c)
      | HsBad \<Rightarrow> (-1, c)
      | HsBadHeaders \<Rightarrow> (-1, c\<lparr>allow_talk := True\<rparr>)
      | HsOk accept header_length \<Rightarrow>
          let c = c\<lparr>allow_talk := True\<rparr>; response = bytes_of (handshake_response accept)
          in if 512 \<le> length response then (-1, c)
             else case client_queue c response of
                    (Inl _, c) \<Rightarrow> (-1, c)
                  | (Inr _, c) \<Rightarrow> (1, c\<lparr>input := drop header_length (input c), state := CLIENT_OPEN\<rparr>))"

section \<open>The speaker\<close>

definition speaker_output_submit ::
  "'e router_env_scheme \<Rightarrow> byte list \<Rightarrow> 'w router_scheme \<Rightarrow> unit result \<times> 'w router_scheme" where
  "speaker_output_submit env pcma w =
     (if \<not> speaker_output_direct w \<or> speaker_output_descriptor w < 0
        \<or> length pcma \<noteq> JOOAN_AUDIO_SAMPLES_PER_PACKET then (Inl EINVAL, w)
      else
        let pcm = jooan_alaw_decode pcma; size_pcm = 2 * JOOAN_AUDIO_SAMPLES_PER_PACKET
        in case env_play env (tick w) pcm of
             (failure, byte_length) \<Rightarrow>
               (if byte_length \<noteq> size_pcm then Inl EIO
                else case failure of Some e \<Rightarrow> Inl e | None \<Rightarrow> Inr (),
                next_tick w\<lparr>played := (if failure = None \<and> byte_length = size_pcm then played w @ [pcm]
                                      else played w)\<rparr>))"

text \<open>The level is read up to 100 times, 4 ms apart; \<open>None\<close> is a failed open or read.\<close>

fun amplifier_attempts :: "'e router_env_scheme \<Rightarrow> nat \<Rightarrow> 'w router_scheme \<Rightarrow> bool \<times> 'w router_scheme" where
  "amplifier_attempts env 0 w = (False, w)"
| "amplifier_attempts env (Suc left) w =
     (if env_amplifier env (tick w) = Some (CHR ''0'') then (True, next_tick w)
      else amplifier_attempts env left (next_tick w))"

definition speaker_amplifier_confirm_enabled ::
  "'e router_env_scheme \<Rightarrow> 'w router_scheme \<Rightarrow> unit result \<times> 'w router_scheme" where
  "speaker_amplifier_confirm_enabled env w =
     (case amplifier_attempts env 100 w of (ok, w) \<Rightarrow> (if ok then Inr () else Inl EIO, w))"

section \<open>Push to talk\<close>

definition ptt_acquire ::
  "'e router_env_scheme \<Rightarrow> client \<Rightarrow> 'w router_scheme \<Rightarrow> bool \<times> client \<times> 'w router_scheme" where
  "ptt_acquire env c w =
     (if g_acquired (guard c) then (False, c, w)
      else
        let (g, w) = (if 0 \<le> g_fd (guard c) then jooan_audio_guard_close env (guard c) w else (guard c, w));
            (sid, w) = new_session_id env w;
            c = c\<lparr>session_id := sid\<rparr>
        in case jooan_audio_guard_open env g (Some (guard_socket_path w)) sid w of
             (Inl _, g, w) \<Rightarrow> (False, c\<lparr>guard := g\<rparr>, w)
           | (Inr _, g, w) \<Rightarrow>
               (case jooan_audio_guard_acquire env g 1 w of
                  (Inl _, g, w) \<Rightarrow> (False, c\<lparr>guard := g\<rparr>, w)
                | (Inr _, g, w) \<Rightarrow>
                    let (now, w) = monotonic_milliseconds env w;
                        (queued, c) = queue_audio_state
                          (c\<lparr>guard := g, talk_deadline := now + ucast (maximum_talk_ms w)\<rparr>) STATE_ACQUIRED
                    in (queued, c, w\<lparr>speaker_talk_logged := False\<rparr>)))"

definition ptt_speaker ::
  "'e router_env_scheme \<Rightarrow> client \<Rightarrow> u32 \<Rightarrow> byte list \<Rightarrow> 'w router_scheme \<Rightarrow> bool \<times> client \<times> 'w router_scheme" where
  "ptt_speaker env c guard_sequence pcma w =
     (case speaker_output_submit env pcma w of
        (Inl _, w) \<Rightarrow> (False, c, w)
      | (Inr _, w) \<Rightarrow>
          (case jooan_audio_guard_speaker_lease env (guard c) guard_sequence w of
             (Inl _, g, w) \<Rightarrow> (False, c\<lparr>guard := g\<rparr>, w)
           | (Inr _, g, w) \<Rightarrow>
               if speaker_talk_logged w then (True, c\<lparr>guard := g\<rparr>, w)
               else (case speaker_amplifier_confirm_enabled env w of
                       (Inl _, w) \<Rightarrow> (False, c\<lparr>guard := g\<rparr>, w)
                     | (Inr _, w) \<Rightarrow> (True, c\<lparr>guard := g\<rparr>, w\<lparr>speaker_talk_logged := True\<rparr>))))"

definition ptt_guard ::
  "'e router_env_scheme \<Rightarrow> client \<Rightarrow> u32 \<Rightarrow> byte list \<Rightarrow> 'w router_scheme \<Rightarrow> bool \<times> client \<times> 'w router_scheme" where
  "ptt_guard env c guard_sequence pcma w =
     (case jooan_audio_guard_pcma env (guard c) guard_sequence (Some pcma) (length pcma) w of
        (r, g, w) \<Rightarrow> (\<not> isl r, c\<lparr>guard := g\<rparr>, w))"

text \<open>A PCMA frame without the speaker returns before the receive sequence is stored.\<close>

definition client_audio_frame ::
  "'e router_env_scheme \<Rightarrow> client \<Rightarrow> byte list \<Rightarrow> 'w router_scheme \<Rightarrow> bool \<times> client \<times> 'w router_scheme" where
  "client_audio_frame env c payload w =
     (if \<not> allow_talk c then (False, c, w)
      else case jooan_audio_wire_parse (Some payload) of
        Inl _ \<Rightarrow> (False, c, w)
      | Inr frame \<Rightarrow>
          (case jooan_audio_sequence_accept (receive_sequence c) (wf_sequence frame) of
             Inl _ \<Rightarrow> (False, c, w)
           | Inr accepted \<Rightarrow>
               if wf_type frame = PTT_PCMA \<and> \<not> g_acquired (guard c) then (True, c, w)
               else
                 let (ok, c, w) =
                   (if wf_type frame = PTT_ACQUIRE then ptt_acquire env c w
                    else if wf_type frame = PTT_PCMA then
                      (let guard_sequence = seq_next (g_last_sequence (guard c))
                       in if speaker_output_direct w then ptt_speaker env c guard_sequence (wf_payload frame) w
                          else ptt_guard env c guard_sequence (wf_payload frame) w)
                    else if wf_type frame = PTT_RELEASE then client_release_guard env c STATE_RELEASED w
                    else (False, c, w))
                 in if ok then (True, c\<lparr>receive_sequence := accepted\<rparr>, w) else (False, c, w)))"

section \<open>WebSocket frames\<close>

text \<open>The head of the input: too short, a protocol error, or a frame and what follows it.\<close>

datatype ws_next = WsMore | WsBad | WsFrame byte "byte list" "byte list"

definition ws_unmask :: "byte list \<Rightarrow> byte list \<Rightarrow> byte list" where
  "ws_unmask key data = map (\<lambda>i. data ! i XOR key ! (i mod 4)) [0..<length data]"

definition ws_next :: "byte list \<Rightarrow> ws_next" where
  "ws_next buf =
     (if length buf < 2 then WsMore
      else
        let first = buf ! 0; second = buf ! 1; opcode = first AND 0x0f
        in if first AND 0x80 = 0 \<or> first AND 0x70 \<noteq> 0 \<or> second AND 0x80 = 0 then WsBad
           else if second AND 0x7f = 126 \<and> length buf < 4 then WsMore
           else if second AND 0x7f = 127 then WsBad
           else
             let (payload_length, header_length) =
                   (if second AND 0x7f = 126 then (256 * unat (buf ! 2) + unat (buf ! 3), 4)
                    else (unat (second AND 0x7f), 2))
             in if opcode AND 0x08 \<noteq> 0 \<and> 125 < payload_length then WsBad
                else if MAX_WS_PAYLOAD < payload_length then WsBad
                else
                  let total = header_length + 4 + payload_length
                  in if length buf < total then WsMore
                     else WsFrame opcode
                            (ws_unmask (take 4 (drop header_length buf))
                               (take payload_length (drop (header_length + 4) buf)))
                            (drop total buf))"

definition client_ws_frame ::
  "'e router_env_scheme \<Rightarrow> client \<Rightarrow> byte \<Rightarrow> byte list \<Rightarrow> 'w router_scheme \<Rightarrow> bool \<times> client \<times> 'w router_scheme" where
  "client_ws_frame env c opcode payload w =
     (if opcode = 0x2 then client_audio_frame env c payload w
      else if opcode = 0x8 then (False, c, w)
      else if opcode = 0x9 then (case queue_ws_frame c 0xa payload of (ok, c) \<Rightarrow> (ok, c, w))
      else (opcode = 0xa, c, w))"

text \<open>What handling a frame leaves alone.\<close>

definition core :: "client \<Rightarrow> int \<times> client_state \<times> bool \<times> byte list" where
  "core c = (fd c, state c, allow_talk c, input c)"

lemma core_update [simp]:
  "core (c\<lparr>output := a\<rparr>) = core c" "core (c\<lparr>output_offset := n\<rparr>) = core c"
  "core (c\<lparr>receive_sequence := s\<rparr>) = core c" "core (c\<lparr>transmit_sequence := s\<rparr>) = core c"
  "core (c\<lparr>session_id := i\<rparr>) = core c" "core (c\<lparr>talk_deadline := i\<rparr>) = core c"
  "core (c\<lparr>guard := g\<rparr>) = core c"
  by (simp_all add: core_def)

lemma core_queue: "client_queue c d = (r, c') \<Longrightarrow> core c' = core c"
  by (auto simp: client_queue_def Let_def split: if_splits)

lemma core_ws_frame: "queue_ws_frame c op p = (r, c') \<Longrightarrow> core c' = core c"
  by (auto simp: queue_ws_frame_def Let_def split: sum.splits prod.splits if_splits dest!: core_queue)

lemma core_audio_state: "queue_audio_state c st = (r, c') \<Longrightarrow> core c' = core c"
  by (auto simp: queue_audio_state_def Let_def split: sum.splits prod.splits bool.splits dest!: core_ws_frame)

lemma core_release: "client_release_guard env c st w = (r, c', w') \<Longrightarrow> core c' = core c"
  by (auto simp: client_release_guard_def Let_def split: prod.splits dest!: core_audio_state)

lemma core_acquire: "ptt_acquire env c w = (r, c', w') \<Longrightarrow> core c' = core c"
  by (auto simp: ptt_acquire_def Let_def split: prod.splits if_splits sum.splits dest!: core_audio_state)

lemma core_speaker: "ptt_speaker env c s p w = (r, c', w') \<Longrightarrow> core c' = core c"
  by (auto simp: ptt_speaker_def Let_def split: prod.splits if_splits sum.splits)

lemma core_guard: "ptt_guard env c s p w = (r, c', w') \<Longrightarrow> core c' = core c"
  by (auto simp: ptt_guard_def split: prod.splits)

lemma core_audio_frame: "client_audio_frame env c p w = (r, c', w') \<Longrightarrow> core c' = core c"
  by (auto simp: client_audio_frame_def Let_def split: prod.splits if_splits sum.splits
      dest!: core_release core_acquire core_speaker core_guard)

lemma core_client_ws_frame: "client_ws_frame env c op p w = (r, c', w') \<Longrightarrow> core c' = core c"
  by (auto simp: client_ws_frame_def split: prod.splits if_splits dest!: core_audio_frame core_ws_frame)

lemma core_input: "core c = core c' \<Longrightarrow> input c = input c'"
  by (simp add: core_def)

lemma ws_next_shorter: "ws_next buf = WsFrame op p rest \<Longrightarrow> length rest < length buf"
  by (auto simp: ws_next_def Let_def split: if_splits prod.splits)

function client_websocket_frames ::
  "'e router_env_scheme \<Rightarrow> client \<Rightarrow> 'w router_scheme \<Rightarrow> bool \<times> client \<times> 'w router_scheme" where
  "client_websocket_frames env c w =
     (case ws_next (input c) of
        WsMore \<Rightarrow> (True, c, w)
      | WsBad \<Rightarrow> (False, c, w)
      | WsFrame opcode payload rest \<Rightarrow>
          (case client_ws_frame env (c\<lparr>input := rest\<rparr>) opcode payload w of
             (ok, c', w') \<Rightarrow> if ok then client_websocket_frames env c' w' else (False, c', w')))"
  by pat_completeness auto
termination
  by (relation "measure (\<lambda>(env, c, w). length (input c))")
    (auto dest!: ws_next_shorter core_client_ws_frame [OF sym] core_input)

declare client_websocket_frames.simps [simp del]

section \<open>Reading\<close>

text \<open>\<open>None\<close>: \<open>recv\<close> is interrupted for ever.\<close>

partial_function (option) client_receive ::
  "'e router_env_scheme \<Rightarrow> client \<Rightarrow> 'w router_scheme \<Rightarrow> (bool \<times> client \<times> 'w router_scheme) option" where
  "client_receive env c w =
     (if length (input c) = INPUT_CAPACITY then Some (False, c, w)
      else case env_recv env (tick w) (INPUT_CAPACITY - length (input c)) of
        Inr bs \<Rightarrow>
          if bs = [] then Some (False, c, next_tick w)
          else client_receive env (c\<lparr>input := input c @ bs\<rparr>) (next_tick w)
      | Inl e \<Rightarrow>
          if e = EINTR then client_receive env c (next_tick w)
          else Some (e = EAGAIN, c, next_tick w))"

definition client_read ::
  "'e router_env_scheme \<Rightarrow> client \<Rightarrow> 'w router_scheme \<Rightarrow> (bool \<times> client \<times> 'w router_scheme) option" where
  "client_read env c w =
     (case client_receive env c w of
        None \<Rightarrow> None
      | Some (False, c, w) \<Rightarrow> Some (False, c, w)
      | Some (True, c, w) \<Rightarrow>
          if state c = CLIENT_HTTP then
            (case client_handshake c of
               (r, c) \<Rightarrow> if r < 0 then Some (False, c, w)
                          else if r = 0 then Some (True, c, w)
                          else Some (client_websocket_frames env c w))
          else Some (client_websocket_frames env c w))"

section \<open>Frames from the browser\<close>

text \<open>A masked frame as a browser sends it (RFC 6455), final and unfragmented.\<close>

definition ws_masked_frame :: "byte \<Rightarrow> byte list \<Rightarrow> byte list \<Rightarrow> byte list" where
  "ws_masked_frame opcode key payload =
     (0x80 OR opcode) #
     (if length payload \<le> 125 then [0x80 OR of_nat (length payload)]
      else [0x80 OR 126, of_nat (length payload div 256), of_nat (length payload)])
     @ key @ ws_unmask key payload"

lemma length_ws_unmask [simp]: "length (ws_unmask k p) = length p"
  by (simp add: ws_unmask_def)

lemma ws_unmask_twice: "length k = 4 \<Longrightarrow> ws_unmask k (ws_unmask k p) = p"
  by (rule nth_equalityI) (auto simp: ws_unmask_def xor.assoc)

lemma opcode_byte:
  "unat op < 16 \<Longrightarrow> (0x80 OR op) AND 0x0f = (op :: byte) \<and> (0x80 OR op) AND 0x80 \<noteq> 0 \<and> (0x80 OR op) AND 0x70 = 0"
proof -
  have "list_all (\<lambda>op. unat op < 16 \<longrightarrow> (0x80 OR op) AND 0x0f = (op :: byte) \<and> (0x80 OR op) AND 0x80 \<noteq> 0
      \<and> (0x80 OR op) AND 0x70 = 0) all_bytes" by code_simp
  from all_bytes_check [OF this, of op] show "unat op < 16 \<Longrightarrow> ?thesis" by blast
qed

lemma length_byte:
  "unat n < 128 \<Longrightarrow> (0x80 OR n) AND 0x7f = (n :: byte) \<and> (0x80 OR n) AND 0x80 \<noteq> 0"
proof -
  have "list_all (\<lambda>n. unat n < 128 \<longrightarrow> (0x80 OR n) AND 0x7f = (n :: byte) \<and> (0x80 OR n) AND 0x80 \<noteq> 0) all_bytes"
    by code_simp
  from all_bytes_check [OF this, of n] show "unat n < 128 \<Longrightarrow> ?thesis" by blast
qed

lemma control_opcode: "unat (op :: byte) < 16 \<Longrightarrow> op AND 0x08 \<noteq> 0 \<longleftrightarrow> 8 \<le> unat op"
proof -
  have "list_all (\<lambda>op :: byte. unat op < 16 \<longrightarrow> (op AND 0x08 \<noteq> 0 \<longleftrightarrow> 8 \<le> unat op)) all_bytes" by code_simp
  from all_bytes_check [OF this, of op] show "unat op < 16 \<Longrightarrow> ?thesis" by blast
qed

lemma two_byte_length: "n < 65536 \<Longrightarrow> 256 * unat (of_nat (n div 256) :: byte) + unat (of_nat n :: byte) = n"
  by (simp add: unsigned_of_nat take_bit_eq_mod)

lemma wire_max [simp]: "MAX_WS_PAYLOAD = 1040"
  by (simp add: MAX_WS_PAYLOAD_def wire_sizes)

text \<open>The shape of the parser when the two head bytes are good.\<close>

lemma ws_next_short:
  assumes "unat op < 16" "n \<le> 125" "buf = (0x80 OR op) # (0x80 OR of_nat n) # tail"
  shows "ws_next buf =
     (if length tail < 4 + n then WsMore
      else WsFrame op (ws_unmask (take 4 tail) (take n (drop 4 tail))) (drop (4 + n) tail))"
proof -
  have n: "unat (of_nat n :: byte) = n" using assms(2) by (simp add: unsigned_of_nat take_bit_nat_eq_self)
  have l: "(0x80 OR of_nat n) AND 0x7f = (of_nat n :: byte)" "(0x80 OR of_nat n) AND 0x80 \<noteq> (0 :: byte)"
    using length_byte [of "of_nat n"] n assms(2) by simp_all
  have "unat (of_nat n :: byte) \<noteq> unat (126 :: byte)" "unat (of_nat n :: byte) \<noteq> unat (127 :: byte)"
    unfolding n using assms(2) by simp_all
  then have ne: "(of_nat n :: byte) \<noteq> 126" "(of_nat n :: byte) \<noteq> 127" by metis+
  show ?thesis
    unfolding ws_next_def assms(3) Let_def using opcode_byte [OF assms(1)] l ne n assms(2)
    by (simp add: eval_nat_numeral)
qed

lemma ws_next_medium:
  assumes "unat op < 8" "n = 256 * unat a + unat b" "n \<le> 1040" "buf = (0x80 OR op) # (0x80 OR 126) # a # b # tail"
  shows "ws_next buf =
     (if length tail < 4 + n then WsMore
      else WsFrame op (ws_unmask (take 4 tail) (take n (drop 4 tail))) (drop (4 + n) tail))"
proof -
  have "unat op < 16" using assms(1) by simp
  from opcode_byte [OF this] control_opcode [OF this] assms(1)
  have op: "(0x80 OR op) AND 0x0f = op" "(0x80 OR op) AND 0x80 \<noteq> 0" "(0x80 OR op) AND 0x70 = 0" "op AND 0x08 = 0"
    by auto
  have l: "(0x80 OR 126) AND 0x7f = (126 :: byte)" "(0x80 OR 126) AND 0x80 \<noteq> (0 :: byte)" by simp_all
  show ?thesis
    unfolding ws_next_def assms(4) Let_def using op l assms(3) unfolding assms(2)
    by (simp add: eval_nat_numeral)
qed

lemma ws_masked_frame_parts:
  assumes "unat op < 16" "length key = 4" "length payload \<le> 1040" "8 \<le> unat op \<longrightarrow> length payload \<le> 125"
  shows "\<exists>h. (\<forall>tail. ws_next (h @ tail) =
           (if length tail < 4 + length payload then WsMore
            else WsFrame op (ws_unmask (take 4 tail) (take (length payload) (drop 4 tail)))
                   (drop (4 + length payload) tail))) \<and>
       (\<forall>n < length h. ws_next (take n h) = WsMore) \<and>
       ws_masked_frame op key payload = h @ key @ ws_unmask key payload"
proof (cases "length payload \<le> 125")
  case True
  let ?h = "[0x80 OR op, 0x80 OR of_nat (length payload)]"
  have "ws_next (take n ?h) = WsMore" if "n < length ?h" for n
    using that by (simp add: ws_next_def)
  with True show ?thesis
    using ws_next_short [OF assms(1) True refl]
    by (intro exI [of _ ?h]) (simp add: ws_masked_frame_def)
next
  case False
  let ?n = "length payload"
  let ?h = "[0x80 OR op, 0x80 OR 126, of_nat (?n div 256), of_nat ?n] :: byte list"
  have op: "unat op < 8" using False assms(4) by linarith
  have n: "?n = 256 * unat (of_nat (?n div 256) :: byte) + unat (of_nat ?n :: byte)"
    using two_byte_length [of ?n] assms(3) by simp
  have "ws_next (take n ?h) = WsMore" if "n < length ?h" for n
  proof -
    from op have "unat op < 16" by simp
    from opcode_byte [OF this] that show ?thesis
      by (auto simp: ws_next_def Let_def take_Cons' less_Suc_eq)
  qed
  with False show ?thesis
    using ws_next_medium [OF op n assms(3) refl]
    by (intro exI [of _ ?h]) (simp add: ws_masked_frame_def)
qed

text \<open>
  C25. Whatever masked frame of an allowed size a browser sends, the parser gives back its
  opcode and payload and leaves exactly the bytes after it; and on any proper beginning of
  it, it asks for more, so it does not matter how the stream is cut into reads.
\<close>

theorem ws_frame_parsed:
  assumes "unat op < 16" "length key = 4" "length payload \<le> 1040" "8 \<le> unat op \<longrightarrow> length payload \<le> 125"
  shows "ws_next (ws_masked_frame op key payload @ rest) = WsFrame op payload rest \<and>
    (n < length (ws_masked_frame op key payload) \<longrightarrow> ws_next (take n (ws_masked_frame op key payload)) = WsMore)"
proof -
  from ws_masked_frame_parts [OF assms] obtain h where
    h: "\<And>tail. ws_next (h @ tail) =
           (if length tail < 4 + length payload then WsMore
            else WsFrame op (ws_unmask (take 4 tail) (take (length payload) (drop 4 tail)))
                   (drop (4 + length payload) tail))"
      "\<And>n. n < length h \<Longrightarrow> ws_next (take n h) = WsMore"
      "ws_masked_frame op key payload = h @ key @ ws_unmask key payload" by blast
  have "ws_next (take n (h @ key @ ws_unmask key payload)) = WsMore"
    if "n < length (h @ key @ ws_unmask key payload)"
  proof (cases "n < length h")
    case False
    then show ?thesis using that assms(2) h(1) [of "take (n - length h) (key @ ws_unmask key payload)"]
      by simp
  qed (simp add: h(2))
  moreover have "ws_next (h @ key @ ws_unmask key payload @ rest) = WsFrame op payload rest"
    using assms(2) by (simp add: h(1) ws_unmask_twice)
  ultimately show ?thesis by (simp add: h(3))
qed

lemma ws_frame_parsed_witness:
  "ws_next (ws_masked_frame 2 [1, 2, 3, 4] (replicate 336 0x55) @ [9]) = WsFrame 2 (replicate 336 0x55) [9] \<and>
   ws_next (take 200 (ws_masked_frame 2 [1, 2, 3, 4] (replicate 336 0x55))) = WsMore"
  using ws_frame_parsed [of 2 "[1, 2, 3, 4]" "replicate 336 0x55" "[9]" 200]
  by (simp add: ws_masked_frame_def)

lemma ws_next_more_bound: "ws_next buf = WsMore \<Longrightarrow> length buf < 1048"
proof -
  have b: "unat (x AND 0x7f :: byte) < 128" for x
  proof -
    have "list_all (\<lambda>x :: byte. unat (x AND 0x7f) < 128) all_bytes" by code_simp
    from all_bytes_check [OF this] show ?thesis .
  qed
  show "ws_next buf = WsMore \<Longrightarrow> length buf < 1048"
    using b [of "buf ! 1"]
    by (auto simp: ws_next_def Let_def split: if_splits)
qed

section \<open>Buffers and the talk session stay well-formed\<close>

definition buffers_ok :: "client \<Rightarrow> bool" where
  "buffers_ok c \<longleftrightarrow> length (input c) \<le> INPUT_CAPACITY \<and>
     output_offset c + length (output c) \<le> OUTPUT_CAPACITY"

definition talk_ok :: "client \<Rightarrow> bool" where
  "talk_ok c \<longleftrightarrow> (g_acquired (guard c) \<longrightarrow>
     0 \<le> g_fd (guard c) \<and> g_session_id (guard c) = session_id c \<and> session_id c \<noteq> 0)"

definition client_wf :: "client \<Rightarrow> bool" where
  "client_wf c \<longleftrightarrow> buffers_ok c \<and> talk_ok c"

lemma client_wf_init [simp]: "client_wf client_init"
  by (simp add: client_wf_def buffers_ok_def talk_ok_def client_init_def guard_zero_def)

lemma client_close_init [simp]: "fst (client_close env c w) = client_init"
  by (simp add: client_close_def Let_def split: prod.splits)

lemma client_queue_eq:
  assumes "buffers_ok c"
  shows "client_queue c d =
     (let c' = (if output_offset c \<noteq> 0 \<and> OUTPUT_CAPACITY < output_offset c + length (output c) + length d
                then c\<lparr>output_offset := 0\<rparr> else c)
      in if OUTPUT_CAPACITY < length (output c) + length d then (Inl ENOBUFS, c')
         else (Inr (), c'\<lparr>output := output c @ d\<rparr>))"
  using assms by (auto simp: client_queue_def buffers_ok_def Let_def)

lemma client_queue_wf:
  assumes "client_queue c d = (r, c')" "client_wf c"
  shows "client_wf c'" and "guard c' = guard c"
    and "r = Inr () \<Longrightarrow> output c' = output c @ d"
    and "(r = Inr ()) = (length (output c) + length d \<le> OUTPUT_CAPACITY)"
  using assms client_queue_eq [of c d]
  by (auto simp: client_wf_def buffers_ok_def talk_ok_def Let_def split: if_splits)

definition server_frame :: "byte \<Rightarrow> byte list \<Rightarrow> byte list" where
  "server_frame opcode payload =
     (0x80 OR opcode) #
     (if length payload \<le> 125 then [of_nat (length payload)]
      else [126, of_nat (length payload div 256), of_nat (length payload)]) @ payload"

lemma queue_ws_frame_wf:
  assumes "queue_ws_frame c op p = (r, c')" "client_wf c"
  shows "client_wf c'" and "guard c' = guard c"
    and "r \<Longrightarrow> output c' = output c @ server_frame op p"
proof -
  define h where "h = (0x80 OR op) # (if length p \<le> 125 then [of_nat (length p)]
      else [126, of_nat (length p div 256), of_nat (length p) :: byte])"
  obtain r1 c1 where 1: "client_queue c h = (r1, c1)" by fastforce
  obtain r2 c2 where 2: "client_queue c1 p = (r2, c2)" by fastforce
  note q1 = client_queue_wf [OF 1 assms(2)] and q2 = client_queue_wf [OF 2 client_queue_wf(1) [OF 1 assms(2)]]
  have e: "(r, c') = (if 65535 < length p then (False, c) else if isl r1 then (False, c1)
      else if p = [] then (True, c1) else (\<not> isl r2, c2))"
    using assms(1) unfolding queue_ws_frame_def Let_def h_def [symmetric] 1
    by (cases r1) (auto simp: 2 split: if_splits)
  have n: "\<not> isl r \<Longrightarrow> r = Inr ()" for r :: "unit result" by (cases r) auto
  show "client_wf c'" "guard c' = guard c"
    using e q1(1,2) q2(1,2) assms(2) by (simp_all split: if_splits)
  show "output c' = output c @ server_frame op p" if r
    using that e q1(3) q2(3) n by (auto simp: server_frame_def h_def split: if_splits)
qed

lemma queue_audio_state_wf:
  assumes "queue_audio_state c st = (r, c')" "client_wf c"
  shows "client_wf c'" and "guard c' = guard c"
proof -
  have u: "client_wf c1 \<Longrightarrow> client_wf (c1\<lparr>transmit_sequence := s\<rparr>)" for c1 s
    by (simp add: client_wf_def buffers_ok_def talk_ok_def)
  show "client_wf c'" "guard c' = guard c"
    using assms by (auto simp: queue_audio_state_def Let_def split: sum.splits prod.splits bool.splits
        intro!: u dest: queue_ws_frame_wf)
qed

lemma guard_close_zero [simp]: "fst (jooan_audio_guard_close env g w) = guard_zero"
  by (simp add: jooan_audio_guard_close_def split: prod.splits)

lemma guard_close_result: "jooan_audio_guard_close env g w = (g', w') \<Longrightarrow> g' = guard_zero"
  by (metis fst_conv guard_close_zero)

lemma guard_zero_not_acquired [simp]: "\<not> g_acquired guard_zero"
  by (simp add: guard_zero_def)

lemma wf_idle: "buffers_ok c \<Longrightarrow> \<not> g_acquired (guard c) \<Longrightarrow> client_wf c"
  by (simp add: client_wf_def talk_ok_def)

lemma client_wf_talk_deadline: "client_wf (c\<lparr>talk_deadline := d\<rparr>) = client_wf c"
  by (simp add: client_wf_def buffers_ok_def talk_ok_def)

lemma client_release_guard_wf:
  assumes "client_release_guard env c st w = (r, c', w')" "client_wf c"
  shows "client_wf c'" and "guard c' = guard_zero" 
proof -
  obtain ok g1 w1 where 1: "(if g_acquired (guard c)
            then (case jooan_audio_guard_release env (guard c) 0 w of (r, g, w) \<Rightarrow> (\<not> isl r, g, w))
            else (True, guard c, w)) = (ok, g1, w1)" by (metis prod_cases3)
  obtain w2 where 2: "jooan_audio_guard_close env g1 w1 = (guard_zero, w2)"
    by (metis guard_close_zero prod.collapse)
  obtain q c2 where 3: "queue_audio_state (c\<lparr>guard := guard_zero, talk_deadline := 0\<rparr>) st = (q, c2)" by fastforce
  have "c' = c2" using assms(1) by (simp add: client_release_guard_def 1 2 3)
  moreover have "client_wf (c\<lparr>guard := guard_zero, talk_deadline := 0\<rparr>)"
    using assms(2) by (simp add: client_wf_def buffers_ok_def talk_ok_def)
  ultimately show "client_wf c'" "guard c' = guard_zero" using queue_audio_state_wf [OF 3] by simp_all
qed

lemma new_session_id_nonzero: "new_session_id env w = (sid, w') \<Longrightarrow> sid \<noteq> 0"
  by (auto simp: new_session_id_def Let_def split: option.splits if_splits prod.splits)

lemma guard_open_ok:
  "jooan_audio_guard_open env g p sid w = (r, g', w') \<Longrightarrow> \<not> g_acquired g \<Longrightarrow> \<not> g_acquired g'"
  "jooan_audio_guard_open env g p sid w = (Inr (), g', w') \<Longrightarrow> 0 \<le> g_fd g' \<and> g_session_id g' = sid"
  by (auto simp: jooan_audio_guard_open_def Let_def split: option.splits if_splits sum.splits)

lemma guard_ops_frame:
  "jooan_audio_guard_acquire env g s w = (r, g', w') \<Longrightarrow> g_fd g' = g_fd g \<and> g_session_id g' = g_session_id g"
  "jooan_audio_guard_acquire env g s w = (Inl e, g', w') \<Longrightarrow> g' = g"
  "jooan_audio_guard_pcma env g s p n w = (r, g', w') \<Longrightarrow>
     g_fd g' = g_fd g \<and> g_session_id g' = g_session_id g \<and> g_acquired g' = g_acquired g"
  "jooan_audio_guard_speaker_lease env g s w = (r, g', w') \<Longrightarrow>
     g_fd g' = g_fd g \<and> g_session_id g' = g_session_id g \<and> g_acquired g' = g_acquired g"
  by (auto simp: jooan_audio_guard_acquire_def jooan_audio_guard_pcma_def
      jooan_audio_guard_speaker_lease_def split: if_splits sum.splits prod.splits)

lemma client_wf_fields [simp]:
  "buffers_ok (c\<lparr>guard := g\<rparr>) = buffers_ok c" "buffers_ok (c\<lparr>session_id := i\<rparr>) = buffers_ok c"
  "buffers_ok (c\<lparr>talk_deadline := d\<rparr>) = buffers_ok c" "client_wf (c\<lparr>receive_sequence := s\<rparr>) = client_wf c"
  "client_wf (c\<lparr>transmit_sequence := s\<rparr>) = client_wf c" "client_wf (c\<lparr>talk_deadline := d\<rparr>) = client_wf c"
  "client_wf (c\<lparr>allow_talk := b\<rparr>) = client_wf c" "client_wf (c\<lparr>state := s'\<rparr>) = client_wf c"
  by (simp_all add: client_wf_def buffers_ok_def talk_ok_def)

lemma ptt_acquire_wf:
  assumes "ptt_acquire env c w = (r, c', w')" "client_wf c"
  shows "client_wf c'"
proof (cases "g_acquired (guard c)")
  case True
  with assms show ?thesis by (simp add: ptt_acquire_def)
next
  case False
  obtain g1 w1 where 1: "(if 0 \<le> g_fd (guard c) then jooan_audio_guard_close env (guard c) w else (guard c, w)) = (g1, w1)"
    by fastforce
  have g1: "\<not> g_acquired g1" using 1 False by (auto split: if_splits dest: guard_close_result)
  obtain sid w2 where 2: "new_session_id env w1 = (sid, w2)" by fastforce
  obtain r3 g3 w3 where 3: "jooan_audio_guard_open env g1 (Some (guard_socket_path w2)) sid w2 = (r3, g3, w3)"
    by (metis prod_cases3)
  obtain r4 g4 w4 where 4: "jooan_audio_guard_acquire env g3 1 w3 = (r4, g4, w4)" by (metis prod_cases3)
  obtain now w5 where 5: "monotonic_milliseconds env w4 = (now, w5)" by fastforce
  let ?c = "c\<lparr>session_id := sid\<rparr>"
  obtain q c6 where 6: "queue_audio_state (?c\<lparr>guard := g4, talk_deadline := now + ucast (maximum_talk_ms w5)\<rparr>) STATE_ACQUIRED
      = (q, c6)" by fastforce
  have b: "buffers_ok c" using assms(2) by (simp add: client_wf_def)
  note g3 = guard_open_ok(1) [OF 3 g1]
  have c': "c' = (if isl r3 then ?c\<lparr>guard := g3\<rparr> else if isl r4 then ?c\<lparr>guard := g4\<rparr> else c6)"
    using assms(1) False unfolding ptt_acquire_def Let_def 1 2 3 4 5 6 prod.case
    by (cases r3; cases r4; simp)
  show ?thesis
  proof (cases "isl r3 \<or> isl r4")
    case True
    then show ?thesis using c' b g3 guard_ops_frame(2) [of env g3 1 w3 _ g4 w4] 4
      by (cases r4) (auto intro!: wf_idle)
  next
    case False
    then have "r3 = Inr ()" by (cases r3) auto
    with 3 have "0 \<le> g_fd g3 \<and> g_session_id g3 = sid" by (auto dest: guard_open_ok(2))
    then have "client_wf (?c\<lparr>guard := g4, talk_deadline := now + ucast (maximum_talk_ms w5)\<rparr>)"
      using guard_ops_frame(1) [OF 4] b new_session_id_nonzero [OF 2]
      by (simp add: client_wf_def talk_ok_def)
    with False c' show ?thesis using queue_audio_state_wf(1) [OF 6] by simp
  qed
qed

lemma ptt_speaker_wf: "ptt_speaker env c s p w = (r, c', w') \<Longrightarrow> client_wf c \<Longrightarrow> client_wf c'"
  by (auto simp: ptt_speaker_def client_wf_def talk_ok_def split: prod.splits sum.splits if_splits
      dest!: guard_ops_frame(4))

lemma ptt_guard_wf: "ptt_guard env c s p w = (r, c', w') \<Longrightarrow> client_wf c \<Longrightarrow> client_wf c'"
  by (auto simp: ptt_guard_def client_wf_def talk_ok_def split: prod.splits dest!: guard_ops_frame(3))

lemma client_audio_frame_wf: "client_audio_frame env c p w = (r, c', w') \<Longrightarrow> client_wf c \<Longrightarrow> client_wf c'"
  by (auto simp: client_audio_frame_def Let_def split: sum.splits if_splits prod.splits
      dest: ptt_acquire_wf ptt_speaker_wf ptt_guard_wf client_release_guard_wf(1))

lemma client_ws_frame_wf: "client_ws_frame env c op p w = (r, c', w') \<Longrightarrow> client_wf c \<Longrightarrow> client_wf c'"
  by (auto simp: client_ws_frame_def split: if_splits prod.splits
      dest: client_audio_frame_wf queue_ws_frame_wf(1))

lemma client_wf_shorter: "client_wf c \<Longrightarrow> length rest \<le> length (input c) \<Longrightarrow> client_wf (c\<lparr>input := rest\<rparr>)"
  by (simp add: client_wf_def buffers_ok_def talk_ok_def)

lemma client_websocket_frames_wf:
  assumes "client_wf c" and "client_websocket_frames env c w = (r, c', w')"
  shows "client_wf c' \<and> (r \<longrightarrow> length (input c') < 1048)"
  using assms
proof (induction env c w arbitrary: r c' w' rule: client_websocket_frames.induct)
  case (1 env c w)
  note res = "1.prems"(2) [unfolded client_websocket_frames.simps [of env c w]]
  show ?case
  proof (cases "ws_next (input c)")
    case WsMore
    then show ?thesis using res "1.prems"(1) ws_next_more_bound by auto
  next
    case WsBad
    then show ?thesis using res "1.prems"(1) by auto
  next
    case (WsFrame op p rest)
    obtain ok c1 w1 where f: "client_ws_frame env (c\<lparr>input := rest\<rparr>) op p w = (ok, c1, w1)" by (metis prod_cases3)
    have wf: "client_wf c1"
      by (rule client_ws_frame_wf [OF f client_wf_shorter [OF "1.prems"(1)]])
        (use ws_next_shorter [OF WsFrame] in simp)
    show ?thesis
    proof (cases ok)
      case True
      from "1.IH" [OF WsFrame f [symmetric] refl True wf] res WsFrame f True show ?thesis by simp
    next
      case False
      then show ?thesis using res WsFrame f wf by simp
    qed
  qed
qed

lemma client_handshake_wf:
  assumes "client_handshake c = (r, c')" "client_wf c"
  shows "client_wf c'"
proof -
  have a: "client_wf (c\<lparr>allow_talk := True\<rparr>)" using assms(2) by simp
  have d: "client_wf c2 \<Longrightarrow> client_wf (c2\<lparr>input := drop n (input c2), state := CLIENT_OPEN\<rparr>)" for c2 n
    by (auto simp: client_wf_def buffers_ok_def talk_ok_def)
  show ?thesis
    using assms(1) a assms(2)
    by (auto simp: client_handshake_def Let_def split: if_splits handshake.splits prod.splits sum.splits
        intro!: d dest: client_queue_wf(1) [OF _ a])
qed

section \<open>Sending and receiving\<close>

text \<open>What \<open>send\<close> and \<open>recv\<close> promise: never more than was asked for.\<close>

definition socket_ok :: "'e router_env_scheme \<Rightarrow> bool" where
  "socket_ok env \<longleftrightarrow> (\<forall>n d m. env_send env n d = Inr m \<longrightarrow> m \<le> length d) \<and>
     (\<forall>n k bs. env_recv env n k = Inr bs \<longrightarrow> length bs \<le> k)"

lemma client_flush_result:
  assumes "client_flush env c w = Some y" "socket_ok env" "client_wf c"
  shows "case y of (r, c', w') \<Rightarrow> client_wf c' \<and> core c' = core c \<and> guard c' = guard c \<and>
    (\<exists>chunks. sent w' = sent w @ map (Pair (fd c)) chunks \<and> output c = concat chunks @ output c')"
  using assms
proof (induction rule: client_flush.raw_induct [rotated, consumes 1, case_names step])
  case (step flush env c w y)
  have stop: ?case if "y = (r, c', w')" "client_wf c'" "core c' = core c" "guard c' = guard c"
      "sent w' = sent w" "output c' = output c" for r c' w'
    using that by (auto intro!: exI [of _ "[]"])
  show ?case
  proof (cases "output c = []")
    case True
    then have y: "y = (True, c\<lparr>output_offset := 0\<rparr>, w)" using step(2) by simp
    show ?thesis by (rule stop [OF y]) (use step(4) in \<open>auto simp: client_wf_def buffers_ok_def talk_ok_def\<close>)
  next
    case False
    show ?thesis
    proof (cases "env_send env (tick w) (output c)")
      case (Inl e)
      then show ?thesis using step(2-4) step(1) [of env c "next_tick w" y] False
        by (cases "e = EINTR") (auto simp: next_tick_def intro!: stop split: if_splits)
    next
      case (Inr m)
      show ?thesis
      proof (cases "m = 0")
        case True
        then show ?thesis using step(2-4) Inr False by (auto simp: next_tick_def intro!: stop)
      next
        case m: False
        have le: "m \<le> length (output c)" using step(3) Inr by (auto simp: socket_ok_def)
        let ?c = "c\<lparr>output_offset := output_offset c + m, output := drop m (output c)\<rparr>"
        let ?w = "next_tick w\<lparr>sent := sent w @ [(fd c, take m (output c))]\<rparr>"
        have wf: "client_wf ?c" using step(4) le by (auto simp: client_wf_def buffers_ok_def talk_ok_def)
        have "flush env ?c ?w = Some y" using step(2) Inr False m by simp
        from step(1) [OF this step(3) wf] obtain r c' w' chunks where
          r: "y = (r, c', w')" "client_wf c'" "core c' = core c" "guard c' = guard c"
            "sent w' = sent w @ [(fd c, take m (output c))] @ map (Pair (fd c)) chunks"
            "drop m (output c) = concat chunks @ output c'"
          by (auto split: prod.splits)
        have "output c = take m (output c) @ concat chunks @ output c'"
          using r(6) by (metis append_take_drop_id)
        with r show ?thesis by (auto intro!: exI [of _ "take m (output c) # chunks"])
      qed
    qed
  qed
qed

lemma client_receive_result:
  assumes "client_receive env c w = Some y" "socket_ok env" "client_wf c"
  shows "case y of (r, c', w') \<Rightarrow> client_wf c' \<and> state c' = state c \<and> fd c' = fd c \<and> guard c' = guard c \<and>
    output c' = output c \<and> (\<exists>bs. input c' = input c @ bs) \<and> sent w' = sent w"
  using assms
proof (induction rule: client_receive.raw_induct [rotated, consumes 1, case_names step])
  case (step receive env c w y)
  show ?case
  proof (cases "length (input c) = INPUT_CAPACITY")
    case True
    then show ?thesis using step(2-4) by auto
  next
    case False
    show ?thesis
    proof (cases "env_recv env (tick w) (INPUT_CAPACITY - length (input c))")
      case (Inl e)
      then show ?thesis using step(2-4) step(1) [of env c "next_tick w" y] False
        by (cases "e = EINTR") (auto simp: next_tick_def)
    next
      case (Inr bs)
      have "length bs \<le> INPUT_CAPACITY - length (input c)" using step(3) Inr by (auto simp: socket_ok_def)
      then have wf: "client_wf (c\<lparr>input := input c @ bs\<rparr>)"
        using step(4) by (auto simp: client_wf_def buffers_ok_def talk_ok_def)
      show ?thesis
      proof (cases "bs = []")
        case True
        then show ?thesis using step(2-4) Inr False by (auto simp: next_tick_def)
      next
        case bs: False
        then have "receive env (c\<lparr>input := input c @ bs\<rparr>) (next_tick w) = Some y" using step(2) Inr False by simp
        from step(1) [OF this step(3) wf] show ?thesis by (auto simp: next_tick_def split: prod.splits)
      qed
    qed
  qed
qed

lemma client_read_wf:
  assumes "client_read env c w = Some (r, c', w')" "socket_ok env" "client_wf c"
  shows "client_wf c' \<and> (r \<and> state c' = CLIENT_OPEN \<longrightarrow> length (input c') < 1048)"
proof -
  obtain r1 c1 w1 where 1: "client_receive env c w = Some (r1, c1, w1)"
    using assms(1) by (auto simp: client_read_def split: option.splits prod.splits)
  have wf1: "client_wf c1" using client_receive_result [OF 1 assms(2,3)] by simp
  obtain h c2 where 2: "client_handshake c1 = (h, c2)" by fastforce
  have wf2: "client_wf c2" by (rule client_handshake_wf [OF 2 wf1])
  have http: "h = 0 \<Longrightarrow> c2 = c1"
    using 2 by (auto simp: client_handshake_def Let_def split: handshake.splits if_splits prod.splits sum.splits)
  show ?thesis
    using assms(1) 1 2 http wf1 wf2 client_websocket_frames_wf [OF wf2, of env w1]
      client_websocket_frames_wf [OF wf1, of env w1]
    by (auto simp: client_read_def split: if_splits bool.splits)
qed

lemma client_websocket_frames_fd: "client_websocket_frames env c w = (r, c', w') \<Longrightarrow> fd c' = fd c"
proof (induction env c w arbitrary: r c' w' rule: client_websocket_frames.induct)
  case (1 env c w)
  note res = "1.prems" [unfolded client_websocket_frames.simps [of env c w]]
  show ?case
  proof (cases "ws_next (input c)")
    case (WsFrame op p rest)
    obtain ok c1 w1 where f: "client_ws_frame env (c\<lparr>input := rest\<rparr>) op p w = (ok, c1, w1)" by (metis prod_cases3)
    have "fd c1 = fd c" using core_client_ws_frame [OF f] by (simp add: core_def)
    with "1.IH" [OF WsFrame f [symmetric] refl, of r c' w'] res WsFrame f show ?thesis
      by (cases ok) simp_all
  qed (use res in auto)
qed

lemma client_queue_fd: "client_queue c d = (r, c') \<Longrightarrow> fd c' = fd c"
  by (auto simp: client_queue_def Let_def split: if_splits)

lemma client_handshake_fd:
  assumes "client_handshake c = (r, c')"
  shows "fd c' = fd c"
proof (cases "parse_handshake (chars_of (takeWhile (\<lambda>b. b \<noteq> 0) (input c)))")
  case (HsOk accept n)
  obtain q c2 where q: "client_queue (c\<lparr>allow_talk := True\<rparr>) (bytes_of (handshake_response accept)) = (q, c2)"
    by fastforce
  have "fd c2 = fd c" using client_queue_fd [OF q] by simp
  note e = assms [unfolded client_handshake_def HsOk Let_def handshake.case q]
  show ?thesis
  proof (cases "INPUT_CAPACITY + 1 \<le> length (input c)")
    case True
    then show ?thesis using e by simp
  next
    case False
    note e = e [unfolded if_not_P [OF False]]
    show ?thesis
    proof (cases "512 \<le> length (bytes_of (handshake_response accept))")
      case True
      then show ?thesis using e by (simp only: if_True prod.inject) auto
    next
      case F2: False
      have u: "fd (c2\<lparr>input := x, state := y\<rparr>) = fd c2" for x y by simp
      from F2 e \<open>fd c2 = fd c\<close> show ?thesis
        by (cases q) (auto simp only: if_False prod.case sum.case prod.inject u)
    qed
  qed
qed (use assms in \<open>auto simp: client_handshake_def split: if_splits\<close>)

lemma client_read_fd:
  assumes "client_read env c w = Some (r, c', w')" "socket_ok env" "client_wf c"
  shows "fd c' = fd c"
proof -
  obtain r1 c1 w1 where 1: "client_receive env c w = Some (r1, c1, w1)"
    using assms(1) by (auto simp: client_read_def split: option.splits prod.splits)
  have f1: "fd c1 = fd c" using client_receive_result [OF 1 assms(2,3)] by simp
  obtain h c2 where 2: "client_handshake c1 = (h, c2)" by fastforce
  have f2: "fd c2 = fd c" using client_handshake_fd [OF 2] f1 by simp
  obtain r3 c3 w3 where 3: "client_websocket_frames env c2 w1 = (r3, c3, w3)" by (metis prod_cases3)
  have f3: "fd c3 = fd c" using client_websocket_frames_fd [OF 3] f2 by simp
  obtain r4 c4 w4 where 4: "client_websocket_frames env c1 w1 = (r4, c4, w4)" by (metis prod_cases3)
  have f4: "fd c4 = fd c" using client_websocket_frames_fd [OF 4] f1 by simp
  show ?thesis
    using assms(1) 1 2 3 4 f1 f2 f3 f4 by (auto simp: client_read_def split: if_splits bool.splits)
qed

text \<open>A kernel that does not interrupt the calls for ever.\<close>

definition lets_through :: "'e router_env_scheme \<Rightarrow> bool" where
  "lets_through env \<longleftrightarrow> (\<forall>n. \<exists>m\<ge>n. \<forall>d k. env_send env m d \<noteq> Inl EINTR \<and> env_recv env m k \<noteq> Inl EINTR)"

lemma lets_through_from:
  "lets_through env \<Longrightarrow> \<exists>k. (\<forall>d. env_send env (n + k) d \<noteq> Inl EINTR) \<and> (\<forall>j. env_recv env (n + k) j \<noteq> Inl EINTR)"
  unfolding lets_through_def by (metis le_iff_add)

lemma client_flush_returns:
  assumes "lets_through env" "socket_ok env"
  shows "\<exists>y. client_flush env c w = Some y"
proof (induction "length (output c)" arbitrary: c w rule: less_induct)
  case less
  obtain k where "\<forall>d. env_send env (tick w + k) d \<noteq> Inl EINTR" using lets_through_from [OF assms(1)] by blast
  then show ?case
  proof (induction k arbitrary: w)
    case 0
    show ?case
    proof (cases "env_send env (tick w) (output c)")
      case (Inl e)
      with 0 show ?thesis by (auto simp: client_flush.simps [of env c w])
    next
      case (Inr m)
      show ?thesis
      proof (cases "0 < m \<and> output c \<noteq> []")
        case True
        then show ?thesis using Inr less [of "c\<lparr>output_offset := output_offset c + m, output := drop m (output c)\<rparr>"]
          by (auto simp: client_flush.simps [of env c w])
      next
        case False
        with Inr show ?thesis by (auto simp: client_flush.simps [of env c w])
      qed
    qed
  next
    case (Suc k)
    show ?case
    proof (cases "env_send env (tick w) (output c)")
      case (Inl e)
      with Suc show ?thesis by (auto simp: client_flush.simps [of env c w] next_tick_def)
    next
      case (Inr m)
      show ?thesis
      proof (cases "0 < m \<and> output c \<noteq> []")
        case True
        then show ?thesis using Inr less [of "c\<lparr>output_offset := output_offset c + m, output := drop m (output c)\<rparr>"]
          by (auto simp: client_flush.simps [of env c w])
      next
        case False
        with Inr show ?thesis by (auto simp: client_flush.simps [of env c w])
      qed
    qed
  qed
qed

lemma client_receive_returns:
  fixes w :: "'w router_scheme"
  assumes "lets_through env" "socket_ok env" "length (input c) \<le> INPUT_CAPACITY"
  shows "\<exists>y. client_receive env c w = Some y"
  using assms(3)
proof (induction "INPUT_CAPACITY - length (input c)" arbitrary: c w rule: less_induct)
  case less
  have data: "\<exists>y. client_receive env c w = Some y"
    if "env_recv env (tick w) (INPUT_CAPACITY - length (input c)) = Inr bs" for w :: "'w router_scheme" and bs
  proof (cases "length (input c) = INPUT_CAPACITY \<or> bs = []")
    case True
    with that show ?thesis by (auto simp: client_receive.simps [of env c w])
  next
    case False
    have "length bs \<le> INPUT_CAPACITY - length (input c)" using assms(2) that by (auto simp: socket_ok_def)
    moreover have "0 < length bs" using False by simp
    ultimately have "INPUT_CAPACITY - length (input c @ bs) < INPUT_CAPACITY - length (input c)"
      "length (input c @ bs) \<le> INPUT_CAPACITY"
      using less.prems False unfolding length_append by arith+
    with False less.hyps [of "c\<lparr>input := input c @ bs\<rparr>" "next_tick w"] that show ?thesis
      by (auto simp: client_receive.simps [of env c w])
  qed
  obtain k where "\<forall>j. env_recv env (tick w + k) j \<noteq> Inl EINTR" using lets_through_from [OF assms(1)] by blast
  then show ?case
  proof (induction k arbitrary: w)
    case 0
    show ?case
    proof (cases "env_recv env (tick w) (INPUT_CAPACITY - length (input c))")
      case (Inl e)
      with 0 show ?thesis by (auto simp: client_receive.simps [of env c w])
    qed (rule data)
  next
    case (Suc k)
    show ?case
    proof (cases "env_recv env (tick w) (INPUT_CAPACITY - length (input c))")
      case (Inl e)
      with Suc show ?thesis by (auto simp: client_receive.simps [of env c w] next_tick_def)
    qed (rule data)
  qed
qed

text \<open>
  C26. Flushing a client returns, and sends the queued bytes in order and each once: what
  the socket took, in chunks of any sizes, followed by what is still queued, is what was
  queued. The queue stays within its buffer.
\<close>

theorem client_flush_in_order:
  assumes "lets_through env" "socket_ok env" "client_wf c"
  shows "\<exists>r c' w' chunks. client_flush env c w = Some (r, c', w') \<and> client_wf c' \<and> core c' = core c \<and>
    sent w' = sent w @ map (Pair (fd c)) chunks \<and> output c = concat chunks @ output c'"
proof -
  obtain r c' w' where 1: "client_flush env c w = Some (r, c', w')"
    using client_flush_returns [OF assms(1,2)] by (metis prod_cases3)
  from client_flush_result [OF 1 assms(2,3)] 1 show ?thesis by auto
qed

text \<open>
  Reading a client returns, and leaves its buffers within their sizes and its talk
  session consistent. If the client stays open, less than one frame of the largest size
  is kept, so input never piles up from one read to the next.
\<close>

theorem client_read_bounds:
  assumes "lets_through env" "socket_ok env" "client_wf c"
  shows "\<exists>r c' w'. client_read env c w = Some (r, c', w') \<and> client_wf c' \<and>
    (r \<and> state c' = CLIENT_OPEN \<longrightarrow> length (input c') < 1048)"
proof -
  have "length (input c) \<le> INPUT_CAPACITY" using assms(3) by (simp add: client_wf_def buffers_ok_def)
  from client_receive_returns [OF assms(1,2) this] obtain r1 c1 w1 where
    "client_receive env c w = Some (r1, c1, w1)" by (metis prod_cases3)
  then have "client_read env c w \<noteq> None" by (auto simp: client_read_def simp del: not_None_eq split: prod.splits bool.splits)
  then obtain r c' w' where 2: "client_read env c w = Some (r, c', w')" by auto
  from client_read_wf [OF 2 assms(2,3)] 2 show ?thesis by blast
qed

definition quiet_env :: router_env where
  "quiet_env = \<lparr> env_sendto = (\<lambda>n d. Inr (length d)), env_socket = (\<lambda>n. Inr 9),
     env_send = (\<lambda>n d. if n = 0 then Inl EINTR else Inr (min 3 (length d))),
     env_recv = (\<lambda>n k. if n = 0 \<and> 4 \<le> k then Inr [0x47, 0x45, 0x54, 0x20] else Inl EAGAIN),
     env_urandom = (\<lambda>n. Some 77), env_time_pid_stack = (\<lambda>n. (0, 0, 0)),
     env_monotonic = (\<lambda>n. Some (5, 0)), env_play = (\<lambda>n pcm. (None, 640)),
     env_amplifier = (\<lambda>n. Some (CHR ''0'')) \<rparr>"

definition start_router :: router where
  "start_router = \<lparr> tick = 0, datagrams = [], closed = [], sent = [], played = [],
     speaker_output_direct = False, speaker_output_descriptor = -1, speaker_talk_logged = False,
     guard_socket_path = ''/tmp/g'', maximum_talk_ms = 60000 \<rparr>"

lemma quiet_env_ok: "lets_through quiet_env" "socket_ok quiet_env" "reliable quiet_env"
proof -
  show "lets_through quiet_env" unfolding lets_through_def
  proof
    fix n :: nat
    show "\<exists>m\<ge>n. \<forall>d k. env_send quiet_env m d \<noteq> Inl EINTR \<and> env_recv quiet_env m k \<noteq> Inl EINTR"
      by (rule exI [of _ "Suc n"]) (simp add: quiet_env_def)
  qed
  show "socket_ok quiet_env" "reliable quiet_env"
    by (auto simp: socket_ok_def reliable_def quiet_env_def split: if_splits)
qed

lemma client_flush_in_order_witness:
  "\<exists>r c' w' chunks. client_flush quiet_env (client_init\<lparr>output := [1, 2, 3, 4]\<rparr>) start_router = Some (r, c', w') \<and>
     client_wf c' \<and> core c' = core (client_init\<lparr>output := [1, 2, 3, 4]\<rparr>) \<and>
     sent w' = sent start_router @ map (Pair (fd (client_init\<lparr>output := [1, 2, 3, 4]\<rparr>))) chunks \<and>
     output (client_init\<lparr>output := [1, 2, 3, 4]\<rparr>) = concat chunks @ output c'"
  by (rule client_flush_in_order [OF quiet_env_ok(1,2)])
    (simp add: client_wf_def buffers_ok_def talk_ok_def client_init_def guard_zero_def OUTPUT_CAPACITY_def)

lemma client_read_bounds_witness:
  "\<exists>r c' w'. client_read quiet_env client_init start_router = Some (r, c', w') \<and> client_wf c'"
  using client_read_bounds [OF quiet_env_ok(1,2) client_wf_init, of start_router] by blast

section \<open>Push to talk, as the browser sees it\<close>

text \<open>
  While a client talks, a packet of 320 samples it sends reaches the guard unchanged,
  as the next datagram of the client's own talk session.
\<close>

theorem talk_packet_forwarded:
  assumes "reliable env" "client_wf c" "allow_talk c" "g_acquired (guard c)" "\<not> speaker_output_direct w"
    and "jooan_audio_wire_parse (Some payload) = Inr frame" "wf_type frame = PTT_PCMA"
    and "length (wf_payload frame) = 320"
    and "jooan_audio_sequence_accept (receive_sequence c) (wf_sequence frame) = Inr accepted"
  shows "\<exists>c' w' d g. client_audio_frame env c payload w = (True, c', w') \<and> datagrams w' = datagrams w @ [d] \<and>
    jooan_audio_guard_datagram_parse (Some d) = Inr g \<and> gf_type g = PTT_PCMA \<and>
    gf_session_id g = session_id c \<and> gf_sequence g = seq_next (g_last_sequence (guard c)) \<and>
    gf_payload g = wf_payload frame \<and> receive_sequence c' = accepted \<and> g_acquired (guard c')"
proof -
  let ?s = "seq_next (g_last_sequence (guard c))" and ?p = "wf_payload frame"
  have t: "0 \<le> g_fd (guard c)" "g_session_id (guard c) = session_id c" "session_id c \<noteq> 0"
    using assms(2,4) by (simp_all add: client_wf_def talk_ok_def)
  have u: "unat (320 :: u16) = 320" by simp
  let ?f = "\<lparr> gf_type = PTT_PCMA, gf_session_id = session_id c, gf_sequence = ?s, gf_payload = ?p,
      gf_payload_length = 320 \<rparr>"
  obtain d where d: "jagd_build ?f = Inr d"
    using t(3) seq_next_nonzero assms(8)
    by (simp add: jagd_build_eq valid_guard_payload_def wire_sizes)
  then have b: "jooan_audio_guard_datagram_build 344 PTT_PCMA (session_id c) ?s (Some ?p) 320 = Inr d"
    using assms(8) by (auto simp: jagd_build_def jooan_audio_guard_datagram_build_def wire_sizes Let_def
        split: if_splits)
  have "send_guard env (guard c) PTT_PCMA ?s (Some ?p) 320 w = (Inr (), next_tick w\<lparr>datagrams := datagrams w @ [d]\<rparr>)"
    using t seq_next_nonzero b assms(1)
    by (simp add: send_guard_def wire_sizes reliable_def next_tick_def)
  moreover have "jooan_audio_sequence_accept (g_last_sequence (guard c)) ?s = Inr ?s"
    by (simp add: jooan_audio_sequence_accept_def seq_next_nonzero)
  ultimately have "jooan_audio_guard_pcma env (guard c) ?s (Some ?p) 320 w =
      (Inr (), (guard c)\<lparr>g_last_sequence := ?s\<rparr>, next_tick w\<lparr>datagrams := datagrams w @ [d]\<rparr>)"
    using assms(4) by (simp add: jooan_audio_guard_pcma_def wire_sizes)
  then show ?thesis
    using assms(3-9) jagd_parse_build [OF d]
    by (intro exI [of _ "c\<lparr>guard := (guard c)\<lparr>g_last_sequence := ?s\<rparr>, receive_sequence := accepted\<rparr>"]
        exI [of _ "next_tick w\<lparr>datagrams := datagrams w @ [d]\<rparr>"] exI [of _ d] exI [of _ ?f])
      (simp add: client_audio_frame_def ptt_guard_def)
qed

text \<open>
  C27. A talk packet that arrives when the client no longer holds the speaker (its lease
  expired, say) is dropped, but its sequence number is not stored, so the browser's next
  frame, numbered correctly, is refused and ends the connection.
\<close>

theorem late_packet_breaks_sequence:
  assumes "allow_talk c" "\<not> g_acquired (guard c)"
    and "jooan_audio_wire_parse (Some p1) = Inr f1" "wf_type f1 = PTT_PCMA"
    and "jooan_audio_sequence_accept (receive_sequence c) (wf_sequence f1) = Inr accepted"
    and "jooan_audio_wire_parse (Some p2) = Inr f2" "wf_sequence f2 = seq_next (wf_sequence f1)"
  shows "client_audio_frame env c p1 w = (True, c, w) \<and> client_audio_frame env c p2 w = (False, c, w)"
proof -
  have a: "wf_sequence f1 = seq_next (receive_sequence c)" "wf_sequence f1 \<noteq> 0"
    using assms(5) by (auto simp: jooan_audio_sequence_accept_def split: if_splits)
  have "seq_next s \<noteq> s" for s
    by (simp add: seq_next_def)
  then have "jooan_audio_sequence_accept (receive_sequence c) (wf_sequence f2) = Inl EPROTO"
    using a assms(7) seq_next_nonzero by (simp add: jooan_audio_sequence_accept_def)
  then show ?thesis using assms(1-6) by (simp add: client_audio_frame_def)
qed

definition sample_talk_frame :: "u32 \<Rightarrow> jooan_audio_wire_frame" where
  "sample_talk_frame s = \<lparr> wf_type = PTT_PCMA, wf_flags = 0, wf_sequence = s,
     wf_payload = replicate 320 0xd5, wf_payload_length = 320 \<rparr>"

lemma sample_talk_frame_parses:
  "s \<noteq> 0 \<Longrightarrow> \<exists>p. jooan_audio_wire_parse (Some p) = Inr (sample_talk_frame s)"
proof -
  assume s: "s \<noteq> 0"
  have "unat (320 :: u16) = 320" by simp
  let ?p = "jaud_header PTT_PCMA 0 s 320 @ replicate 320 0xd5"
  have "jooan_audio_wire_parse (Some ?p) = Inr (sample_talk_frame s)"
    using s by (simp add: jooan_audio_wire_parse_def wire_sizes wire_simps valid_type_def sample_talk_frame_def)
  then show ?thesis ..
qed

lemma late_packet_breaks_sequence_witness:
  "\<exists>p1 p2. client_audio_frame quiet_env (client_init\<lparr>allow_talk := True\<rparr>) p1 start_router
       = (True, client_init\<lparr>allow_talk := True\<rparr>, start_router) \<and>
     client_audio_frame quiet_env (client_init\<lparr>allow_talk := True\<rparr>) p2 start_router
       = (False, client_init\<lparr>allow_talk := True\<rparr>, start_router)"
proof -
  obtain p1 p2 where "jooan_audio_wire_parse (Some p1) = Inr (sample_talk_frame 1)"
    "jooan_audio_wire_parse (Some p2) = Inr (sample_talk_frame 2)"
    using sample_talk_frame_parses [of 1] sample_talk_frame_parses [of 2] by auto
  then have "client_audio_frame quiet_env (client_init\<lparr>allow_talk := True\<rparr>) p1 start_router
       = (True, client_init\<lparr>allow_talk := True\<rparr>, start_router) \<and>
     client_audio_frame quiet_env (client_init\<lparr>allow_talk := True\<rparr>) p2 start_router
       = (False, client_init\<lparr>allow_talk := True\<rparr>, start_router)"
    by (intro late_packet_breaks_sequence [of _ p1 "sample_talk_frame 1" 1 p2 "sample_talk_frame 2"])
      (simp_all add: sample_talk_frame_def client_init_def jooan_audio_sequence_accept_def seq_next_def)
  then show ?thesis by blast
qed

lemma talk_packet_forwarded_witness:
  "\<exists>p c' w' d. client_audio_frame quiet_env
     (client_init\<lparr>allow_talk := True, session_id := 7, guard := guard_zero\<lparr>g_fd := 4, g_session_id := 7, g_acquired := True\<rparr>\<rparr>)
     p start_router = (True, c', w') \<and> datagrams w' = [d]"
proof -
  obtain p where p: "jooan_audio_wire_parse (Some p) = Inr (sample_talk_frame 1)"
    using sample_talk_frame_parses [of 1] by auto
  show ?thesis
    using talk_packet_forwarded [OF quiet_env_ok(3), of "client_init\<lparr>allow_talk := True, session_id := 7,
        guard := guard_zero\<lparr>g_fd := 4, g_session_id := 7, g_acquired := True\<rparr>\<rparr>" start_router p "sample_talk_frame 1" 1] p
    by (simp add: sample_talk_frame_def client_init_def guard_zero_def start_router_def client_wf_def
        buffers_ok_def talk_ok_def jooan_audio_sequence_accept_def seq_next_def) blast
qed

end
