(* ===== verification/Audio_Router.thy ===== *)
theory Audio_Router
  imports Router_Client
begin

text \<open>
  The audio router as a process (\<open>src/audio/audio_router.c\<close>): the microphone capture
  thread and the filter on its datagrams, the table of clients with broadcast, talk leases
  and accepting, the iterations of the main loop, and the command line.
\<close>

section \<open>Microphone datagrams\<close>

definition JOOAN_AUDIO_MIC_PAYLOAD_SIZE :: nat where "JOOAN_AUDIO_MIC_PAYLOAD_SIZE = 320"
definition JOOAN_AUDIO_MIC_HEADER_SIZE :: nat where "JOOAN_AUDIO_MIC_HEADER_SIZE = 12"
definition JOOAN_AUDIO_MIC_DATAGRAM_SIZE :: nat where
  "JOOAN_AUDIO_MIC_DATAGRAM_SIZE = JOOAN_AUDIO_MIC_HEADER_SIZE + JOOAN_AUDIO_MIC_PAYLOAD_SIZE"
definition jagm_magic :: "byte list" where "jagm_magic = [0x4a, 0x41, 0x47, 0x4d]"

lemmas mic_sizes = JOOAN_AUDIO_MIC_PAYLOAD_SIZE_def JOOAN_AUDIO_MIC_HEADER_SIZE_def
  JOOAN_AUDIO_MIC_DATAGRAM_SIZE_def

text \<open>The datagram is handed to \<open>sendto\<close>, whose failure the capture ignores.\<close>

definition microphone_capture_emit :: "u32 \<Rightarrow> byte list \<Rightarrow> byte list \<times> u32" where
  "microphone_capture_emit sequence pcma =
     (let sequence = seq_next sequence
      in (jagm_magic @ [1, of_nat JOOAN_AUDIO_MIC_HEADER_SIZE] @
            write_be16 (of_nat JOOAN_AUDIO_MIC_PAYLOAD_SIZE) @ write_be32 sequence @
            take JOOAN_AUDIO_MIC_PAYLOAD_SIZE pcma, sequence))"

text \<open>
  The loop over the samples of one buffer of the driver: the packet being filled, the last
  sequence number and the datagrams emitted.
\<close>

fun capture_samples :: "i16 list \<Rightarrow> byte list \<times> u32 \<Rightarrow> (byte list \<times> u32) \<times> byte list list" where
  "capture_samples [] (pcma, sequence) = ((pcma, sequence), [])"
| "capture_samples (s # ss) (pcma, sequence) =
     (let pcma = pcma @ [jooan_alaw_encode_sample s]
      in if length pcma = JOOAN_AUDIO_MIC_PAYLOAD_SIZE
         then (case microphone_capture_emit sequence pcma of
                 (d, sequence) \<Rightarrow> (case capture_samples ss ([], sequence) of
                   (st, ds) \<Rightarrow> (st, d # ds)))
         else capture_samples ss (pcma, sequence))"

text \<open>
  What the driver gives: a buffer of some bytes or a failure, which reopens the device
  with an empty packet and goes on with the sequence.
\<close>

datatype capture_event = CaptureBuffer "i16 list" | CaptureFailed

fun microphone_capture :: "capture_event list \<Rightarrow> byte list \<times> u32 \<Rightarrow> byte list list" where
  "microphone_capture [] st = []"
| "microphone_capture (CaptureFailed # es) (pcma, sequence) = microphone_capture es ([], sequence)"
| "microphone_capture (CaptureBuffer pcm # es) (pcma, sequence) =
     (if pcm = [] \<or> 2 * JOOAN_AUDIO_SAMPLES_PER_PACKET < length pcm
      then microphone_capture es ([], sequence)
      else case capture_samples pcm (pcma, sequence) of (st, ds) \<Rightarrow> ds @ microphone_capture es st)"

text \<open>The filter of the main loop: the sequence number it stores and the samples it passes on.\<close>

definition mic_accept :: "u32 \<Rightarrow> byte list \<Rightarrow> (u32 \<times> byte list) option" where
  "mic_accept microphone_sequence datagram =
     (if length datagram \<noteq> JOOAN_AUDIO_MIC_DATAGRAM_SIZE \<or> take 4 datagram \<noteq> jagm_magic
        \<or> datagram ! 4 \<noteq> 1 \<or> unat (datagram ! 5) \<noteq> JOOAN_AUDIO_MIC_HEADER_SIZE
        \<or> unat (read_be16 datagram 6) \<noteq> JOOAN_AUDIO_MIC_PAYLOAD_SIZE then None
      else
        let sequence = read_be32 datagram 8
        in if sequence = 0 \<or>
             microphone_sequence \<noteq> 0 \<and> sequence \<noteq> 1 \<and> sint (sequence - microphone_sequence) \<le> 0
           then None
           else Some (sequence, drop JOOAN_AUDIO_MIC_HEADER_SIZE datagram))"

section \<open>The clients\<close>

definition MAX_CLIENTS :: nat where "MAX_CLIENTS = 16"

record main_env = router_env +
  env_accept :: "nat \<Rightarrow> errno + nat"
  env_nonblocking :: "nat \<Rightarrow> bool"
  env_mic_recv :: "nat \<Rightarrow> errno + byte list"

fun map_clients :: "(client \<Rightarrow> 'w \<Rightarrow> client \<times> 'w) \<Rightarrow> client list \<Rightarrow> 'w \<Rightarrow> client list \<times> 'w" where
  "map_clients f [] w = ([], w)"
| "map_clients f (c # cs) w =
     (case f c w of (c, w) \<Rightarrow> (case map_clients f cs w of (cs, w) \<Rightarrow> (c # cs, w)))"

definition broadcast_one :: "'e router_env_scheme \<Rightarrow> byte list \<Rightarrow> client \<Rightarrow> 'w router_scheme \<Rightarrow> client \<times> 'w router_scheme" where
  "broadcast_one env pcma c w =
     (if fd c < 0 \<or> state c \<noteq> CLIENT_OPEN then (c, w)
      else
        let sequence = seq_next (transmit_sequence c)
        in case jooan_audio_wire_build (JOOAN_AUDIO_WIRE_HEADER_SIZE + JOOAN_AUDIO_WIRE_MAX_PAYLOAD)
                  MIC_PCMA 0 sequence (Some pcma) (of_nat (length pcma)) of
             Inl _ \<Rightarrow> client_close env c w
           | Inr frame \<Rightarrow>
               (case queue_ws_frame c 0x2 frame of
                  (False, c) \<Rightarrow> client_close env c w
                | (True, c) \<Rightarrow> (c\<lparr>transmit_sequence := sequence\<rparr>, w)))"

definition broadcast_microphone ::
  "'e router_env_scheme \<Rightarrow> client list \<Rightarrow> byte list \<Rightarrow> 'w router_scheme \<Rightarrow> bool \<times> client list \<times> 'w router_scheme" where
  "broadcast_microphone env cs pcma w =
     (if pcma = [] \<or> JOOAN_AUDIO_WIRE_MAX_PAYLOAD < length pcma then (False, cs, w)
      else (True, map_clients (broadcast_one env pcma) cs w))"

definition expire_one :: "'e router_env_scheme \<Rightarrow> u64 \<Rightarrow> client \<Rightarrow> 'w router_scheme \<Rightarrow> client \<times> 'w router_scheme" where
  "expire_one env now c w =
     (if fd c < 0 \<or> \<not> g_acquired (guard c) \<or> talk_deadline c = 0 \<or> now < talk_deadline c then (c, w)
      else case client_release_guard env c STATE_LEASE_EXPIRED w of
             (ok, c, w) \<Rightarrow> if ok then (c, w) else client_close env c w)"

definition expire_talk_leases ::
  "'e router_env_scheme \<Rightarrow> client list \<Rightarrow> 'w router_scheme \<Rightarrow> client list \<times> 'w router_scheme" where
  "expire_talk_leases env cs w =
     (case monotonic_milliseconds env w of (now, w) \<Rightarrow> map_clients (expire_one env now) cs w)"

fun free_slot :: "client list \<Rightarrow> nat option" where
  "free_slot [] = None"
| "free_slot (c # cs) = (if fd c < 0 then Some 0 else map_option Suc (free_slot cs))"

definition add_client ::
  "'e main_env_scheme \<Rightarrow> client list \<Rightarrow> 'w router_scheme \<Rightarrow> bool \<times> client list \<times> 'w router_scheme" where
  "add_client env cs w =
     (case env_accept env (tick w) of
        Inl e \<Rightarrow> (e = EAGAIN \<or> e = EINTR, cs, next_tick w)
      | Inr n \<Rightarrow>
          let accepted = int n; w = next_tick w
          in if \<not> env_nonblocking env (tick w) then (False, cs, (next_tick w)\<lparr>closed := closed w @ [accepted]\<rparr>)
             else
               let w = next_tick w
               in case free_slot cs of
                    Some i \<Rightarrow>
                      (case new_session_id env w of
                         (sid, w) \<Rightarrow> (True, cs[i := (cs ! i)\<lparr>fd := accepted, session_id := sid\<rparr>], w))
                  | None \<Rightarrow> (True, cs, w\<lparr>closed := closed w @ [accepted]\<rparr>))"

section \<open>The main loop\<close>

record client_events =
  ev_error :: bool
  ev_in :: bool
  ev_out :: bool

record poll_result =
  p_listener :: bool
  p_microphone :: bool
  p_clients :: "client_events list"

record main_state =
  clients :: "client list"
  microphone_sequence :: u32

text \<open>Datagrams are taken until \<open>recv\<close> fails or gives an empty one; \<open>None\<close>: it never does.\<close>

partial_function (option) drain_microphone ::
  "'e main_env_scheme \<Rightarrow> main_state \<Rightarrow> 'w router_scheme \<Rightarrow> (main_state \<times> 'w router_scheme) option" where
  "drain_microphone env m w =
     (case env_mic_recv env (tick w) of
        Inl e \<Rightarrow> Some (m, next_tick w)
      | Inr datagram \<Rightarrow>
          if datagram = [] then Some (m, next_tick w)
          else case mic_accept (microphone_sequence m) datagram of
                 None \<Rightarrow> drain_microphone env m (next_tick w)
               | Some (sequence, pcma) \<Rightarrow>
                   (case broadcast_microphone env (clients m) pcma (next_tick w) of
                      (_, cs, w) \<Rightarrow>
                        drain_microphone env \<lparr> clients = cs, microphone_sequence = sequence \<rparr> w))"

definition service_client ::
  "'e main_env_scheme \<Rightarrow> client_events \<Rightarrow> client \<Rightarrow> 'w router_scheme \<Rightarrow> (client \<times> 'w router_scheme) option" where
  "service_client env ev c w =
     (if fd c < 0 \<or> \<not> (ev_error ev \<or> ev_in ev \<or> ev_out ev) then Some (c, w)
      else if ev_error ev then Some (client_close env c w)
      else
        case (if ev_in ev then client_read env c w else Some (True, c, w)) of
          None \<Rightarrow> None
        | Some (False, c, w) \<Rightarrow> Some (client_close env c w)
        | Some (True, c, w) \<Rightarrow>
            if 0 \<le> fd c \<and> ev_out ev then
              (case client_flush env c w of
                 None \<Rightarrow> None
               | Some (False, c, w) \<Rightarrow> Some (client_close env c w)
               | Some (True, c, w) \<Rightarrow> Some (c, w))
            else Some (c, w))"

fun service_clients ::
  "'e main_env_scheme \<Rightarrow> client_events list \<Rightarrow> client list \<Rightarrow> 'w router_scheme
     \<Rightarrow> (client list \<times> 'w router_scheme) option" where
  "service_clients env (ev # evs) (c # cs) w =
     (case service_client env ev c w of
        None \<Rightarrow> None
      | Some (c, w) \<Rightarrow>
          (case service_clients env evs cs w of
             None \<Rightarrow> None
           | Some (cs, w) \<Rightarrow> Some (c # cs, w)))"
| "service_clients env _ cs w = Some (cs, w)"

text \<open>
  One round of \<open>while (!stopping)\<close>, given what \<open>poll\<close> reports; a failed \<open>poll\<close> is the
  round that stops after the leases.
\<close>

definition router_round ::
  "'e main_env_scheme \<Rightarrow> poll_result option \<Rightarrow> main_state \<Rightarrow> 'w router_scheme
     \<Rightarrow> (main_state \<times> 'w router_scheme) option" where
  "router_round env ready m w =
     (case expire_talk_leases env (clients m) w of
        (cs, w) \<Rightarrow>
          (case ready of
             None \<Rightarrow> Some (m\<lparr>clients := cs\<rparr>, w)
           | Some p \<Rightarrow>
               let (cs, w) = (if p_listener p then snd (add_client env cs w) else (cs, w))
               in case (if p_microphone p then drain_microphone env (m\<lparr>clients := cs\<rparr>) w
                        else Some (m\<lparr>clients := cs\<rparr>, w)) of
                    None \<Rightarrow> None
                  | Some (m, w) \<Rightarrow>
                      (case service_clients env (p_clients p) (clients m) w of
                         None \<Rightarrow> None
                       | Some (cs, w) \<Rightarrow> Some (m\<lparr>clients := cs\<rparr>, w))))"

definition router_start :: main_state where
  "router_start = \<lparr> clients = replicate MAX_CLIENTS client_init, microphone_sequence = 0 \<rparr>"

definition router_shutdown ::
  "'e main_env_scheme \<Rightarrow> main_state \<Rightarrow> 'w router_scheme \<Rightarrow> client list \<times> 'w router_scheme" where
  "router_shutdown env m w = map_clients (client_close env) (clients m) w"

text \<open>The states the router can be in, whatever the kernel answers and the clients send.\<close>

inductive router_reaches :: "'e main_env_scheme \<Rightarrow> router \<Rightarrow> main_state \<Rightarrow> router \<Rightarrow> bool"
  for env w0 where
  start: "router_reaches env w0 router_start w0"
| round: "router_reaches env w0 m w \<Longrightarrow> router_round env ready m w = Some (m', w')
            \<Longrightarrow> router_reaches env w0 m' w'"

inductive_cases router_reachesE: "router_reaches env w0 m w"

section \<open>The command line\<close>

definition JOOAN_AUDIO_MAX_TALK_MS :: nat where "JOOAN_AUDIO_MAX_TALK_MS = 60000"

record options =
  o_ws_path :: string
  o_mic_path :: string
  o_mic_driver :: string
  o_speaker_driver :: string
  o_guard_path :: string
  o_max_talk_ms :: u32

fun parse_options :: "string list \<Rightarrow> options \<Rightarrow> options option" where
  "parse_options [] ops = Some ops"
| "parse_options [_] ops = None"
| "parse_options (name # val # rest) ops =
     (if name = ''--ws-socket'' then parse_options rest (ops\<lparr>o_ws_path := val\<rparr>)
      else if name = ''--mic-socket'' then parse_options rest (ops\<lparr>o_mic_path := val\<rparr>)
      else if name = ''--mic-driver'' then parse_options rest (ops\<lparr>o_mic_driver := val\<rparr>)
      else if name = ''--speaker-driver'' then parse_options rest (ops\<lparr>o_speaker_driver := val\<rparr>)
      else if name = ''--guard-socket'' then parse_options rest (ops\<lparr>o_guard_path := val\<rparr>)
      else if name = ''--max-talk-ms'' then
        (case c_strtoul val of
           (v, end_text) \<Rightarrow>
             if end_text \<noteq> [] \<or> v = 0 \<or> JOOAN_AUDIO_MAX_TALK_MS < v then None
             else parse_options rest (ops\<lparr>o_max_talk_ms := of_nat v\<rparr>))
      else None)"

text \<open>The options before the command line: the environment's values where they are not empty.\<close>

definition env_or :: "string option \<Rightarrow> string \<Rightarrow> string" where
  "env_or v d = (case v of None \<Rightarrow> d | Some s \<Rightarrow> if s = [] then d else s)"

definition default_options :: "(string \<Rightarrow> string option) \<Rightarrow> options" where
  "default_options getenv =
     \<lparr> o_ws_path = env_or (getenv ''JOAN_AUDIO_WS_SOCKET'') ''/run/jooan-local/audio-ws.sock'',
       o_mic_path = env_or (getenv ''JOAN_AUDIO_MIC_SOCKET'') ''/run/jooan-local/mic.sock'',
       o_mic_driver = env_or (getenv ''JOAN_AUDIO_MIC_DRIVER'') ''/dev/dsp'',
       o_speaker_driver = env_or (getenv ''JOAN_AUDIO_SPEAKER_DRIVER'') ''/dev/dsp'',
       o_guard_path = env_or (getenv ''JOAN_GUARD_TALKBACK_SOCKET'') ''/tmp/jooan-guard-talkback.sock'',
       o_max_talk_ms = of_nat JOOAN_AUDIO_MAX_TALK_MS \<rparr>"

section \<open>Every reachable table of clients is well-formed\<close>

text \<open>
  A slot of the table: sound buffers and talk session, nothing left behind in a free
  slot, and less than one frame waiting in an open one.
\<close>

definition slot_ok :: "client \<Rightarrow> bool" where
  "slot_ok c \<longleftrightarrow> client_wf c \<and> (fd c < 0 \<longrightarrow> c = client_init) \<and>
     (state c = CLIENT_OPEN \<longrightarrow> length (input c) < 1048)"

definition table_ok :: "client list \<Rightarrow> bool" where
  "table_ok cs \<longleftrightarrow> length cs = MAX_CLIENTS \<and> list_all slot_ok cs"

lemma slot_ok_init [simp]: "slot_ok client_init"
  by (simp add: slot_ok_def) (simp add: client_init_def)

lemma slot_ok_core: "core c' = core c \<Longrightarrow> client_wf c' \<Longrightarrow> slot_ok c \<Longrightarrow> 0 \<le> fd c \<Longrightarrow> slot_ok c'"
  by (auto simp: slot_ok_def core_def)

lemma slot_ok_close: "client_close env c w = (c', w') \<Longrightarrow> slot_ok c'"
  by (metis client_close_init fst_conv slot_ok_init)

lemma map_clients_length: "map_clients f cs w = (cs', w') \<Longrightarrow> length cs' = length cs"
  by (induction cs arbitrary: w cs' w') (auto split: prod.splits)

lemma map_clients_all:
  "map_clients f cs w = (cs', w') \<Longrightarrow> list_all P cs \<Longrightarrow> (\<And>c w c' w'. f c w = (c', w') \<Longrightarrow> P c \<Longrightarrow> Q c') \<Longrightarrow>
     list_all Q cs'"
  by (induction cs arbitrary: w cs' w') (auto split: prod.splits)

lemma map_clients_table:
  "map_clients f cs w = (cs', w') \<Longrightarrow> table_ok cs \<Longrightarrow>
     (\<And>c w c' w'. f c w = (c', w') \<Longrightarrow> slot_ok c \<Longrightarrow> slot_ok c') \<Longrightarrow> table_ok cs'"
  unfolding table_ok_def using map_clients_length map_clients_all by metis

lemma broadcast_one_ok: "broadcast_one env pcma c w = (c', w') \<Longrightarrow> slot_ok c \<Longrightarrow> slot_ok c'"
proof -
  assume b: "broadcast_one env pcma c w = (c', w')" and c: "slot_ok c"
  have q: "slot_ok (c1\<lparr>transmit_sequence := s\<rparr>)"
    if "queue_ws_frame c op p = (True, c1)" "0 \<le> fd c" for op p c1 s
    by (rule slot_ok_core [OF _ _ c that(2)])
      (use queue_ws_frame_wf(1) [OF that(1)] core_ws_frame [OF that(1)] c in \<open>simp_all add: slot_ok_def\<close>)
  show "slot_ok c'"
    using b c q
    by (auto simp: broadcast_one_def Let_def split: if_splits sum.splits prod.splits bool.splits
        dest: slot_ok_close)
qed

lemma broadcast_microphone_ok:
  "broadcast_microphone env cs pcma w = (r, cs', w') \<Longrightarrow> table_ok cs \<Longrightarrow> table_ok cs'"
  by (auto simp: broadcast_microphone_def split: if_splits dest: map_clients_table [OF _ _ broadcast_one_ok])

lemma slot_ok_wf: "slot_ok c \<Longrightarrow> client_wf c"
  by (simp add: slot_ok_def)

lemma slot_ok_release:
  "client_release_guard env c st w = (r, c', w') \<Longrightarrow> slot_ok c \<Longrightarrow> 0 \<le> fd c \<Longrightarrow> slot_ok c'"
  by (rule slot_ok_core [OF core_release client_release_guard_wf(1)]) (auto intro: slot_ok_wf)

lemma expire_one_ok: "expire_one env now c w = (c', w') \<Longrightarrow> slot_ok c \<Longrightarrow> slot_ok c'"
  by (auto simp: expire_one_def not_less split: if_splits prod.splits intro: slot_ok_release slot_ok_close)

lemma expire_talk_leases_ok: "expire_talk_leases env cs w = (cs', w') \<Longrightarrow> table_ok cs \<Longrightarrow> table_ok cs'"
  by (auto simp: expire_talk_leases_def split: prod.splits dest: map_clients_table [OF _ _ expire_one_ok])

lemma free_slot_Some: "free_slot cs = Some i \<Longrightarrow> i < length cs \<and> fd (cs ! i) < 0"
  by (induction cs arbitrary: i) (auto split: if_splits)

lemma add_client_ok: "add_client env cs w = (r, cs', w') \<Longrightarrow> table_ok cs \<Longrightarrow> table_ok cs'"
proof -
  assume a: "add_client env cs w = (r, cs', w')" and t: "table_ok cs"
  have s: "slot_ok ((cs ! i)\<lparr>fd := int n, session_id := sid\<rparr>)" if "free_slot cs = Some i" for i n sid
  proof -
    from free_slot_Some [OF that] t have "cs ! i = client_init"
      by (auto simp: table_ok_def list_all_length slot_ok_def)
    then show ?thesis
      by (simp add: slot_ok_def client_wf_def buffers_ok_def talk_ok_def client_init_def guard_zero_def)
  qed
  have u: "table_ok (cs[i := c])" if "slot_ok c" for i c
    using t that set_update_subset_insert [of cs i c] by (auto simp: table_ok_def list_all_iff)
  show "table_ok cs'"
    using a t s u by (auto simp: add_client_def Let_def split: sum.splits if_splits option.splits prod.splits)
qed

lemma drain_microphone_ok:
  assumes "drain_microphone env m w = Some y" "table_ok (clients m)"
  shows "table_ok (clients (fst y))"
  using assms
proof (induction rule: drain_microphone.raw_induct [rotated, consumes 1, case_names step])
  case (step drain env m w y)
  show ?case
  proof (cases "env_mic_recv env (tick w)")
    case (Inl e)
    then show ?thesis using step(2,3) by auto
  next
    case (Inr d)
    show ?thesis
    proof (cases "d = [] \<or> mic_accept (microphone_sequence m) d = None")
      case True
      then show ?thesis using step(2,3) step(1) [of env m "next_tick w" y] Inr by (auto split: if_splits)
    next
      case False
      then obtain s pcma where s: "mic_accept (microphone_sequence m) d = Some (s, pcma)" by auto
      obtain r cs w1 where b: "broadcast_microphone env (clients m) pcma (next_tick w) = (r, cs, w1)"
        by (metis prod_cases3)
      have "drain env \<lparr> clients = cs, microphone_sequence = s \<rparr> w1 = Some y"
        using step(2) Inr False s b by simp
      from step(1) [OF this] broadcast_microphone_ok [OF b step(3)] show ?thesis by simp
    qed
  qed
qed

lemma service_client_ok:
  assumes "service_client env ev c w = Some (c', w')" "socket_ok env" "slot_ok c"
  shows "slot_ok c'"
proof (cases "fd c < 0 \<or> \<not> (ev_error ev \<or> ev_in ev \<or> ev_out ev) \<or> ev_error ev")
  case True
  then show ?thesis using assms slot_ok_close
    by (auto simp: service_client_def split: if_splits)
next
  case False
  let ?read = "if ev_in ev then client_read env c w else Some (True, c, w)"
  obtain r1 c1 w1 where r: "?read = Some (r1, c1, w1)"
    using assms(1) False by (cases ?read) (auto simp: service_client_def)
  show ?thesis
  proof (cases r1)
    case False': False
    then show ?thesis using assms(1) False r slot_ok_close by (auto simp: service_client_def)
  next
    case True
    have c1: "slot_ok c1" "0 \<le> fd c1"
    proof -
      have "client_wf c1 \<and> (state c1 = CLIENT_OPEN \<longrightarrow> length (input c1) < 1048) \<and> fd c1 = fd c"
      proof (cases "ev_in ev")
        case in_ev: True
        then have "client_read env c w = Some (True, c1, w1)" using r True by simp
        then show ?thesis using client_read_wf [OF _ assms(2)] client_read_fd [OF _ assms(2)] slot_ok_wf [OF assms(3)] by blast
      next
        case False
        then show ?thesis using r assms(3) by (simp add: slot_ok_def)
      qed
      then show "slot_ok c1" "0 \<le> fd c1" using False by (auto simp: slot_ok_def)
    qed
    show ?thesis
    proof (cases "ev_out ev")
      case out: True
      obtain r2 c2 w2 where f: "client_flush env c1 w1 = Some (r2, c2, w2)"
        using assms(1) False r True out c1(2) by (auto simp: service_client_def split: option.splits)
      have "slot_ok c2"
        using client_flush_result [OF f assms(2) slot_ok_wf [OF c1(1)]] slot_ok_core [OF _ _ c1] by simp
      with assms(1) False r True out c1(2) f slot_ok_close show ?thesis
        by (auto simp: service_client_def split: bool.splits)
    next
      case False'': False
      then show ?thesis using assms(1) False r True c1 by (auto simp: service_client_def)
    qed
  qed
qed

lemma service_clients_ok:
  "service_clients env evs cs w = Some (cs', w') \<Longrightarrow> socket_ok env \<Longrightarrow> list_all slot_ok cs \<Longrightarrow>
     length cs' = length cs \<and> list_all slot_ok cs'"
proof (induction env evs cs w arbitrary: cs' w' rule: service_clients.induct)
  case (1 env ev evs c cs w)
  then show ?case by (auto split: option.splits) (rule service_client_ok; assumption)
qed auto

lemma router_round_ok:
  assumes "router_round env ready m w = Some (m', w')" "socket_ok env" "table_ok (clients m)"
  shows "table_ok (clients m')"
proof -
  obtain cs1 w1 where 1: "expire_talk_leases env (clients m) w = (cs1, w1)" by fastforce
  have t1: "table_ok cs1" by (rule expire_talk_leases_ok [OF 1 assms(3)])
  show ?thesis
  proof (cases ready)
    case None
    then show ?thesis using assms(1) 1 t1 by (auto simp: router_round_def)
  next
    case (Some p)
    obtain cs2 w2 where 2: "(if p_listener p then snd (add_client env cs1 w1) else (cs1, w1)) = (cs2, w2)"
      by fastforce
    have t2: "table_ok cs2"
      using 2 t1 add_client_ok [of env cs1 w1 _ cs2 w2] by (cases "add_client env cs1 w1") (auto split: if_splits)
    let ?mic = "if p_microphone p then drain_microphone env (m\<lparr>clients := cs2\<rparr>) w2 else Some (m\<lparr>clients := cs2\<rparr>, w2)"
    obtain m3 w3 where 3: "?mic = Some (m3, w3)"
      using assms(1) unfolding router_round_def 1 Some Let_def 2 prod.case option.case
      by (cases ?mic) (auto split: option.splits)
    have t3: "table_ok (clients m3)"
      using 3 t2 drain_microphone_ok [of env "m\<lparr>clients := cs2\<rparr>" w2 "(m3, w3)"] by (auto split: if_splits)
    obtain cs4 w4 where 4: "service_clients env (p_clients p) (clients m3) w3 = Some (cs4, w4)" and m': "m' = m3\<lparr>clients := cs4\<rparr>"
      using assms(1) unfolding router_round_def 1 Some Let_def 2 3 prod.case option.case
      by (auto split: option.splits)
    have "table_ok cs4" using service_clients_ok [OF 4 assms(2)] t3 by (simp add: table_ok_def)
    then show ?thesis by (simp add: m')
  qed
qed

text \<open>
  C15. In every state the router can reach, whatever its peers send and the kernel
  answers within the promises of \<open>send\<close> and \<open>recv\<close>: there are 16 slots; each client's
  input and output stay within their buffers; a client that holds the speaker has an open
  guard session of its own number; an open client keeps less than one frame; and a free
  slot holds nothing of the client before.
\<close>

theorem router_clients_invariant:
  assumes "router_reaches env w0 m w" "socket_ok env"
  shows "table_ok (clients m)"
  using assms
proof (induction rule: router_reaches.induct)
  case start
  have "list_all P (replicate n x) \<longleftrightarrow> n = 0 \<or> P x" for P n and x :: client
    by (induction n) auto
  then show ?case by (simp add: router_start_def table_ok_def)
next
  case (round m w ready m' w')
  then show ?case using router_round_ok by blast
qed

definition quiet_main_env :: main_env where
  "quiet_main_env = router_env.extend quiet_env
     \<lparr> env_accept = (\<lambda>n. Inr 11), env_nonblocking = (\<lambda>n. True), env_mic_recv = (\<lambda>n. Inl EAGAIN) \<rparr>"

lemma router_clients_invariant_witness:
  "\<exists>m w. router_reaches quiet_main_env start_router m w \<and> table_ok (clients m) \<and> fd (clients m ! 0) = 11"
proof -
  let ?p = "Some \<lparr> p_listener = True, p_microphone = False, p_clients = [] \<rparr>"
  have s: "socket_ok quiet_main_env"
    using quiet_env_ok(2) by (simp add: socket_ok_def quiet_main_env_def router_env.defs env.defs quiet_env_def)
  have "case router_round quiet_main_env ?p router_start start_router of None \<Rightarrow> False
      | Some (m, w) \<Rightarrow> fd (clients m ! 0) = 11" by code_simp
  then obtain m w where r: "router_round quiet_main_env ?p router_start start_router = Some (m, w)" "fd (clients m ! 0) = 11"
    by (auto split: option.splits)
  have "router_reaches quiet_main_env start_router m w" by (rule router_reaches.round [OF router_reaches.start r(1)])
  with router_clients_invariant [OF this s] r(2) show ?thesis by blast
qed

section \<open>Leases and broadcasts, slot by slot\<close>

lemma map_clients_pointwise:
  "map_clients f cs w = (cs', w') \<Longrightarrow> (\<And>c w c' w'. c \<in> set cs \<Longrightarrow> f c w = (c', w') \<Longrightarrow> P c c') \<Longrightarrow> list_all2 P cs cs'"
proof (induction cs arbitrary: w cs' w')
  case (Cons c cs)
  obtain c1 w1 where 1: "f c w = (c1, w1)" by fastforce
  obtain cs1 w2 where 2: "map_clients f cs w1 = (cs1, w2)" by fastforce
  have "list_all2 P cs cs1" by (rule Cons.IH [OF 2]) (use Cons.prems(2) in auto)
  moreover have "P c c1" using Cons.prems(2) [OF _ 1] by simp
  ultimately show ?case using Cons.prems(1) 1 2 by auto
qed simp

definition lease_due :: "u64 \<Rightarrow> client \<Rightarrow> bool" where
  "lease_due now c \<longleftrightarrow> 0 \<le> fd c \<and> g_acquired (guard c) \<and> talk_deadline c \<noteq> 0 \<and> talk_deadline c \<le> now"

lemma expire_one_cases:
  assumes "expire_one env now c w = (c', w')" "slot_ok c"
  shows "if lease_due now c then guard c' = guard_zero else c' = c"
proof (cases "lease_due now c")
  case True
  obtain ok c1 w1 where 1: "client_release_guard env c STATE_LEASE_EXPIRED w = (ok, c1, w1)" by (metis prod_cases3)
  have "guard c1 = guard_zero" by (rule client_release_guard_wf(2) [OF 1 slot_ok_wf [OF assms(2)]])
  moreover have "client_close env c1 w1 = (c', w') \<Longrightarrow> guard c' = guard_zero"
    by (metis client_close_init fst_conv client.select_convs(11) client_init_def)
  ultimately show ?thesis using assms(1) True 1
    by (auto simp: expire_one_def lease_due_def not_less split: if_splits)
next
  case False
  then show ?thesis using assms(1) by (auto simp: expire_one_def lease_due_def not_less split: if_splits)
qed

text \<open>
  C28. Talk leases. After the check no client holds the speaker past its deadline, the
  guard session of each client whose lease was due is closed, and no other client is
  touched.
\<close>

theorem talk_leases_expire:
  assumes "expire_talk_leases env cs w = (cs', w')" "table_ok cs" "monotonic_milliseconds env w = (now, w1)"
  shows "list_all2 (\<lambda>c c'. \<not> lease_due now c' \<and>
           (if lease_due now c then guard c' = guard_zero else c' = c)) cs cs'"
proof -
  have m: "map_clients (expire_one env now) cs w1 = (cs', w')"
    using assms(1,3) by (simp add: expire_talk_leases_def)
  show ?thesis
  proof (rule map_clients_pointwise [OF m])
    fix c w c' w'
    assume c: "c \<in> set cs" and e: "expire_one env now c w = (c', w')"
    have "slot_ok c" using assms(2) c by (auto simp: table_ok_def list_all_iff)
    from expire_one_cases [OF e this]
    show "\<not> lease_due now c' \<and> (if lease_due now c then guard c' = guard_zero else c' = c)"
      by (auto simp: lease_due_def split: if_splits)
  qed
qed

definition mic_frame :: "u32 \<Rightarrow> byte list \<Rightarrow> jooan_audio_wire_frame" where
  "mic_frame s pcma = \<lparr> wf_type = MIC_PCMA, wf_flags = 0, wf_sequence = s, wf_payload = pcma,
     wf_payload_length = of_nat (length pcma) \<rparr>"

lemma mic_frame_build:
  assumes "pcma \<noteq> []" "length pcma \<le> 1024" "s \<noteq> 0"
  shows "\<exists>frame. jooan_audio_wire_build 1040 MIC_PCMA 0 s (Some pcma) (of_nat (length pcma)) = Inr frame \<and>
     jooan_audio_wire_parse (Some frame) = Inr (mic_frame s pcma)"
proof -
  let ?n = "of_nat (length pcma) :: u16"
  have u: "unat ?n = length pcma" using assms(2) by (simp add: unsigned_of_nat take_bit_nat_eq_self)
  have n: "?n \<noteq> 0" using u assms(1) by (metis length_0_conv unsigned_0)
  let ?p = "jaud_header MIC_PCMA 0 s ?n @ pcma"
  have p: "jooan_audio_wire_parse (Some ?p) = Inr (mic_frame s pcma)"
    using assms u n by (simp add: jooan_audio_wire_parse_def wire_sizes wire_simps valid_type_def mic_frame_def)
  moreover have "jooan_audio_wire_build 1040 MIC_PCMA 0 s (Some pcma) ?n = Inr ?p"
    unfolding jooan_audio_wire_build_def wire_sizes Let_def u using assms p
    by (simp add: jaud_header_def)
  ultimately show ?thesis by blast
qed

text \<open>
  Broadcasting a microphone packet: each client that has upgraded gets one binary
  frame appended to what is queued for it, which is the packet under its next sequence
  number, or is closed if its queue has no room; the others are not touched.
\<close>

theorem microphone_broadcast:
  assumes "table_ok cs" "pcma \<noteq> []" "length pcma \<le> 1024"
    and "broadcast_microphone env cs pcma w = (r, cs', w')"
  shows "r \<and> list_all2 (\<lambda>c c'.
      if fd c < 0 \<or> state c \<noteq> CLIENT_OPEN then c' = c
      else c' = client_init \<or>
        (\<exists>frame. output c' = output c @ server_frame 2 frame \<and> core c' = core c \<and>
           transmit_sequence c' = seq_next (transmit_sequence c) \<and>
           jooan_audio_wire_parse (Some frame) = Inr (mic_frame (seq_next (transmit_sequence c)) pcma))) cs cs'"
proof -
  have m: "r" "map_clients (broadcast_one env pcma) cs w = (cs', w')"
    using assms(2-4) by (auto simp: broadcast_microphone_def wire_sizes split: if_splits)
  let ?P = "\<lambda>c c'. if fd c < 0 \<or> state c \<noteq> CLIENT_OPEN then c' = c
      else c' = client_init \<or>
        (\<exists>frame. output c' = output c @ server_frame 2 frame \<and> core c' = core c \<and>
           transmit_sequence c' = seq_next (transmit_sequence c) \<and>
           jooan_audio_wire_parse (Some frame) = Inr (mic_frame (seq_next (transmit_sequence c)) pcma))"
  have "list_all2 ?P cs cs'"
  proof (rule map_clients_pointwise [OF m(2)])
    fix c w c' w'
    assume c: "c \<in> set cs" and b: "broadcast_one env pcma c w = (c', w')"
    have wf: "client_wf c" using assms(1) c by (auto simp: table_ok_def list_all_iff slot_ok_def)
    show "?P c c'"
    proof (cases "fd c < 0 \<or> state c \<noteq> CLIENT_OPEN")
      case True
      then show ?thesis using b by (simp add: broadcast_one_def)
    next
      case False
      let ?s = "seq_next (transmit_sequence c)"
      obtain frame where f: "jooan_audio_wire_build 1040 MIC_PCMA 0 ?s (Some pcma) (of_nat (length pcma)) = Inr frame"
          "jooan_audio_wire_parse (Some frame) = Inr (mic_frame ?s pcma)"
        using mic_frame_build [OF assms(2,3) seq_next_nonzero] by blast
      obtain ok c1 where q: "queue_ws_frame c 2 frame = (ok, c1)" by fastforce
      have cl: "client_close env c1 w = (c', w') \<Longrightarrow> c' = client_init" by (metis client_close_init fst_conv)
      have e: "(c', w') = (if ok then (c1\<lparr>transmit_sequence := ?s\<rparr>, w) else client_close env c1 w)"
        using b False f(1) q by (cases ok) (simp_all add: broadcast_one_def wire_sizes)
      show ?thesis
      proof (cases ok)
        case True
        then have "output c1 = output c @ server_frame 2 frame" using queue_ws_frame_wf(3) [OF q wf] by simp
        moreover have "core c1 = core c" by (rule core_ws_frame [OF q])
        ultimately show ?thesis using e True False f(2) by auto
      next
        case F: False
        then show ?thesis using e cl False by auto
      qed
    qed
  qed
  with m(1) show ?thesis by blast
qed

definition listening :: client where
  "listening = client_init\<lparr>fd := 4, state := CLIENT_OPEN\<rparr>"

lemma listening_table: "table_ok (listening # replicate 15 client_init)"
  by (simp add: table_ok_def MAX_CLIENTS_def eval_nat_numeral)
    (simp add: listening_def slot_ok_def client_wf_def buffers_ok_def talk_ok_def client_init_def guard_zero_def)

lemma microphone_broadcast_witness:
  "\<exists>c cs' w'. broadcast_microphone quiet_main_env (listening # replicate 15 client_init) [1, 2, 3] start_router
       = (True, c # cs', w') \<and>
     (c = client_init \<or> (\<exists>frame. output c = server_frame 2 frame \<and>
        jooan_audio_wire_parse (Some frame) = Inr (mic_frame 1 [1, 2, 3])))"
proof -
  obtain r cs' w' where b: "broadcast_microphone quiet_main_env (listening # replicate 15 client_init) [1, 2, 3] start_router
      = (r, cs', w')" by (metis prod_cases3)
  from microphone_broadcast [OF listening_table _ _ b] show ?thesis
    using b by (cases cs') (auto simp: listening_def client_init_def seq_next_def)
qed

definition overdue :: client where
  "overdue = client_init\<lparr>fd := 4, session_id := 7, talk_deadline := 100,
     guard := guard_zero\<lparr>g_fd := 5, g_session_id := 7, g_acquired := True\<rparr>\<rparr>"

lemma talk_leases_expire_witness:
  "\<exists>c cs' w'. expire_talk_leases quiet_main_env (overdue # replicate 15 client_init) start_router = (c # cs', w')
     \<and> lease_due 5000 overdue \<and> guard c = guard_zero"
proof -
  let ?cs = "overdue # replicate 15 client_init"
  have t: "table_ok ?cs"
    by (simp add: table_ok_def MAX_CLIENTS_def eval_nat_numeral)
      (simp add: overdue_def slot_ok_def client_wf_def buffers_ok_def talk_ok_def client_init_def guard_zero_def)
  obtain cs' w' where e: "expire_talk_leases quiet_main_env ?cs start_router = (cs', w')" by fastforce
  have n: "monotonic_milliseconds quiet_main_env start_router = (5000, next_tick start_router)"
    by (simp add: monotonic_milliseconds_def quiet_main_env_def quiet_env_def router_env.defs env.defs start_router_def)
  have d: "lease_due 5000 overdue" by (simp add: lease_due_def overdue_def client_init_def guard_zero_def)
  from talk_leases_expire [OF e t n] d e show ?thesis by (cases cs') auto
qed

section \<open>The microphone from the driver to the router\<close>

function packets :: "'a list \<Rightarrow> 'a list list" where
  "packets xs = (if length xs < 320 then [] else take 320 xs # packets (drop 320 xs))"
  by pat_completeness auto
termination by (relation "measure length") auto

function leftover :: "'a list \<Rightarrow> 'a list" where
  "leftover xs = (if length xs < 320 then xs else leftover (drop 320 xs))"
  by pat_completeness auto
termination by (relation "measure length") auto

declare packets.simps [simp del] leftover.simps [simp del]

lemma packets_append: "packets (xs @ ys) = packets xs @ packets (leftover xs @ ys)"
proof (induction xs rule: packets.induct)
  case (1 xs)
  show ?case
  proof (cases "length xs < 320")
    case True
    then show ?thesis by (simp add: leftover.simps [of xs] packets.simps [of xs])
  next
    case False
    then show ?thesis using "1.IH" by (simp add: leftover.simps [of xs] packets.simps [of xs] packets.simps [of "xs @ ys"])
  qed
qed

lemma leftover_append: "leftover (xs @ ys) = leftover (leftover xs @ ys)"
proof (induction xs rule: leftover.induct)
  case (1 xs)
  show ?case
  proof (cases "length xs < 320")
    case True
    then show ?thesis by (simp add: leftover.simps [of xs])
  next
    case False
    then show ?thesis using "1.IH" by (simp add: leftover.simps [of xs] leftover.simps [of "xs @ ys"])
  qed
qed

lemma length_leftover: "length (leftover xs) < 320"
  by (induction xs rule: leftover.induct) (simp add: leftover.simps)

lemma packets_length: "p \<in> set (packets xs) \<Longrightarrow> length p = 320"
proof (induction xs rule: packets.induct)
  case (1 xs)
  then show ?case by (cases "length xs < 320") (auto simp: packets.simps [of xs])
qed

lemma packets_leftover: "packets (leftover xs) = []"
  by (simp add: packets.simps length_leftover)

text \<open>The datagrams of a list of packets.\<close>

fun jagm_stream :: "u32 \<Rightarrow> byte list list \<Rightarrow> byte list list" where
  "jagm_stream s [] = []"
| "jagm_stream s (p # ps) = fst (microphone_capture_emit s p) # jagm_stream (seq_next s) ps"

fun seq_after :: "u32 \<Rightarrow> nat \<Rightarrow> u32" where
  "seq_after s 0 = s"
| "seq_after s (Suc n) = seq_after (seq_next s) n"

lemma jagm_stream_append: "jagm_stream s (ps @ qs) = jagm_stream s ps @ jagm_stream (seq_after s (length ps)) qs"
  by (induction ps arbitrary: s) auto

text \<open>The samples the router's filter lets through of a sequence of datagrams.\<close>

fun mic_filter :: "u32 \<Rightarrow> byte list list \<Rightarrow> byte list list" where
  "mic_filter s [] = []"
| "mic_filter s (d # ds) =
     (case mic_accept s d of None \<Rightarrow> mic_filter s ds | Some (s', pcma) \<Rightarrow> pcma # mic_filter s' ds)"

lemma mic_accept_emit:
  assumes "length p = 320"
  shows "mic_accept s (fst (microphone_capture_emit s p)) = Some (seq_next s, p)"
proof -
  let ?d = "jagm_magic @ [1, 12] @ write_be16 320 @ write_be32 (seq_next s) @ p"
  have d: "fst (microphone_capture_emit s p) = ?d"
    using assms by (simp add: microphone_capture_emit_def mic_sizes Let_def)
  have f: "length ?d = 332" "take 4 ?d = jagm_magic" "?d ! 4 = 1" "?d ! 5 = 12" "read_be16 ?d 6 = 320"
      "read_be32 ?d 8 = seq_next s" "drop 12 ?d = p"
    using assms by (simp_all add: jagm_magic_def read_be16_def read_be32_def write_be16_def write_be32_def)
      (simp add: be16_def)
  have "sint (seq_next s - s) = 1" if "seq_next s \<noteq> 1"
    using that by (simp add: seq_next_def split: if_splits)
  then show ?thesis
    unfolding d mic_accept_def mic_sizes Let_def f using seq_next_nonzero by (cases "seq_next s = 1") simp_all
qed

lemma mic_filter_stream: "list_all (\<lambda>p. length p = 320) ps \<Longrightarrow> mic_filter s (jagm_stream s ps) = ps"
  by (induction ps arbitrary: s) (simp_all add: mic_accept_emit)

text \<open>The samples captured between failures of the driver, encoded.\<close>

definition buffer_ok :: "i16 list \<Rightarrow> bool" where
  "buffer_ok pcm \<longleftrightarrow> pcm \<noteq> [] \<and> length pcm \<le> 640"

fun stretches :: "capture_event list \<Rightarrow> byte list \<Rightarrow> byte list list" where
  "stretches [] acc = [acc]"
| "stretches (CaptureFailed # es) acc = acc # stretches es []"
| "stretches (CaptureBuffer pcm # es) acc =
     (if buffer_ok pcm then stretches es (acc @ map jooan_alaw_encode_sample pcm) else acc # stretches es [])"

lemma packets_short: "length xs < 320 \<Longrightarrow> packets xs = []"
  by (simp add: packets.simps)

lemma leftover_short: "length xs < 320 \<Longrightarrow> leftover xs = xs"
  by (simp add: leftover.simps)

lemma packets_full: "length xs = 320 \<Longrightarrow> packets (xs @ ys) = xs # packets ys"
  by (simp add: packets.simps [of "xs @ ys"])

lemma leftover_full: "length xs = 320 \<Longrightarrow> leftover (xs @ ys) = leftover ys"
  by (simp add: leftover.simps [of "xs @ ys"])

lemma capture_samples_eq:
  "length buf < 320 \<Longrightarrow>
     capture_samples ss (buf, s) =
       ((leftover (buf @ map jooan_alaw_encode_sample ss),
         seq_after s (length (packets (buf @ map jooan_alaw_encode_sample ss)))),
        jagm_stream s (packets (buf @ map jooan_alaw_encode_sample ss)))"
proof (induction ss arbitrary: buf s)
  case Nil
  then show ?case by (simp add: packets_short leftover_short)
next
  case (Cons x ss)
  let ?b = "buf @ [jooan_alaw_encode_sample x]" and ?r = "map jooan_alaw_encode_sample ss"
  have a: "buf @ map jooan_alaw_encode_sample (x # ss) = ?b @ ?r" by simp
  show ?case
  proof (cases "length ?b = 320")
    case True
    have "fst (microphone_capture_emit s ?b) = fst (microphone_capture_emit s ?b)" "snd (microphone_capture_emit s ?b) = seq_next s"
      by (simp_all add: microphone_capture_emit_def Let_def)
    then obtain d where d: "microphone_capture_emit s ?b = (d, seq_next s)" by (metis prod.collapse)
    show ?thesis
      unfolding a packets_full [OF True] leftover_full [OF True]
      using Cons.IH [of "[]" "seq_next s"] True d
      by (simp add: Let_def JOOAN_AUDIO_MIC_PAYLOAD_SIZE_def)
  next
    case False
    then have "length ?b < 320" using Cons.prems by simp
    from Cons.IH [OF this, of s] False show ?thesis
      unfolding a by (simp add: Let_def JOOAN_AUDIO_MIC_PAYLOAD_SIZE_def)
  qed
qed

lemma microphone_capture_eq:
  "\<exists>ps. concat (map packets (stretches es acc)) = packets acc @ ps \<and>
     microphone_capture es (leftover acc, s) = jagm_stream s ps"
proof (induction es arbitrary: acc s)
  case Nil
  show ?case by simp
next
  case (Cons e es)
  have reset: "\<exists>ps. concat (map packets (acc # stretches es [])) = packets acc @ ps \<and>
      microphone_capture es ([], s) = jagm_stream s ps"
    using Cons.IH [of "[]" s] by (simp add: packets_short leftover_short)
  show ?case
  proof (cases e)
    case CaptureFailed
    with reset show ?thesis by simp
  next
    case (CaptureBuffer pcm)
    show ?thesis
    proof (cases "buffer_ok pcm")
      case False
      then have "pcm = [] \<or> 2 * JOOAN_AUDIO_SAMPLES_PER_PACKET < length pcm"
        by (auto simp: buffer_ok_def wire_sizes)
      with reset CaptureBuffer False show ?thesis by simp
    next
      case True
      let ?e = "map jooan_alaw_encode_sample pcm" and ?qs = "packets (leftover acc @ map jooan_alaw_encode_sample pcm)"
      have ok: "\<not> (pcm = [] \<or> 2 * JOOAN_AUDIO_SAMPLES_PER_PACKET < length pcm)"
        using True by (auto simp: buffer_ok_def wire_sizes)
      obtain ps where ps: "concat (map packets (stretches es (acc @ ?e))) = packets (acc @ ?e) @ ps"
          "microphone_capture es (leftover (acc @ ?e), seq_after s (length ?qs)) = jagm_stream (seq_after s (length ?qs)) ps"
        using Cons.IH by blast
      have "microphone_capture (e # es) (leftover acc, s) = jagm_stream s (?qs @ ps)"
        using ok ps(2) unfolding CaptureBuffer leftover_append [of acc ?e]
        by (simp add: capture_samples_eq [OF length_leftover] jagm_stream_append)
      moreover have "concat (map packets (stretches (e # es) acc)) = packets acc @ ?qs @ ps"
        using True ps(1) unfolding CaptureBuffer by (simp add: packets_append [of acc ?e])
      ultimately show ?thesis by blast
    qed
  qed
qed


end
