(* ===== verification/Daemon_Util.thy ===== *)
theory Daemon_Util
  imports C_Strings
begin

text \<open>
  The helpers of the admin daemon (\<open>src/daemon/util.c\<close>): hexadecimal text, comparison in
  constant time, random bytes, and files replaced atomically. Files are a map from paths
  to contents; the system calls answer by an environment indexed by the number of the
  call, in which an interrupted call has been repeated.
\<close>

section \<open>Hexadecimal text\<close>

definition hex_digit :: "nat \<Rightarrow> char" where
  "hex_digit n = ''0123456789abcdef'' ! n"

definition joan_hex :: "byte list \<Rightarrow> string" where
  "joan_hex bs = concat (map (\<lambda>b. [hex_digit (unat (drop_bit 4 b)), hex_digit (unat (b AND 15))]) bs)"

definition hex_value :: "char \<Rightarrow> int" where
  "hex_value c =
     (let a = int (c_code c)
      in if 48 \<le> a \<and> a \<le> 57 then a - 48
         else if 97 \<le> a \<and> a \<le> 102 then a - 97 + 10
         else if 65 \<le> a \<and> a \<le> 70 then a - 65 + 10 else -1)"

text \<open>
  The loop over \<open>len\<close> pairs. Past the end of the text the code reads its NUL, which is no
  digit, so a short text is refused at the pair that reaches its end.
\<close>

fun unhex_loop :: "string \<Rightarrow> nat \<Rightarrow> (byte list \<times> string) option" where
  "unhex_loop s 0 = Some ([], s)"
| "unhex_loop (c # d # s) (Suc n) =
     (if hex_value c < 0 \<or> hex_value d < 0 then None
      else map_option (\<lambda>(bs, r). (word_of_int (16 * hex_value c + hex_value d) # bs, r)) (unhex_loop s n))"
| "unhex_loop _ (Suc n) = None"

definition joan_unhex :: "string \<Rightarrow> nat \<Rightarrow> byte list option" where
  "joan_unhex s len =
     (case unhex_loop s len of None \<Rightarrow> None | Some (bs, r) \<Rightarrow> if r = [] then Some bs else None)"

definition is_lower_hex :: "char \<Rightarrow> bool" where
  "is_lower_hex c = (48 \<le> c_code c \<and> c_code c \<le> 57 \<or> 97 \<le> c_code c \<and> c_code c \<le> 102)"

lemma hex_digit_facts: "n < 16 \<Longrightarrow> hex_value (hex_digit n) = int n \<and> is_lower_hex (hex_digit n)"
proof -
  have "list_all (\<lambda>n. hex_value (hex_digit n) = int n \<and> is_lower_hex (hex_digit n)) [0..<16]" by code_simp
  then show "n < 16 \<Longrightarrow> ?thesis" by (simp add: list_all_iff)
qed

lemma nibbles: "unat (drop_bit 4 b) = unat b div 16" "unat (b AND 15) = unat b mod 16" for b :: byte
proof -
  have "list_all (\<lambda>b :: byte. unat (b AND 15) = unat b mod 16) all_bytes" by code_simp
  from all_bytes_check [OF this] show "unat (b AND 15) = unat b mod 16" .
qed (simp add: unat_drop_bit)

lemma nibbles_less: "unat (drop_bit 4 b) < 16" "unat (b AND 15) < 16" for b :: byte
  using unat_byte_less [of b] unfolding nibbles by simp_all

lemma hex_pair:
  "word_of_int (16 * hex_value (hex_digit (unat (drop_bit 4 b))) + hex_value (hex_digit (unat (b AND 15)))) = (b :: byte)"
  "0 \<le> hex_value (hex_digit (unat (drop_bit 4 b)))" "0 \<le> hex_value (hex_digit (unat (b AND 15)))"
proof -
  have e: "16 * int (unat b div 16) + int (unat b mod 16) = int (unat b)" by presburger
  show "word_of_int (16 * hex_value (hex_digit (unat (drop_bit 4 b))) + hex_value (hex_digit (unat (b AND 15)))) = b"
    unfolding hex_digit_facts [OF nibbles_less(1), THEN conjunct1] hex_digit_facts [OF nibbles_less(2), THEN conjunct1]
    unfolding nibbles e by simp
qed (simp_all only: hex_digit_facts [OF nibbles_less(1)] hex_digit_facts [OF nibbles_less(2)] of_nat_0_le_iff)

lemma joan_hex_simps [simp]:
  "joan_hex [] = []"
  "joan_hex (b # bs) = hex_digit (unat (drop_bit 4 b)) # hex_digit (unat (b AND 15)) # joan_hex bs"
  by (simp_all add: joan_hex_def)

lemma length_joan_hex [simp]: "length (joan_hex bs) = 2 * length bs"
  by (induction bs) auto

lemma unhex_loop_hex: "unhex_loop (joan_hex bs @ r) (length bs) = Some (bs, r)"
  using hex_pair by (induction bs) (auto simp: not_less)

lemma joan_unhex_hex [simp]: "joan_unhex (joan_hex bs) (length bs) = Some bs"
  using unhex_loop_hex [of bs "[]"] by (simp add: joan_unhex_def)

lemma joan_hex_lower: "c \<in> set (joan_hex bs) \<Longrightarrow> is_lower_hex c"
  using hex_digit_facts nibbles_less by (induction bs) auto

lemma lower_hex_facts:
  "is_lower_hex c \<Longrightarrow> \<not> c_isspace c" "is_lower_hex c \<Longrightarrow> c \<noteq> CHR '':''" "is_lower_hex c \<Longrightarrow> c \<noteq> CHR 0x0A"
  "is_lower_hex c \<Longrightarrow> c \<noteq> CHR 0x0D" "is_lower_hex c \<Longrightarrow> c \<noteq> CHR 0x00" "is_lower_hex c \<Longrightarrow> c \<noteq> CHR '' ''"
  by (auto simp: is_lower_hex_def c_isspace_def c_code_def)

section \<open>Comparison in constant time\<close>

fun ct_difference :: "byte list \<Rightarrow> byte list \<Rightarrow> nat \<Rightarrow> byte \<Rightarrow> byte" where
  "ct_difference x y 0 d = d"
| "ct_difference x y (Suc n) d = ct_difference (tl x) (tl y) n (d OR (hd x XOR hd y))"

definition joan_ct_equal :: "byte list \<Rightarrow> byte list \<Rightarrow> nat \<Rightarrow> bool" where
  "joan_ct_equal a b n = (ct_difference a b n 0 = 0)"

lemma word_xor_eq_0: "(a :: 'a :: len word) XOR b = 0 \<longleftrightarrow> a = b"
proof
  assume "a XOR b = 0"
  then have "(a XOR b) XOR b = 0 XOR b" by simp
  then show "a = b" by (simp add: xor.assoc)
qed simp

lemma ct_difference_eq_0:
  "n \<le> length x \<Longrightarrow> n \<le> length y \<Longrightarrow> ct_difference x y n d = 0 \<longleftrightarrow> d = 0 \<and> take n x = take n y"
proof (induction n arbitrary: x y d)
  case (Suc n)
  then obtain a x' b y' where "x = a # x'" "y = b # y'" by (metis Suc_le_length_iff)
  moreover from calculation Suc have "ct_difference x' y' n (d OR (a XOR b)) = 0 \<longleftrightarrow>
      d OR (a XOR b) = 0 \<and> take n x' = take n y'" by simp
  ultimately show ?case by (auto simp: or_eq_0_iff word_xor_eq_0)
qed simp

lemma joan_ct_equal_iff: "n \<le> length a \<Longrightarrow> n \<le> length b \<Longrightarrow> joan_ct_equal a b n \<longleftrightarrow> take n a = take n b"
  by (simp add: joan_ct_equal_def ct_difference_eq_0)

section \<open>Files\<close>

record store_env =
  env_tmp_suffix :: string
  env_open :: "nat \<Rightarrow> bool"
  env_write :: "nat \<Rightarrow> nat \<Rightarrow> nat option"
  env_fsync :: "nat \<Rightarrow> bool"
  env_rename :: "nat \<Rightarrow> bool"
  env_read :: "nat \<Rightarrow> bool"
  env_mkdir :: "nat \<Rightarrow> bool"
  env_random :: "nat \<Rightarrow> nat \<Rightarrow> byte list option"

record store =
  s_tick :: nat
  files :: "string \<Rightarrow> byte list option"

definition s_next :: "'w store_scheme \<Rightarrow> 'w store_scheme" where
  "s_next w = w\<lparr>s_tick := Suc (s_tick w)\<rparr>"

definition file_put :: "string \<Rightarrow> byte list option \<Rightarrow> 'w store_scheme \<Rightarrow> 'w store_scheme" where
  "file_put path c w = w\<lparr>files := (files w)(path := c)\<rparr>"

abbreviation (input) unlink :: "string \<Rightarrow> 'w store_scheme \<Rightarrow> 'w store_scheme" where
  "unlink path w \<equiv> file_put path None w"

text \<open>The writes append to the temporary file, in as many calls as \<open>write\<close> needs.\<close>

function write_loop :: "'e store_env_scheme \<Rightarrow> string \<Rightarrow> byte list \<Rightarrow> 'w store_scheme \<Rightarrow> bool \<times> 'w store_scheme" where
  "write_loop env tmp p w =
     (if p = [] then (True, w)
      else case env_write env (s_tick w) (length p) of
        None \<Rightarrow> (False, s_next w)
      | Some n \<Rightarrow>
          if n = 0 then (False, s_next w)
          else write_loop env tmp (drop n p)
                 (file_put tmp (Some (the (files w tmp) @ take n p)) (s_next w)))"
  by pat_completeness auto
termination by (relation "measure (\<lambda>(env, tmp, p, w). length p)") auto

declare write_loop.simps [simp del]

definition joan_write_atomic ::
  "'e store_env_scheme \<Rightarrow> string \<Rightarrow> byte list \<Rightarrow> 'w store_scheme \<Rightarrow> bool \<times> 'w store_scheme" where
  "joan_write_atomic env path data w =
     (let tmp = path @ ''.tmp.'' @ env_tmp_suffix env
      in if 600 \<le> length tmp then (False, w)
         else if files w tmp \<noteq> None \<or> \<not> env_open env (s_tick w) then (False, s_next w)
         else case write_loop env tmp data (file_put tmp (Some []) (s_next w)) of
                (False, w) \<Rightarrow> (False, unlink tmp w)
              | (True, w) \<Rightarrow>
                  if \<not> env_fsync env (s_tick w) \<or> \<not> env_rename env (s_tick w)
                  then (False, unlink tmp (s_next w))
                  else (True, file_put path (files w tmp) (unlink tmp (s_next w))))"

definition joan_read_file ::
  "'e store_env_scheme \<Rightarrow> string \<Rightarrow> nat \<Rightarrow> 'w store_scheme \<Rightarrow> byte list option \<times> 'w store_scheme" where
  "joan_read_file env path max_size w =
     (case files w path of
        None \<Rightarrow> (None, w)
      | Some c \<Rightarrow>
          if max_size < length c \<or> \<not> env_read env (s_tick w) then (None, s_next w) else (Some c, s_next w))"

definition joan_random ::
  "'e store_env_scheme \<Rightarrow> nat \<Rightarrow> 'w store_scheme \<Rightarrow> byte list option \<times> 'w store_scheme" where
  "joan_random env len w = (env_random env (s_tick w) len, s_next w)"

text \<open>The prefixes of the path that are made directories, the last being the path.\<close>

definition mkdir_prefixes :: "string \<Rightarrow> string list" where
  "mkdir_prefixes path = map (\<lambda>i. take i path) (filter (\<lambda>i. path ! i = CHR ''/'') [1..<length path]) @ [path]"

fun mkdir_all :: "'e store_env_scheme \<Rightarrow> string list \<Rightarrow> 'w store_scheme \<Rightarrow> bool \<times> 'w store_scheme" where
  "mkdir_all env [] w = (True, w)"
| "mkdir_all env (p # ps) w =
     (if env_mkdir env (s_tick w) then mkdir_all env ps (s_next w) else (False, s_next w))"

definition joan_mkdir_p :: "'e store_env_scheme \<Rightarrow> string \<Rightarrow> 'w store_scheme \<Rightarrow> bool \<times> 'w store_scheme" where
  "joan_mkdir_p env path w =
     (if path = [] \<or> 512 \<le> length path then (False, w) else mkdir_all env (mkdir_prefixes path) w)"

section \<open>A file is replaced whole or not at all\<close>

lemma s_next_files [simp]: "files (s_next w) = files w"
  by (simp add: s_next_def)

lemma file_put_files [simp]: "files (file_put p c w) = (files w)(p := c)"
  by (simp add: file_put_def)

lemma write_loop_files:
  "write_loop env tmp p w = (r, w') \<Longrightarrow> files w tmp = Some c \<Longrightarrow>
     \<exists>c'. files w' = (files w)(tmp := Some c') \<and> (r \<longrightarrow> c' = c @ p)"
proof (induction env tmp p w arbitrary: r w' c rule: write_loop.induct)
  case (1 env tmp p w)
  note res = "1.prems"(1) [unfolded write_loop.simps [of env tmp p w]]
  show ?case
  proof (cases "p = []")
    case True
    then show ?thesis using res "1.prems"(2) by (auto intro!: exI [of _ c])
  next
    case False
    show ?thesis
    proof (cases "env_write env (s_tick w) (length p)")
      case None
      then show ?thesis using res "1.prems"(2) False by (auto intro!: exI [of _ c])
    next
      case (Some n)
      show ?thesis
      proof (cases "n = 0")
        case True
        then show ?thesis using res "1.prems"(2) False Some by (auto intro!: exI [of _ c])
      next
        case n: False
        let ?w = "file_put tmp (Some (the (files w tmp) @ take n p)) (s_next w)"
        have r: "write_loop env tmp (drop n p) ?w = (r, w')" using res False Some n by simp
        have "files ?w tmp = Some (c @ take n p)" using "1.prems"(2) by simp
        from "1.IH" [OF False Some n r this] obtain c' where
          c': "files w' = (files ?w)(tmp := Some c')" "r \<longrightarrow> c' = (c @ take n p) @ drop n p" by blast
        show ?thesis by (rule exI [of _ c']) (use c' in \<open>simp add: fun_upd_upd\<close>)
      qed
    qed
  qed
qed

lemma write_atomic_files:
  "joan_write_atomic env path data w = (ok, w') \<Longrightarrow>
     files w' = (if ok then (files w)(path := Some data) else files w)"
proof -
  assume res: "joan_write_atomic env path data w = (ok, w')"
  let ?tmp = "path @ ''.tmp.'' @ env_tmp_suffix env"
  obtain r w1 where l: "write_loop env ?tmp data (file_put ?tmp (Some []) (s_next w)) = (r, w1)" by fastforce
  from write_loop_files [OF l, of "[]"] obtain c where
    c: "files w1 = (files w)(?tmp := Some c)" "r \<longrightarrow> c = data" by auto
  have ne: "path \<noteq> ?tmp" by simp
  show ?thesis
  proof (cases "files w ?tmp = None")
    case False
    then show ?thesis using res by (auto simp: joan_write_atomic_def Let_def split: if_splits)
  next
    case True
    then have "(files w)(?tmp := None) = files w" by (metis fun_upd_triv)
    then show ?thesis using True l c ne
      using res
      by (cases r) (auto simp: joan_write_atomic_def Let_def fun_upd_twist split: if_splits)
  qed
qed


lemma unhex_loop_length: "unhex_loop s n = Some (bs, r) \<Longrightarrow> length s = 2 * n + length r \<and> length bs = n"
  by (induction s n arbitrary: bs r rule: unhex_loop.induct) (auto split: if_splits)

text \<open>
  Hexadecimal text: \<open>joan_unhex\<close> gives back the bytes \<open>joan_hex\<close> printed, and accepts
  no text of another length.
\<close>

theorem hex_roundtrip:
  "joan_unhex (joan_hex bs) (length bs) = Some bs \<and>
   (length s \<noteq> 2 * n \<longrightarrow> joan_unhex s n = None)"
proof
  show "length s \<noteq> 2 * n \<longrightarrow> joan_unhex s n = None"
    using unhex_loop_length [of s n] by (auto simp: joan_unhex_def split: option.splits)
qed (rule joan_unhex_hex)

lemma hex_roundtrip_witness: "joan_unhex (joan_hex [0x1f, 0xa0]) 2 = Some [0x1f, 0xa0] \<and> joan_unhex ''1fa'' 2 = None"
  using hex_roundtrip [of "[0x1f, 0xa0]" "''1fa''" 2] by (simp add: numeral_2_eq_2)

end
