(* ===== verification/Auth_Store.thy ===== *)
theory Auth_Store
  imports Daemon_Util Hashes
begin

text \<open>
  The admin daemon's credentials on flash (\<open>src/daemon/auth.c\<close>): the password database,
  the SSH record and the OEM application's RTSP secret, how they are written together,
  checked and brought up at start. A configuration is its state directory. The C library's
  \<open>crypt\<close> is an argument of the environment, and so is what the stack held before a hash.
\<close>

record auth_env = store_env +
  env_crypt :: "string \<Rightarrow> string \<Rightarrow> string option"
  env_garbage :: "byte list"
  env_monotonic_s :: "nat \<Rightarrow> int option"
  env_wall :: "nat \<Rightarrow> int"

definition PBKDF2_ROUNDS :: nat where "PBKDF2_ROUNDS = 120000"
definition DEFAULT_PASSWORD :: string where "DEFAULT_PASSWORD = ''admin''"

abbreviation (input) NL :: char where "NL \<equiv> CHR 0x0A"

section \<open>Paths\<close>

definition auth_path :: "string \<Rightarrow> string" where
  "auth_path state_dir = take 511 (state_dir @ ''/auth.db'')"

definition remembered_path :: "string \<Rightarrow> string" where
  "remembered_path state_dir = take 511 (state_dir @ ''/sessions.db'')"

definition rtsp_path :: "string \<Rightarrow> string" where
  "rtsp_path state_dir = take 511 (state_dir @ ''/rtsp.password'')"

definition rtsp_marker_path :: "string \<Rightarrow> string" where
  "rtsp_marker_path state_dir = take 511 (state_dir @ ''/rtsp.synced'')"

definition ssh_password_path ::
  "'e auth_env_scheme \<Rightarrow> string \<Rightarrow> 'w store_scheme \<Rightarrow> string option \<times> 'w store_scheme" where
  "ssh_password_path env state_dir w =
     (let dir = state_dir @ ''/ssh''
      in if 512 \<le> length dir then (None, w)
         else case joan_mkdir_p env dir w of
                (ok, w) \<Rightarrow> if \<not> ok then (None, w)
                   else if 512 \<le> length (dir @ ''/passwd'') then (None, w)
                   else (Some (dir @ ''/passwd''), w))"

section \<open>The three records of a password\<close>

definition crypt_alphabet :: string where
  "crypt_alphabet = ''./0123456789ABCDEFGHIJKLMNOPQRSTUVWXYZabcdefghijklmnopqrstuvwxyz''"

definition crypt_salt :: "byte list \<Rightarrow> string" where
  "crypt_salt salt = ''$1$'' @ map (\<lambda>b. crypt_alphabet ! unat (b AND 63)) (take 8 salt) @ ''$''"

definition auth_record :: "byte list \<Rightarrow> byte list \<Rightarrow> bool \<Rightarrow> string" where
  "auth_record salt key warning =
     ''v1:'' @ c_dec PBKDF2_ROUNDS @ '':'' @ joan_hex salt @ '':'' @ joan_hex key @ '':'' @
     c_dec (if warning then 1 else 0) @ [NL]"

record auth_records =
  rec_auth :: string
  rec_ssh :: string
  rec_rtsp :: string

definition build_records ::
  "'e auth_env_scheme \<Rightarrow> string \<Rightarrow> bool \<Rightarrow> 'w store_scheme \<Rightarrow> auth_records option \<times> 'w store_scheme" where
  "build_records env password warning w =
     (case joan_random env 16 w of
        (None, w) \<Rightarrow> (None, w)
      | (Some salt, w) \<Rightarrow>
          (case joan_pbkdf2_sha256 (env_garbage env) (bytes_of password) salt (of_nat PBKDF2_ROUNDS) 32 of
             None \<Rightarrow> (None, w)
           | Some key \<Rightarrow>
               let auth = auth_record salt key warning
               in if 192 \<le> length auth then (None, w)
                  else case env_crypt env password (crypt_salt salt) of
                    None \<Rightarrow> (None, w)
                  | Some hash \<Rightarrow>
                      let ssh = ''admin:'' @ hash @ [NL]
                      in if NL \<in> set hash \<or> CHR '':'' \<in> set hash \<or> 384 \<le> length ssh then (None, w)
                         else case joan_random env 12 w of
                           (None, w) \<Rightarrow> (None, w)
                         | (Some secret, w) \<Rightarrow>
                             (Some \<lparr> rec_auth = auth, rec_ssh = ssh, rec_rtsp = joan_hex secret @ [NL] \<rparr>, w)))"

text \<open>Putting an old file back, or removing the new one where there was none.\<close>

definition restore ::
  "'e auth_env_scheme \<Rightarrow> string \<Rightarrow> byte list option \<Rightarrow> 'w store_scheme \<Rightarrow> 'w store_scheme" where
  "restore env path old w =
     (case old of Some c \<Rightarrow> snd (joan_write_atomic env path c w) | None \<Rightarrow> unlink path w)"

definition save_record ::
  "'e auth_env_scheme \<Rightarrow> string \<Rightarrow> string \<Rightarrow> bool \<Rightarrow> 'w store_scheme \<Rightarrow> bool \<times> 'w store_scheme" where
  "save_record env state_dir password warning w =
     (case build_records env password warning w of
        (None, w) \<Rightarrow> (False, w)
      | (Some r, w) \<Rightarrow>
          (case ssh_password_path env state_dir w of
             (None, w) \<Rightarrow> (False, w)
           | (Some ssh_file, w) \<Rightarrow>
               let auth_file = auth_path state_dir; rtsp_file = state_dir @ ''/rtsp.password''
               in if 512 \<le> length rtsp_file then (False, w)
                  else
                    let (old_auth, w) = joan_read_file env auth_file 512 w;
                        (old_ssh, w) = joan_read_file env ssh_file 1024 w;
                        (old_rtsp, w) = joan_read_file env rtsp_file 512 w;
                        fail = (\<lambda>w. (False, if old_auth = None then unlink auth_file w else w))
                    in case joan_write_atomic env ssh_file (bytes_of (rec_ssh r)) w of
                         (False, w) \<Rightarrow> fail w
                       | (True, w) \<Rightarrow>
                           (case joan_write_atomic env rtsp_file (bytes_of (rec_rtsp r)) w of
                              (False, w) \<Rightarrow> fail (restore env ssh_file old_ssh w)
                            | (True, w) \<Rightarrow>
                                (case joan_write_atomic env auth_file (bytes_of (rec_auth r)) w of
                                   (False, w) \<Rightarrow>
                                     fail (restore env rtsp_file old_rtsp (restore env ssh_file old_ssh w))
                                 | (True, w) \<Rightarrow> (True, unlink (rtsp_marker_path state_dir) w)))))"

section \<open>Checking a password\<close>

definition auth_separator :: "char \<Rightarrow> bool" where
  "auth_separator c = (c = CHR '':'' \<or> c = CHR 0x0D \<or> c = NL)"

text \<open>The fields of the database: rounds, salt, key and whether to warn.\<close>

definition parse_auth :: "byte list \<Rightarrow> (nat \<times> byte list \<times> byte list \<times> bool) option" where
  "parse_auth raw =
     (case c_tokens auth_separator (c_string raw) of
        v # r # s # k # m # _ \<Rightarrow>
          if v \<noteq> ''v1'' then None
          else (case joan_unhex s 16 of None \<Rightarrow> None | Some salt \<Rightarrow>
               (case joan_unhex k 32 of None \<Rightarrow> None | Some key \<Rightarrow>
                  let rounds = fst (c_strtoul r)
                  in if rounds < 50000 \<or> 1000000 < rounds then None
                     else Some (rounds, salt, key, c_atoi m \<noteq> 0)))
      | _ \<Rightarrow> None)"

text \<open>\<open>None\<close> if the password is refused, else whether it has to be changed.\<close>

definition verify ::
  "'e auth_env_scheme \<Rightarrow> string \<Rightarrow> string \<Rightarrow> 'w store_scheme \<Rightarrow> bool option \<times> 'w store_scheme" where
  "verify env state_dir password w =
     (case joan_read_file env (auth_path state_dir) 512 w of
        (None, w) \<Rightarrow> (None, w)
      | (Some raw, w) \<Rightarrow>
          (case parse_auth raw of
             None \<Rightarrow> (None, w)
           | Some (rounds, salt, want, must) \<Rightarrow>
               (case joan_pbkdf2_sha256 (env_garbage env) (bytes_of password) salt (of_nat rounds) 32 of
                  None \<Rightarrow> (None, w)
                | Some got \<Rightarrow> (if joan_ct_equal got want 32 then Some must else None, w))))"

section \<open>Start\<close>

definition refresh_oem_rtsp_secret ::
  "'e auth_env_scheme \<Rightarrow> string \<Rightarrow> 'w store_scheme \<Rightarrow> bool \<times> 'w store_scheme" where
  "refresh_oem_rtsp_secret env state_dir w =
     (if 512 \<le> length (state_dir @ ''/rtsp.password'') \<or> 512 \<le> length (state_dir @ ''/rtsp.synced'') then (False, w)
      else case joan_random env 12 w of
        (None, w) \<Rightarrow> (False, w)
      | (Some raw, w) \<Rightarrow>
          joan_write_atomic env (rtsp_path state_dir) (bytes_of (joan_hex raw @ [NL]))
            (unlink (rtsp_marker_path state_dir) w))"

definition joan_auth_init ::
  "'e auth_env_scheme \<Rightarrow> string \<Rightarrow> 'w store_scheme \<Rightarrow> bool \<times> 'w store_scheme" where
  "joan_auth_init env state_dir w =
     (case joan_mkdir_p env state_dir w of
        (False, w) \<Rightarrow> (False, w)
      | (True, w) \<Rightarrow>
          if files w (auth_path state_dir) = None then save_record env state_dir DEFAULT_PASSWORD True w
          else case ssh_password_path env state_dir w of
            (None, w) \<Rightarrow> (False, w)
          | (Some ssh_file, w) \<Rightarrow>
              if files w ssh_file \<noteq> None \<and> files w (rtsp_path state_dir) \<noteq> None
              then (True, snd (refresh_oem_rtsp_secret env state_dir w))
              else case verify env state_dir DEFAULT_PASSWORD w of
                (Some _, w) \<Rightarrow> save_record env state_dir DEFAULT_PASSWORD True w
              | (None, w) \<Rightarrow> (True, snd (refresh_oem_rtsp_secret env state_dir w)))"

definition last_field :: "string \<Rightarrow> string option" where
  "last_field s = (if CHR '':'' \<in> set s then Some (rev (takeWhile (\<lambda>c. c \<noteq> CHR '':'') (rev s))) else None)"

definition joan_auth_setup_required ::
  "'e auth_env_scheme \<Rightarrow> string \<Rightarrow> 'w store_scheme \<Rightarrow> bool \<times> 'w store_scheme" where
  "joan_auth_setup_required env state_dir w =
     (case joan_read_file env (auth_path state_dir) 512 w of
        (None, w) \<Rightarrow> (True, w)
      | (Some raw, w) \<Rightarrow>
          (if length raw < 2 then True
           else case last_field (c_string raw) of None \<Rightarrow> True | Some f \<Rightarrow> c_atoi f \<noteq> 0, w))"

text \<open>The first line of the SSH record, as \<open>fgets\<close> with 512 bytes reads it.\<close>

definition joan_auth_ssh_synchronized ::
  "'e auth_env_scheme \<Rightarrow> string \<Rightarrow> 'w store_scheme \<Rightarrow> bool \<times> 'w store_scheme" where
  "joan_auth_ssh_synchronized env state_dir w =
     (case ssh_password_path env state_dir w of
        (None, w) \<Rightarrow> (False, w)
      | (Some path, w) \<Rightarrow>
          (case files w path of
             None \<Rightarrow> False
           | Some c \<Rightarrow>
               let line = c_string (take 511 (takeWhile (\<lambda>b. b \<noteq> 10) c @ (if 10 \<in> set c then [10] else [])))
               in c \<noteq> [] \<and> take 7 line = ''admin:$'' \<and> NL \<in> set line, w))"

definition joan_auth_rtsp_synchronized ::
  "'e auth_env_scheme \<Rightarrow> string \<Rightarrow> 'w store_scheme \<Rightarrow> bool \<times> 'w store_scheme" where
  "joan_auth_rtsp_synchronized env state_dir w =
     (case joan_read_file env (rtsp_path state_dir) 512 w of
        (None, w) \<Rightarrow> (False, w)
      | (Some secret, w) \<Rightarrow>
          (case joan_read_file env (rtsp_marker_path state_dir) 128 w of
             (None, w) \<Rightarrow> (False, w)
           | (Some marker, w) \<Rightarrow>
               (64 \<le> length marker \<and>
                take 64 marker = bytes_of (joan_hex (joan_sha256 (env_garbage env) secret)), w)))"

section \<open>What the operations change on flash\<close>

lemma read_file_files: "joan_read_file env p n w = (r, w') \<Longrightarrow> files w' = files w"
  by (auto simp: joan_read_file_def split: option.splits if_splits)

lemma random_files: "joan_random env n w = (r, w') \<Longrightarrow> files w' = files w"
  by (auto simp: joan_random_def)

lemma mkdir_all_files: "mkdir_all env ps w = (r, w') \<Longrightarrow> files w' = files w"
  by (induction ps arbitrary: w) (auto split: if_splits)

lemma mkdir_p_files: "joan_mkdir_p env p w = (r, w') \<Longrightarrow> files w' = files w"
  by (auto simp: joan_mkdir_p_def split: if_splits dest: mkdir_all_files)

lemma ssh_path_files: "ssh_password_path env sd w = (r, w') \<Longrightarrow> files w' = files w"
  by (auto simp: ssh_password_path_def Let_def split: if_splits prod.splits dest: mkdir_p_files)

lemma ssh_path_Some: "ssh_password_path env sd w = (Some p, w') \<Longrightarrow> p = sd @ ''/ssh/passwd''"
  by (auto simp: ssh_password_path_def Let_def split: if_splits prod.splits)

lemma build_records_files: "build_records env pw b w = (r, w') \<Longrightarrow> files w' = files w"
  by (auto simp: build_records_def Let_def split: option.splits prod.splits if_splits dest!: random_files)

lemma verify_files: "verify env sd pw w = (r, w') \<Longrightarrow> files w' = files w"
  by (auto simp: verify_def split: option.splits prod.splits dest!: read_file_files)

lemmas quiet_files = read_file_files random_files mkdir_p_files ssh_path_files build_records_files verify_files

lemma write_atomic_other: "p \<noteq> path \<Longrightarrow> files (snd (joan_write_atomic env path c w)) p = files w p"
  using write_atomic_files [of env path c w] by (cases "joan_write_atomic env path c w") (simp split: if_splits)

lemma restore_other: "p \<noteq> path \<Longrightarrow> files (restore env path old w) p = files w p"
  by (simp add: restore_def write_atomic_other split: option.splits)

text \<open>Paths of a state directory that fits its field of the configuration.\<close>

lemma paths:
  assumes "length sd < 256"
  shows "auth_path sd = sd @ ''/auth.db''" "rtsp_path sd = sd @ ''/rtsp.password''"
    "rtsp_marker_path sd = sd @ ''/rtsp.synced''" "remembered_path sd = sd @ ''/sessions.db''"
  using assms by (simp_all add: auth_path_def rtsp_path_def rtsp_marker_path_def remembered_path_def)

lemma saved_fields:
  assumes "length salt = 16" "length key = 32"
  shows "parse_auth (bytes_of (auth_record salt key b)) = Some (120000, salt, key, b)"
proof -
  let ?r = "auth_record salt key b"
  have n0: "CHR 0x00 \<notin> set ?r"
    using lower_hex_facts(5) joan_hex_lower dec_digits
    by (fastforce simp: auth_record_def c_isdigit_def c_code_def)
  have dec: "list_all (\<lambda>c. \<not> auth_separator c) (c_dec n)" for n
    using dec_digits [of _ n] digit_facts by (auto simp: list_all_iff auth_separator_def)
  have hex: "list_all (\<lambda>c. \<not> auth_separator c) (joan_hex bs)" for bs
    using joan_hex_lower [of _ bs] lower_hex_facts by (auto simp: list_all_iff auth_separator_def)
  have sep: "auth_separator (CHR '':'')" "auth_separator NL" by (simp_all add: auth_separator_def)
  have ne: "joan_hex salt \<noteq> []" "joan_hex key \<noteq> []"
    using assms length_joan_hex [of salt] length_joan_hex [of key] by force+
  have v: "c_tokens auth_separator (''v1'' @ CHR '':'' # s) = ''v1'' # c_tokens auth_separator s" for s
    by (rule c_tokens_field) (simp_all add: auth_separator_def)
  have e: "?r = ''v1'' @ CHR '':'' # (c_dec 120000 @ CHR '':'' # (joan_hex salt @ CHR '':'' # (joan_hex key @ CHR '':'' #
      (c_dec (if b then 1 else 0) @ NL # []))))"
    by (simp add: auth_record_def PBKDF2_ROUNDS_def)
  have t: "c_tokens auth_separator ?r = [''v1'', c_dec 120000, joan_hex salt, joan_hex key, c_dec (if b then 1 else 0)]"
    unfolding e
    by (simp only: v c_tokens_field [OF ne(1) hex sep(1)] c_tokens_field [OF ne(2) hex sep(1)]
        c_tokens_field [OF dec_nonempty dec sep(1)] c_tokens_field [OF dec_nonempty dec sep(2)] c_tokens_Nil)
  have r: "c_strtoul (c_dec 120000) = (120000, [])"
    using strtoul_dec [of 120000 "[]"] by (simp add: c_isdigit_def c_code_def)
  have m: "c_atoi (c_dec (if b then 1 else 0)) \<noteq> 0 \<longleftrightarrow> b"
    using strtoll_dec_nat [of "if b then 1 else 0" "[]"]
    by (simp add: c_atoi_def c_isdigit_def c_code_def c_int_def split: if_splits)
  show ?thesis
    using joan_unhex_hex [of salt] joan_unhex_hex [of key] assms
    unfolding parse_auth_def c_string_bytes_of [OF n0] t by (simp add: r m)
qed

text \<open>A file system whose reads succeed.\<close>

definition reads_ok :: "'e auth_env_scheme \<Rightarrow> bool" where
  "reads_ok env \<longleftrightarrow> (\<forall>n. env_read env n) \<and> length (env_garbage env) = 64 \<and>
     (\<forall>n k bs. env_random env n k = Some bs \<longrightarrow> length bs = k)"

definition derived_key :: "string \<Rightarrow> byte list \<Rightarrow> nat \<Rightarrow> byte list" where
  "derived_key password salt rounds =
     take 32 (concat (map (\<lambda>j. pbkdf2_T (bytes_of password) salt rounds (1 + of_nat j)) [0..<(32 + 31) div 32]))"

lemma derived_key_eq:
  assumes "length (env_garbage env) = 64" "length salt = 16" "0 < rounds" "rounds < 2 ^ 32"
  shows "joan_pbkdf2_sha256 (env_garbage env) (bytes_of pw) salt (of_nat rounds) 32 = Some (derived_key pw salt rounds)"
proof -
  have u: "unat (of_nat rounds :: u32) = rounds"
    using assms(4) by (simp add: unsigned_of_nat take_bit_nat_eq_self)
  have "(of_nat rounds :: u32) \<noteq> 0" using u assms(3) by (metis less_irrefl unsigned_0)
  then show ?thesis using assms u unfolding joan_pbkdf2_sha256_def derived_key_def
    by (simp add: pbkdf2_blocks_eq del: upt_Suc)
qed

lemma length_derived_key: "length (derived_key pw salt r) = 32"
  by (simp add: derived_key_def length_pbkdf2_T)

text \<open>What a password and a database have to do with each other.\<close>

definition matches :: "string \<Rightarrow> byte list \<Rightarrow> bool option" where
  "matches password raw =
     (if 512 < length raw then None
      else case parse_auth raw of None \<Rightarrow> None
       | Some (rounds, salt, want, must) \<Rightarrow> if derived_key password salt rounds = want then Some must else None)"

lemma unhex_length: "joan_unhex s n = Some bs \<Longrightarrow> length bs = n"
  using unhex_loop_length [of s n] by (auto simp: joan_unhex_def split: option.splits if_splits prod.splits)

lemma parse_auth_lengths:
  "parse_auth raw = Some (rounds, salt, key, must) \<Longrightarrow>
     length salt = 16 \<and> length key = 32 \<and> 50000 \<le> rounds \<and> rounds \<le> 1000000"
  by (auto simp: parse_auth_def Let_def split: list.splits option.splits if_splits dest!: unhex_length)

lemma verify_matches:
  assumes "reads_ok env" "files w (auth_path sd) = Some raw"
  shows "fst (verify env sd pw w) = matches pw raw"
proof (cases "512 < length raw")
  case True
  then show ?thesis using assms by (simp add: verify_def joan_read_file_def matches_def)
next
  case False
  then have r: "joan_read_file env (auth_path sd) 512 w = (Some raw, s_next w)"
    using assms by (simp add: joan_read_file_def reads_ok_def)
  show ?thesis
  proof (cases "parse_auth raw")
    case None
    then show ?thesis using False by (simp add: verify_def r matches_def)
  next
    case (Some a)
    obtain rounds salt key must where a: "a = (rounds, salt, key, must)" by (metis prod_cases4)
    note l = parse_auth_lengths [OF Some [unfolded a]]
    have "joan_pbkdf2_sha256 (env_garbage env) (bytes_of pw) salt (of_nat rounds) 32 = Some (derived_key pw salt rounds)"
      by (rule derived_key_eq) (use assms(1) l in \<open>auto simp: reads_ok_def\<close>)
    then show ?thesis using False Some a l
      by (simp add: verify_def r matches_def joan_ct_equal_iff length_derived_key)
  qed
qed

lemma build_records_Some:
  assumes "build_records env pw warning w = (Some r, w')" "reads_ok env"
  shows "\<exists>salt. length salt = 16 \<and> rec_auth r = auth_record salt (derived_key pw salt 120000) warning"
proof -
  obtain salt w1 where s: "joan_random env 16 w = (Some salt, w1)"
    using assms(1) by (cases "joan_random env 16 w") (auto simp: build_records_def split: option.splits)
  have l: "length salt = 16" using s assms(2) by (auto simp: joan_random_def reads_ok_def)
  have "joan_pbkdf2_sha256 (env_garbage env) (bytes_of pw) salt (of_nat PBKDF2_ROUNDS) 32 = Some (derived_key pw salt 120000)"
    unfolding PBKDF2_ROUNDS_def by (rule derived_key_eq) (use assms(2) l in \<open>simp_all add: reads_ok_def\<close>)
  then have "rec_auth r = auth_record salt (derived_key pw salt 120000) warning"
    using assms(1) s by (auto simp: build_records_def Let_def split: if_splits option.splits prod.splits)
  with l show ?thesis by blast
qed

text \<open>The whole of \<open>save_record\<close> once the records are built and the paths are known.\<close>

lemma save_record_steps:
  assumes "save_record env sd pw warning w = (ok, w')" "length sd < 256"
  obtains (early) "\<not> ok" "files w' = files w"
  | (run) r w1 oa where "build_records env pw warning w = (Some r, w1)"
      "oa = fst (joan_read_file env (auth_path sd) 512 (snd (ssh_password_path env sd w1)))"
      "(if ok then files w' = (files w)(sd @ ''/ssh/passwd'' \<mapsto> bytes_of (rec_ssh r),
            sd @ ''/rtsp.password'' \<mapsto> bytes_of (rec_rtsp r),
            auth_path sd \<mapsto> bytes_of (rec_auth r), rtsp_marker_path sd := None)
        else files w' (auth_path sd) = (if oa = None then None else files w (auth_path sd)))"
proof (cases "build_records env pw warning w")
  case (Pair r0 w1)
  note f1 = build_records_files [OF Pair]
  show ?thesis
  proof (cases r0)
    case None
    then show ?thesis using assms(1) Pair f1 early by (simp add: save_record_def)
  next
    case (Some r)
    obtain p0 w2 where 2: "ssh_password_path env sd w1 = (p0, w2)" by fastforce
    note f2 = ssh_path_files [OF 2]
    show ?thesis
    proof (cases p0)
      case None
      then show ?thesis using assms(1) Pair Some 2 f1 f2 early by (simp add: save_record_def)
    next
      case p: (Some ssh)
      have ssh: "ssh = sd @ ''/ssh/passwd''" using ssh_path_Some 2 p by blast
      obtain oa w3 where 3: "joan_read_file env (auth_path sd) 512 w2 = (oa, w3)" by fastforce
      obtain os w4 where 4: "joan_read_file env ssh 1024 w3 = (os, w4)" by fastforce
      obtain ort w5 where 5: "joan_read_file env (sd @ ''/rtsp.password'') 512 w4 = (ort, w5)" by fastforce
      obtain b6 w6 where 6: "joan_write_atomic env ssh (bytes_of (rec_ssh r)) w5 = (b6, w6)" by fastforce
      obtain b7 w7 where 7: "joan_write_atomic env (sd @ ''/rtsp.password'') (bytes_of (rec_rtsp r)) w6 = (b7, w7)" by fastforce
      obtain b8 w8 where 8: "joan_write_atomic env (auth_path sd) (bytes_of (rec_auth r)) w7 = (b8, w8)" by fastforce
      have f5: "files w5 = files w" using f1 f2 read_file_files [OF 3] read_file_files [OF 4] read_file_files [OF 5] by simp
      note f6 = write_atomic_files [OF 6] and f7 = write_atomic_files [OF 7] and f8 = write_atomic_files [OF 8]
      have ne: "auth_path sd \<noteq> ssh" "auth_path sd \<noteq> sd @ ''/rtsp.password''" "auth_path sd \<noteq> sd @ ''/ssh/passwd''"
        using assms(2) by (simp_all add: paths ssh)
      have len: "\<not> 512 \<le> length (sd @ ''/rtsp.password'')" using assms(2) by simp
      let ?fail = "\<lambda>w. (False, if oa = None then unlink (auth_path sd) w else w)"
      have e: "(ok, w') = (if \<not> b6 then ?fail w6 else if \<not> b7 then ?fail (restore env ssh os w7)
          else if \<not> b8 then ?fail (restore env (sd @ ''/rtsp.password'') ort (restore env ssh os w8))
          else (True, unlink (rtsp_marker_path sd) w8))"
        using assms(1) Pair Some 2 p 3 4 5 6 7 8 len
        by (cases b6; cases b7; cases b8) (simp_all add: save_record_def Let_def)
      show ?thesis
      proof (rule run)
        show "build_records env pw warning w = (Some r, w1)" using Pair Some by simp
        show "oa = fst (joan_read_file env (auth_path sd) 512 (snd (ssh_password_path env sd w1)))"
          using 2 3 by simp
        show "if ok then files w' = (files w)(sd @ ''/ssh/passwd'' \<mapsto> bytes_of (rec_ssh r),
              sd @ ''/rtsp.password'' \<mapsto> bytes_of (rec_rtsp r),
              auth_path sd \<mapsto> bytes_of (rec_auth r), rtsp_marker_path sd := None)
          else files w' (auth_path sd) = (if oa = None then None else files w (auth_path sd))"
          using e f5 f6 f7 f8 ne by (auto simp: restore_other ssh [symmetric] split: if_splits)
      qed
    qed
  qed
qed

lemma read_file_ok:
  "reads_ok env \<Longrightarrow> files w p = Some c \<Longrightarrow> length c \<le> n \<Longrightarrow> joan_read_file env p n w = (Some c, s_next w)"
  by (simp add: joan_read_file_def reads_ok_def)

text \<open>
  Saving a password. If it succeeds, the database is the new one: it lets in exactly
  the passwords whose key under the new salt is the new password's, with the warning that
  was asked for. If it fails, wherever it fails, the database is the one from before, so a
  failed change never locks the owner out and never lets a new password in.
\<close>

theorem save_record_verifies:
  assumes "save_record env sd pw warning w = (ok, w')" "length sd < 256" "reads_ok env"
    and "files w (auth_path sd) = None \<or> (\<exists>c. files w (auth_path sd) = Some c \<and> length c \<le> 512)"
  shows "if ok then \<exists>salt. length salt = 16 \<and> (\<forall>pw2. fst (verify env sd pw2 w') =
             (if derived_key pw2 salt 120000 = derived_key pw salt 120000 then Some warning else None))
         else files w' (auth_path sd) = files w (auth_path sd)"
  using assms(1,2)
proof (cases rule: save_record_steps)
  case early
  then show ?thesis by simp
next
  case (run r w1 oa)
  show ?thesis
  proof (cases ok)
    case False
    have f: "files (snd (ssh_password_path env sd w1)) = files w"
      using build_records_files [OF run(1)] ssh_path_files [of env sd w1] by (cases "ssh_password_path env sd w1") simp
    show ?thesis
    proof (cases "files w (auth_path sd)")
      case None
      then show ?thesis using run(3) False by (auto split: if_splits)
    next
      case (Some c)
      then have "length c \<le> 512" using assms(4) by auto
      with Some f have "oa = Some c"
        using run(2) read_file_ok [OF assms(3), of "snd (ssh_password_path env sd w1)" "auth_path sd" c 512] by simp
      then show ?thesis using run(3) False by simp
    qed
  next
    case True
    obtain salt where s: "length salt = 16" "rec_auth r = auth_record salt (derived_key pw salt 120000) warning"
      using build_records_Some [OF run(1) assms(3)] by blast
    have "auth_path sd \<noteq> rtsp_marker_path sd" using assms(2) by (simp add: paths)
    then have raw: "files w' (auth_path sd) = Some (bytes_of (rec_auth r))" using run(3) True by simp
    have p: "parse_auth (bytes_of (rec_auth r)) = Some (120000, salt, derived_key pw salt 120000, warning)"
      unfolding s(2) by (rule saved_fields) (simp_all add: s(1) length_derived_key)
    have "length (rec_auth r) < 192"
      using run(1) by (auto simp: build_records_def Let_def split: option.splits prod.splits if_splits)
    then have "fst (verify env sd pw2 w') =
        (if derived_key pw2 salt 120000 = derived_key pw salt 120000 then Some warning else None)" for pw2
      unfolding verify_matches [OF assms(3) raw] by (simp add: matches_def p)
    with s(1) True show ?thesis by auto
  qed
qed

definition sample_store_env :: auth_env where
  "sample_store_env = \<lparr> env_tmp_suffix = ''1'', env_open = (\<lambda>n. n \<noteq> 9), env_write = (\<lambda>n k. Some k),
     env_fsync = (\<lambda>n. True), env_rename = (\<lambda>n. True), env_read = (\<lambda>n. True), env_mkdir = (\<lambda>n. True),
     env_random = (\<lambda>n k. Some (replicate k 7)), env_crypt = (\<lambda>p s. Some (s @ ''x'')),
     env_garbage = replicate 64 0, env_monotonic_s = (\<lambda>n. Some (int n)), env_wall = (\<lambda>n. 1700000000 + int n) \<rparr>"

lemma sample_store_reads: "reads_ok sample_store_env"
  by (simp add: reads_ok_def sample_store_env_def)

lemma save_record_verifies_witness:
  "\<exists>ok w'. save_record sample_store_env ''/data'' ''secret'' False \<lparr> s_tick = 0, files = \<lambda>p. None \<rparr> = (ok, w') \<and>
     (if ok then \<exists>salt. length salt = 16 \<and> (\<forall>pw2. fst (verify sample_store_env ''/data'' pw2 w') =
         (if derived_key pw2 salt 120000 = derived_key ''secret'' salt 120000 then Some False else None))
      else files w' (auth_path ''/data'') = None)"
proof -
  obtain ok w' where s: "save_record sample_store_env ''/data'' ''secret'' False \<lparr> s_tick = 0, files = \<lambda>p. None \<rparr> = (ok, w')"
    by fastforce
  have "if ok then \<exists>salt. length salt = 16 \<and> (\<forall>pw2. fst (verify sample_store_env ''/data'' pw2 w') =
         (if derived_key pw2 salt 120000 = derived_key ''secret'' salt 120000 then Some False else None))
      else files w' (auth_path ''/data'') = files \<lparr> s_tick = 0, files = \<lambda>p. None \<rparr> (auth_path ''/data'')"
    by (rule save_record_verifies [OF s _ sample_store_reads]) simp_all
  with s show ?thesis by simp
qed

text \<open>
  A start of the daemon never replaces a password the owner has set: if there is a
  database and it does not let the default password in, the database is untouched.
\<close>

theorem init_keeps_password:
  fixes w :: "'w store_scheme"
  assumes "files w (auth_path sd) = Some c" "matches DEFAULT_PASSWORD c = None"
    and "length sd < 256" "reads_ok env"
  shows "files (snd (joan_auth_init env sd w)) (auth_path sd) = Some c"
proof -
  obtain b1 w1 where 1: "joan_mkdir_p env sd w = (b1, w1)" by fastforce
  obtain p2 w2 where 2: "ssh_password_path env sd w1 = (p2, w2)" by fastforce
  obtain v3 w3 where 3: "verify env sd DEFAULT_PASSWORD w2 = (v3, w3)" by fastforce
  have f: "files w1 = files w" "files w2 = files w" "files w3 = files w"
    using mkdir_p_files [OF 1] ssh_path_files [OF 2] verify_files [OF 3] by simp_all
  have v: "v3 = None" using verify_matches [of env w2 sd c DEFAULT_PASSWORD] assms f 3 by simp
  have r: "files (snd (refresh_oem_rtsp_secret env sd u)) (auth_path sd) = files u (auth_path sd)" for u :: "'w store_scheme"
  proof -
    have "auth_path sd \<noteq> rtsp_path sd" "auth_path sd \<noteq> rtsp_marker_path sd" using assms(3) by (simp_all add: paths)
    then show ?thesis
      by (auto simp: refresh_oem_rtsp_secret_def write_atomic_other split: prod.splits option.splits
          dest!: random_files)
  qed
  show ?thesis
    using assms(1) 1 2 3 f v r by (auto simp: joan_auth_init_def split: bool.splits option.splits)
qed

lemma init_keeps_password_witness:
  "files (snd (joan_auth_init sample_store_env ''/data''
     \<lparr> s_tick = 0, files = (\<lambda>p. None)(''/data/auth.db'' \<mapsto> bytes_of ''damaged'') \<rparr>)) (auth_path ''/data'') = Some (bytes_of ''damaged'')"
proof (rule init_keeps_password)
  show "matches DEFAULT_PASSWORD (bytes_of ''damaged'') = None" by code_simp
qed (simp_all add: sample_store_reads auth_path_def)

end
