(* ===== verification/Auth.thy ===== *)
theory Auth
  imports Auth_Store
begin

text \<open>
  Signing in to the admin daemon (\<open>src/daemon/auth.c\<close>): the sessions in memory, the
  sign-ins remembered across restarts, the throttle on failed passwords, and the requests
  that use, renew and end them. The mutex of the code makes each operation one step.
\<close>

section \<open>State\<close>

definition SESSION_SECONDS :: int where "SESSION_SECONDS = 1800"
definition SESSIONS :: nat where "SESSIONS = 16"
definition BUCKETS :: nat where "BUCKETS = 16"
definition REMEMBERED :: nat where "REMEMBERED = 8"
definition REMEMBER_SECONDS :: int where "REMEMBER_SECONDS = 2592000"

record session =
  used :: bool
  token :: string
  csrf :: string
  expires :: int
  must_change :: int

record remembered =
  r_used :: bool
  r_hash :: string
  r_csrf :: string
  r_until :: int
  r_must_change :: int

record bucket =
  remote :: string
  since :: int
  failures :: nat

definition no_session :: session where
  "no_session = \<lparr> used = False, token = [], csrf = [], expires = 0, must_change = 0 \<rparr>"

definition no_remembered :: remembered where
  "no_remembered = \<lparr> r_used = False, r_hash = [], r_csrf = [], r_until = 0, r_must_change = 0 \<rparr>"

definition no_bucket :: bucket where
  "no_bucket = \<lparr> remote = [], since = 0, failures = 0 \<rparr>"

record auth = store +
  sessions :: "session list"
  remembered_list :: "remembered list"
  remembered_loaded :: bool
  auth_config :: "string option"
  buckets :: "bucket list"

record authz =
  authenticated :: bool
  z_must_change :: int
  z_remember :: bool
  z_token :: string
  z_csrf :: string

definition no_authz :: authz where
  "no_authz = \<lparr> authenticated = False, z_must_change = 0, z_remember = False, z_token = [], z_csrf = [] \<rparr>"

definition auth_now :: "'e auth_env_scheme \<Rightarrow> 'w store_scheme \<Rightarrow> int \<times> 'w store_scheme" where
  "auth_now env w =
     (case env_monotonic_s env (s_tick w) of Some t \<Rightarrow> t | None \<Rightarrow> env_wall env (s_tick w), s_next w)"

definition wall_now :: "'e auth_env_scheme \<Rightarrow> 'w store_scheme \<Rightarrow> int \<times> 'w store_scheme" where
  "wall_now env w = (env_wall env (s_tick w), s_next w)"

definition token_hash :: "'e auth_env_scheme \<Rightarrow> string \<Rightarrow> string" where
  "token_hash env t = joan_hex (joan_sha256 (env_garbage env) (bytes_of (take 64 t)))"

text \<open>Two 64-character fields that the code compares in constant time.\<close>

definition same64 :: "string \<Rightarrow> string \<Rightarrow> bool" where
  "same64 a b = joan_ct_equal (bytes_of (take 64 (a @ replicate 64 (CHR 0x00))))
     (bytes_of (take 64 (b @ replicate 64 (CHR 0x00)))) 64"

section \<open>Remembered sign-ins on flash\<close>

text \<open>\<open>sscanf (line, "%64s %lld %64s %d", ...)\<close> and the length checks.\<close>

definition scan_remembered :: "string \<Rightarrow> remembered option" where
  "scan_remembered line =
     (case scan_word 64 line of None \<Rightarrow> None | Some (hash, s) \<Rightarrow>
      (case c_strtoll s of None \<Rightarrow> None | Some (until_time, s) \<Rightarrow>
      (case scan_word 64 s of None \<Rightarrow> None | Some (c, s) \<Rightarrow>
      (case c_strtoll s of None \<Rightarrow> None | Some (must, s) \<Rightarrow>
         if length hash = 64 \<and> length c = 64
         then Some \<lparr> r_used = True, r_hash = hash, r_csrf = c, r_until = until_time,
                     r_must_change = c_int must \<rparr>
         else None))))"

text \<open>The lines of the file, each ended at a NUL byte if it has one.\<close>

function split_lines :: "byte list \<Rightarrow> byte list list" where
  "split_lines bs =
     (if bs = [] then []
      else takeWhile (\<lambda>b. b \<noteq> 10) bs # split_lines (tl (dropWhile (\<lambda>b. b \<noteq> 10) bs)))"
  by pat_completeness auto
termination
proof (relation "measure length", simp)
  fix bs :: "byte list"
  assume "bs \<noteq> []"
  then show "(tl (dropWhile (\<lambda>b. b \<noteq> 10) bs), bs) \<in> measure length"
    using length_dropWhile_le [of "\<lambda>b. b \<noteq> 10" bs] by (cases bs) auto
qed

declare split_lines.simps [simp del]

fun load_lines :: "byte list list \<Rightarrow> remembered list \<Rightarrow> remembered list" where
  "load_lines [] rs = rs"
| "load_lines (l # ls) rs =
     (if REMEMBERED \<le> length rs then rs
      else case scan_remembered (c_string l) of
        None \<Rightarrow> load_lines ls rs
      | Some r \<Rightarrow> load_lines ls (rs @ [r]))"

definition remembered_load :: "'e auth_env_scheme \<Rightarrow> string \<Rightarrow> 'w auth_scheme \<Rightarrow> 'w auth_scheme" where
  "remembered_load env cfg w =
     (if remembered_loaded w then w
      else case joan_read_file env (remembered_path cfg) 4096 (w\<lparr>remembered_loaded := True\<rparr>) of
        (None, w) \<Rightarrow> w
      | (Some raw, w) \<Rightarrow>
          let rs = load_lines (split_lines raw) []
          in w\<lparr>remembered_list := rs @ drop (length rs) (remembered_list w)\<rparr>)"

definition remembered_line :: "remembered \<Rightarrow> string" where
  "remembered_line r =
     r_hash r @ '' '' @ c_dec_int (r_until r) @ '' '' @ r_csrf r @ '' '' @ c_dec_int (r_must_change r) @ [NL]"

text \<open>
  The loop of the save: entries that are free or over are cleared, the others printed,
  until the text has no room. What follows a break is left as it is.
\<close>

fun save_lines :: "int \<Rightarrow> remembered list \<Rightarrow> string \<Rightarrow> remembered list \<times> string" where
  "save_lines now [] text = ([], text)"
| "save_lines now (r # rs) text =
     (if \<not> r_used r \<or> r_until r < now
      then (case save_lines now rs text of (rs, text) \<Rightarrow> (no_remembered # rs, text))
      else if REMEMBERED * 160 \<le> length text + length (remembered_line r) then (r # rs, text)
      else (case save_lines now rs (text @ remembered_line r) of (rs, text) \<Rightarrow> (r # rs, text)))"

definition remembered_save :: "'e auth_env_scheme \<Rightarrow> string \<Rightarrow> 'w auth_scheme \<Rightarrow> 'w auth_scheme" where
  "remembered_save env cfg w =
     (let (now, w) = wall_now env w;
          (rs, text) = save_lines now (remembered_list w) [];
          w = w\<lparr>remembered_list := rs\<rparr>
      in if text = [] then unlink (remembered_path cfg) w
         else snd (joan_write_atomic env (remembered_path cfg) (bytes_of text) w))"

section \<open>The throttle\<close>

text \<open>The bucket of the address or the last one that is free, which takes it over.\<close>

fun bucket_scan :: "string \<Rightarrow> int \<Rightarrow> bucket list \<Rightarrow> nat \<Rightarrow> nat \<Rightarrow> nat + nat" where
  "bucket_scan rem now [] i free = Inr free"
| "bucket_scan rem now (b # bs) i free =
     (if remote b = rem then Inl i
      else bucket_scan rem now bs (Suc i) (if remote b = [] \<or> since b + 300 < now then i else free))"

definition bucket_for :: "string \<Rightarrow> int \<Rightarrow> 'w auth_scheme \<Rightarrow> nat \<times> 'w auth_scheme" where
  "bucket_for rem now w =
     (case bucket_scan rem now (buckets w) 0 0 of
        Inl i \<Rightarrow> (i, w)
      | Inr i \<Rightarrow> (i, w\<lparr>buckets := (buckets w)[i := \<lparr> remote = take 63 rem, since = now, failures = 0 \<rparr>]\<rparr>))"

definition joan_auth_throttled :: "'e auth_env_scheme \<Rightarrow> string \<Rightarrow> 'w auth_scheme \<Rightarrow> bool \<times> 'w auth_scheme" where
  "joan_auth_throttled env rem w =
     (let (now, w) = auth_now env w; (i, w) = bucket_for rem now w; b = buckets w ! i;
          b = (if since b + 60 < now then b\<lparr>since := now, failures := 0\<rparr> else b)
      in (5 \<le> failures b, w\<lparr>buckets := (buckets w)[i := b]\<rparr>))"

definition joan_auth_note :: "'e auth_env_scheme \<Rightarrow> string \<Rightarrow> bool \<Rightarrow> 'w auth_scheme \<Rightarrow> 'w auth_scheme" where
  "joan_auth_note env rem ok w =
     (let (now, w) = auth_now env w; (i, w) = bucket_for rem now w; b = buckets w ! i
      in w\<lparr>buckets := (buckets w)[i := b\<lparr>failures := (if ok then 0 else Suc (failures b))\<rparr>]\<rparr>)"

section \<open>Signing in\<close>

text \<open>The first slot that is free or over, or the first slot.\<close>

fun session_slot :: "int \<Rightarrow> session list \<Rightarrow> nat \<Rightarrow> nat" where
  "session_slot now [] i = 0"
| "session_slot now (s # ss) i = (if \<not> used s \<or> expires s < now then i else session_slot now ss (Suc i))"

fun remembered_slot :: "remembered list \<Rightarrow> nat \<Rightarrow> nat \<Rightarrow> int \<Rightarrow> nat" where
  "remembered_slot [] i slot oldest = slot"
| "remembered_slot (r # rs) i slot oldest =
     (if \<not> r_used r then i
      else if oldest = -1 \<or> r_until r < oldest then remembered_slot rs (Suc i) i (r_until r)
      else remembered_slot rs (Suc i) slot oldest)"

definition remember_sign_in :: "'e auth_env_scheme \<Rightarrow> string \<Rightarrow> session \<Rightarrow> 'w auth_scheme \<Rightarrow> 'w auth_scheme" where
  "remember_sign_in env cfg s w =
     (let w = remembered_load env cfg w;
          slot = remembered_slot (remembered_list w) 0 0 (-1);
          (wall, w) = wall_now env w;
          r = \<lparr> r_used = True, r_hash = token_hash env (token s), r_csrf = csrf s,
                r_until = wall + REMEMBER_SECONDS, r_must_change = must_change s \<rparr>
      in remembered_save env cfg (w\<lparr>remembered_list := (remembered_list w)[slot := r]\<rparr>))"

text \<open>The result is 0, -1 or -2 as in the code.\<close>

definition joan_auth_login ::
  "'e auth_env_scheme \<Rightarrow> string \<Rightarrow> string \<Rightarrow> string \<Rightarrow> string \<Rightarrow> bool \<Rightarrow> 'w auth_scheme
     \<Rightarrow> int \<times> authz \<times> 'w auth_scheme" where
  "joan_auth_login env cfg rem user password remember w =
     (let (now, w) = auth_now env w;
          (limited, w) = joan_auth_throttled env rem w
      in if limited then (-2, no_authz, w)
         else
           let (ok, w) = (if user = ''admin'' then verify env cfg password w else (None, w))
           in case ok of
                None \<Rightarrow> (-1, no_authz, joan_auth_note env rem False w)
              | Some must \<Rightarrow>
                  (case joan_random env 32 w of
                     (None, w) \<Rightarrow> (-1, no_authz, w)
                   | (Some rnd, w) \<Rightarrow>
                       let i = session_slot now (sessions w) 0;
                           s = \<lparr> used = True, token = joan_hex rnd, csrf = [], expires = now + SESSION_SECONDS,
                                 must_change = (if must then 1 else 0) \<rparr>
                       in case joan_random env 32 w of
                            (None, w) \<Rightarrow> (-1, no_authz, w\<lparr>sessions := (sessions w)[i := no_session]\<rparr>)
                          | (Some rnd, w) \<Rightarrow>
                              let s = s\<lparr>csrf := joan_hex rnd\<rparr>;
                                  w = w\<lparr>sessions := (sessions w)[i := s]\<rparr>;
                                  w = (if remember then remember_sign_in env cfg s w else w);
                                  (b, w) = bucket_for rem now w
                              in (0, \<lparr> authenticated = True, z_must_change = must_change s, z_remember = remember,
                                       z_token = token s, z_csrf = csrf s \<rparr>,
                                  w\<lparr>buckets := (buckets w)[b := (buckets w ! b)\<lparr>failures := 0\<rparr>]\<rparr>)))"

section \<open>Requests\<close>

lemma cookie_name_nonempty: "take 13 s = ''joan_session='' \<Longrightarrow> s \<noteq> []"
  by auto

text \<open>The candidates of the cookie: 64 characters after the name at a boundary.\<close>

function cookie_tokens :: "char option \<Rightarrow> string \<Rightarrow> string list" where
  "cookie_tokens prev s =
     (if take 13 s = ''joan_session='' then
        let t = drop 13 s; v = takeWhile (\<lambda>c. c \<noteq> CHR '';'' \<and> c \<noteq> CHR '' '' \<and> c \<noteq> CHR 0x0D \<and> c \<noteq> NL) t
        in if (prev = None \<or> prev = Some (CHR '' '') \<or> prev = Some (CHR '';'')) \<and> length v = 64
           then v # cookie_tokens (Some (last v)) (drop 64 t)
           else cookie_tokens (Some (CHR ''='')) t
      else case s of [] \<Rightarrow> [] | c # cs \<Rightarrow> cookie_tokens (Some c) cs)"
  by pat_completeness auto
termination
  by (relation "measure (length \<circ> snd)") (auto dest: cookie_name_nonempty)

declare cookie_tokens.simps [simp del]

definition csrf_ok :: "bool \<Rightarrow> string \<Rightarrow> string \<Rightarrow> bool" where
  "csrf_ok require_csrf given expected \<longleftrightarrow> \<not> require_csrf \<or> given \<noteq> [] \<and> same64 given expected"

text \<open>The first live session with the token.\<close>

fun live_session :: "int \<Rightarrow> string \<Rightarrow> session list \<Rightarrow> nat \<Rightarrow> nat option" where
  "live_session now t [] i = None"
| "live_session now t (s # ss) i =
     (if used s \<and> now \<le> expires s \<and> same64 t (token s) then Some i else live_session now t ss (Suc i))"

fun match_session :: "int \<Rightarrow> bool \<Rightarrow> string \<Rightarrow> session list \<Rightarrow> string list \<Rightarrow> bool \<Rightarrow> nat option \<times> bool" where
  "match_session now require_csrf given ss [] bad = (None, bad)"
| "match_session now require_csrf given ss (t # ts) bad =
     (case live_session now t ss 0 of
        None \<Rightarrow> match_session now require_csrf given ss ts bad
      | Some i \<Rightarrow>
          if csrf_ok require_csrf given (csrf (ss ! i)) then (Some i, bad)
          else match_session now require_csrf given ss ts True)"

fun live_remembered :: "int \<Rightarrow> string \<Rightarrow> remembered list \<Rightarrow> nat \<Rightarrow> nat option" where
  "live_remembered wall h [] i = None"
| "live_remembered wall h (r # rs) i =
     (if r_used r \<and> wall \<le> r_until r \<and> same64 h (r_hash r) then Some i else live_remembered wall h rs (Suc i))"

fun match_remembered ::
  "'e auth_env_scheme \<Rightarrow> int \<Rightarrow> bool \<Rightarrow> string \<Rightarrow> remembered list \<Rightarrow> string list \<Rightarrow> bool \<Rightarrow> (nat \<times> string) option \<times> bool" where
  "match_remembered env wall require_csrf given rs [] bad = (None, bad)"
| "match_remembered env wall require_csrf given rs (t # ts) bad =
     (case live_remembered wall (token_hash env t) rs 0 of
        None \<Rightarrow> match_remembered env wall require_csrf given rs ts bad
      | Some i \<Rightarrow>
          if csrf_ok require_csrf given (r_csrf (rs ! i)) then (Some (i, t), bad)
          else match_remembered env wall require_csrf given rs ts True)"

definition joan_auth_request ::
  "'e auth_env_scheme \<Rightarrow> string \<Rightarrow> string \<Rightarrow> bool \<Rightarrow> 'w auth_scheme \<Rightarrow> int \<times> authz \<times> 'w auth_scheme" where
  "joan_auth_request env cookie given require_csrf w =
     (let (now, w) = auth_now env w; ts = cookie_tokens None cookie
      in case match_session now require_csrf given (sessions w) ts False of
           (Some i, _) \<Rightarrow>
             let s = (sessions w ! i)\<lparr>expires := now + SESSION_SECONDS\<rparr>
             in (0, \<lparr> authenticated = True, z_must_change = must_change s, z_remember = False,
                      z_token = token s, z_csrf = csrf s \<rparr>, w\<lparr>sessions := (sessions w)[i := s]\<rparr>)
         | (None, bad) \<Rightarrow>
             if bad then (-2, no_authz, w)
             else case auth_config w of
               None \<Rightarrow> (-1, no_authz, w)
             | Some cfg \<Rightarrow>
                 let (wall, w) = wall_now env w; w = remembered_load env cfg w
                 in case match_remembered env wall require_csrf given (remembered_list w) ts False of
                      (Some (i, t), _) \<Rightarrow>
                        let r = remembered_list w ! i; j = session_slot now (sessions w) 0;
                            s = \<lparr> used = True, token = t, csrf = r_csrf r, expires = now + SESSION_SECONDS,
                                  must_change = r_must_change r \<rparr>
                        in (0, \<lparr> authenticated = True, z_must_change = must_change s, z_remember = True,
                                 z_token = token s, z_csrf = csrf s \<rparr>, w\<lparr>sessions := (sessions w)[j := s]\<rparr>)
                    | (None, bad) \<Rightarrow> (if bad then -2 else -1, no_authz, w))"

section \<open>Changing the password and signing out\<close>

definition password_acceptable :: "string \<Rightarrow> bool" where
  "password_acceptable p \<longleftrightarrow> p \<noteq> [] \<and> length p \<le> 128 \<and> list_all (\<lambda>c. 32 \<le> c_code c \<and> c_code c \<noteq> 127) p"

definition forget_everyone :: "'e auth_env_scheme \<Rightarrow> string \<Rightarrow> 'w auth_scheme \<Rightarrow> 'w auth_scheme" where
  "forget_everyone env cfg w =
     (let w = remembered_load env cfg (w\<lparr>sessions := replicate SESSIONS no_session\<rparr>)
      in remembered_save env cfg (w\<lparr>remembered_list := replicate REMEMBERED no_remembered\<rparr>))"

definition joan_auth_change_password ::
  "'e auth_env_scheme \<Rightarrow> string \<Rightarrow> authz \<Rightarrow> string \<Rightarrow> string \<Rightarrow> 'w auth_scheme \<Rightarrow> bool \<times> 'w auth_scheme" where
  "joan_auth_change_password env cfg z old_password new_password w =
     (if \<not> password_acceptable new_password \<or> \<not> authenticated z then (False, w)
      else case verify env cfg old_password w of
        (None, w) \<Rightarrow> (False, w)
      | (Some _, w) \<Rightarrow>
          (case save_record env cfg new_password (new_password = DEFAULT_PASSWORD) w of
             (False, w) \<Rightarrow> (False, w)
           | (True, w) \<Rightarrow> (True, forget_everyone env cfg w)))"

definition joan_auth_logout :: "'e auth_env_scheme \<Rightarrow> string \<Rightarrow> authz \<Rightarrow> 'w auth_scheme \<Rightarrow> 'w auth_scheme" where
  "joan_auth_logout env cfg z w =
     (let w = w\<lparr>sessions := map (\<lambda>s. if used s \<and> same64 (z_token z) (token s) then no_session else s) (sessions w)\<rparr>;
          w = remembered_load env cfg w; h = token_hash env (z_token z);
          hit = (\<lambda>r. r_used r \<and> same64 h (r_hash r));
          changed = list_ex hit (remembered_list w);
          w = w\<lparr>remembered_list := map (\<lambda>r. if hit r then no_remembered else r) (remembered_list w)\<rparr>
      in if changed then remembered_save env cfg w else w)"

definition joan_auth_forget_all :: "'e auth_env_scheme \<Rightarrow> string \<Rightarrow> 'w auth_scheme \<Rightarrow> 'w auth_scheme" where
  "joan_auth_forget_all env cfg w = forget_everyone env cfg w"

section \<open>The tables keep their shape\<close>

lemma bytes_of_inject [simp]: "bytes_of a = bytes_of b \<longleftrightarrow> a = b"
  by (metis chars_of_bytes_of)

lemma same64_iff: "length a = 64 \<Longrightarrow> length b = 64 \<Longrightarrow> same64 a b \<longleftrightarrow> a = b"
  by (simp add: same64_def joan_ct_equal_iff)

definition session_ok :: "session \<Rightarrow> bool" where
  "session_ok s \<longleftrightarrow> (used s \<longrightarrow> length (token s) = 64 \<and> length (csrf s) = 64)"

definition remembered_ok :: "remembered \<Rightarrow> bool" where
  "remembered_ok r \<longleftrightarrow> (r_used r \<longrightarrow> length (r_hash r) = 64 \<and> length (r_csrf r) = 64)"

definition auth_ok :: "'w auth_scheme \<Rightarrow> bool" where
  "auth_ok w \<longleftrightarrow> length (sessions w) = SESSIONS \<and> list_all session_ok (sessions w) \<and>
     length (remembered_list w) = REMEMBERED \<and> list_all remembered_ok (remembered_list w) \<and>
     length (buckets w) = BUCKETS"

lemma no_session_ok [simp]: "session_ok no_session" "remembered_ok no_remembered"
  by (simp_all add: session_ok_def no_session_def remembered_ok_def no_remembered_def)

lemma list_all_update: "list_all P xs \<Longrightarrow> P x \<Longrightarrow> list_all P (xs[i := x])"
  using set_update_subset_insert [of xs i x] by (auto simp: list_all_iff)

lemma auth_ok_session: "auth_ok w \<Longrightarrow> session_ok s \<Longrightarrow> auth_ok (w\<lparr>sessions := (sessions w)[i := s]\<rparr>)"
  by (simp add: auth_ok_def list_all_update)

lemma auth_ok_remembered: "auth_ok w \<Longrightarrow> remembered_ok r \<Longrightarrow> auth_ok (w\<lparr>remembered_list := (remembered_list w)[i := r]\<rparr>)"
  by (simp add: auth_ok_def list_all_update)

lemma auth_ok_buckets: "auth_ok w \<Longrightarrow> auth_ok (w\<lparr>buckets := (buckets w)[i := b]\<rparr>)"
  by (simp add: auth_ok_def)

text \<open>The helpers of the store leave the tables alone.\<close>

definition tables :: "'w auth_scheme \<Rightarrow> session list \<times> remembered list \<times> bool \<times> string option \<times> bucket list" where
  "tables w = (sessions w, remembered_list w, remembered_loaded w, auth_config w, buckets w)"

lemma auth_ok_tables: "tables w' = tables w \<Longrightarrow> auth_ok w \<Longrightarrow> auth_ok w'"
  by (simp add: tables_def auth_ok_def)

lemma tables_next [simp]: "tables (s_next w) = tables w" "tables (file_put p c w) = tables w"
  by (simp_all add: tables_def s_next_def file_put_def)

lemma tables_now: "auth_now env w = (t, w') \<Longrightarrow> tables w' = tables w" "wall_now env w = (t, w') \<Longrightarrow> tables w' = tables w"
  by (auto simp: auth_now_def wall_now_def)

lemma tables_read: "joan_read_file env p n w = (r, w') \<Longrightarrow> tables w' = tables w"
  by (auto simp: joan_read_file_def split: option.splits if_splits)

lemma tables_random: "joan_random env n w = (r, w') \<Longrightarrow> tables w' = tables w"
  by (auto simp: joan_random_def)

lemma tables_write_loop: "write_loop env tmp p w = (r, w') \<Longrightarrow> tables w' = tables w"
proof (induction env tmp p w arbitrary: r w' rule: write_loop.induct)
  case (1 env tmp p w)
  then show ?case
    unfolding write_loop.simps [of env tmp p w]
    by (cases "env_write env (s_tick w) (length p)") (auto split: if_splits)
qed

lemma tables_write: "joan_write_atomic env p c w = (r, w') \<Longrightarrow> tables w' = tables w"
  by (auto simp: joan_write_atomic_def Let_def split: if_splits prod.splits bool.splits dest!: tables_write_loop)

lemma tables_mkdir_all: "mkdir_all env ps w = (r, w') \<Longrightarrow> tables w' = tables w"
  by (induction ps arbitrary: w) (auto split: if_splits)

lemma tables_mkdir: "joan_mkdir_p env p w = (r, w') \<Longrightarrow> tables w' = tables w"
  by (auto simp: joan_mkdir_p_def split: if_splits dest: tables_mkdir_all)

lemma tables_ssh_path: "ssh_password_path env sd w = (r, w') \<Longrightarrow> tables w' = tables w"
  by (auto simp: ssh_password_path_def Let_def split: if_splits prod.splits dest: tables_mkdir)

lemma tables_build: "build_records env pw b w = (r, w') \<Longrightarrow> tables w' = tables w"
  by (auto simp: build_records_def Let_def split: option.splits prod.splits if_splits dest!: tables_random)

lemma tables_verify: "verify env sd pw w = (r, w') \<Longrightarrow> tables w' = tables w"
  by (auto simp: verify_def split: option.splits prod.splits dest!: tables_read)

lemma tables_restore: "tables (restore env p old w) = tables w"
proof -
  have "tables (snd (joan_write_atomic env p c w)) = tables w" for c
    using tables_write [of env p c w] by (cases "joan_write_atomic env p c w") simp
  then show ?thesis by (simp add: restore_def split: option.splits)
qed

lemma tables_save_record: "save_record env sd pw b w = (r, w') \<Longrightarrow> tables w' = tables w"
  by (auto simp: save_record_def Let_def tables_restore split: option.splits prod.splits if_splits bool.splits
      dest!: tables_build tables_ssh_path tables_read tables_write)

end
