(* ===== verification/Auth_Safety.thy ===== *)
theory Auth_Safety
  imports Auth
begin

text \<open>
  What signing in promises: a request is only let in by a live credential, signing out
  ends one sign-in or all of them, five failed passwords close the door for a minute, and
  the tables keep their shape in every sequence of operations.
\<close>

section \<open>A request needs a credential\<close>

lemma live_session_Some:
  "live_session now t ss k = Some i \<Longrightarrow>
     k \<le> i \<and> i - k < length ss \<and> used (ss ! (i - k)) \<and> now \<le> expires (ss ! (i - k)) \<and> same64 t (token (ss ! (i - k)))"
proof (induction now t ss k rule: live_session.induct)
  case (2 now t s ss k)
  show ?case
  proof (cases "used s \<and> now \<le> expires s \<and> same64 t (token s)")
    case False
    then have r: "live_session now t ss (Suc k) = Some i" using "2.prems" by (simp split: if_splits)
    have e: "i - k = Suc (i - Suc k)" using "2.IH" [OF False r] by linarith
    show ?thesis using "2.IH" [OF False r] unfolding e by simp
  qed (use "2.prems" in auto)
qed simp

lemma live_session_None: "list_all (\<lambda>s. \<not> (used s \<and> now \<le> expires s \<and> same64 t (token s))) ss \<Longrightarrow> live_session now t ss k = None"
  by (induction ss arbitrary: k) auto

lemma live_remembered_Some:
  "live_remembered wall h rs k = Some i \<Longrightarrow>
     k \<le> i \<and> i - k < length rs \<and> r_used (rs ! (i - k)) \<and> wall \<le> r_until (rs ! (i - k)) \<and> same64 h (r_hash (rs ! (i - k)))"
proof (induction wall h rs k rule: live_remembered.induct)
  case (2 wall h r rs k)
  show ?case
  proof (cases "r_used r \<and> wall \<le> r_until r \<and> same64 h (r_hash r)")
    case False
    then have r: "live_remembered wall h rs (Suc k) = Some i" using "2.prems" by (simp split: if_splits)
    have e: "i - k = Suc (i - Suc k)" using "2.IH" [OF False r] by linarith
    show ?thesis using "2.IH" [OF False r] unfolding e by simp
  qed (use "2.prems" in auto)
qed simp

lemma live_remembered_None:
  "list_all (\<lambda>r. \<not> (r_used r \<and> wall \<le> r_until r \<and> same64 h (r_hash r))) rs \<Longrightarrow> live_remembered wall h rs k = None"
  by (induction rs arbitrary: k) auto

lemma match_session_Some:
  "match_session now rc g ss ts bad = (Some i, b) \<Longrightarrow>
     \<exists>t\<in>set ts. i < length ss \<and> used (ss ! i) \<and> now \<le> expires (ss ! i) \<and> same64 t (token (ss ! i)) \<and> csrf_ok rc g (csrf (ss ! i))"
proof (induction now rc g ss ts bad rule: match_session.induct)
  case (2 now rc g ss t ts bad)
  show ?case
  proof (cases "live_session now t ss 0")
    case None
    then show ?thesis using 2 by auto
  next
    case (Some j)
    show ?thesis
    proof (cases "csrf_ok rc g (csrf (ss ! j))")
      case True
      then show ?thesis using "2.prems" Some live_session_Some [OF Some] by auto
    next
      case False
      then show ?thesis using "2.prems" "2.IH"(2) [OF Some False] Some by auto
    qed
  qed
qed simp

lemma match_session_None:
  "list_all (\<lambda>s. \<not> used s \<or> (\<forall>t\<in>set ts. \<not> same64 t (token s))) ss \<Longrightarrow> match_session now rc g ss ts bad = (None, bad)"
proof (induction ts)
  case (Cons t ts)
  have "live_session now t ss 0 = None"
    by (rule live_session_None) (use Cons.prems in \<open>auto simp: list_all_iff\<close>)
  moreover have "list_all (\<lambda>s. \<not> used s \<or> (\<forall>t\<in>set ts. \<not> same64 t (token s))) ss"
    using Cons.prems by (auto simp: list_all_iff)
  ultimately show ?case using Cons.IH by simp
qed simp

lemma match_remembered_Some:
  "match_remembered env wall rc g rs ts bad = (Some (i, t), b) \<Longrightarrow>
     t \<in> set ts \<and> i < length rs \<and> r_used (rs ! i) \<and> wall \<le> r_until (rs ! i) \<and>
     same64 (token_hash env t) (r_hash (rs ! i)) \<and> csrf_ok rc g (r_csrf (rs ! i))"
proof (induction env wall rc g rs ts bad rule: match_remembered.induct)
  case (2 env wall rc g rs u ts bad)
  show ?case
  proof (cases "live_remembered wall (token_hash env u) rs 0")
    case None
    then show ?thesis using 2 by auto
  next
    case (Some j)
    show ?thesis
    proof (cases "csrf_ok rc g (r_csrf (rs ! j))")
      case True
      then show ?thesis using "2.prems" Some live_remembered_Some [OF Some] by auto
    next
      case False
      then show ?thesis using "2.prems" "2.IH"(2) [OF Some False] Some by auto
    qed
  qed
qed simp

lemma match_remembered_None:
  "list_all (\<lambda>r. \<not> r_used r \<or> (\<forall>t\<in>set ts. \<not> same64 (token_hash env t) (r_hash r))) rs \<Longrightarrow>
     match_remembered env wall rc g rs ts bad = (None, bad)"
proof (induction ts)
  case (Cons t ts)
  have "live_remembered wall (token_hash env t) rs 0 = None"
    by (rule live_remembered_None) (use Cons.prems in \<open>auto simp: list_all_iff\<close>)
  moreover have "list_all (\<lambda>r. \<not> r_used r \<or> (\<forall>t\<in>set ts. \<not> same64 (token_hash env t) (r_hash r))) rs"
    using Cons.prems by (auto simp: list_all_iff)
  ultimately show ?case using Cons.IH by simp
qed simp

lemma cookie_tokens_found:
  "take 13 s = ''joan_session='' \<Longrightarrow> v = takeWhile (\<lambda>c. c \<noteq> CHR '';'' \<and> c \<noteq> CHR '' '' \<and> c \<noteq> CHR 0x0D \<and> c \<noteq> NL) (drop 13 s) \<Longrightarrow>
     cookie_tokens prev s =
       (if (prev = None \<or> prev = Some (CHR '' '') \<or> prev = Some (CHR '';'')) \<and> length v = 64
        then v # cookie_tokens (Some (last v)) (drop 64 (drop 13 s))
        else cookie_tokens (Some (CHR ''='')) (drop 13 s))"
  by (subst cookie_tokens.simps) (simp add: Let_def)

lemma cookie_tokens_other:
  "take 13 s \<noteq> ''joan_session='' \<Longrightarrow> cookie_tokens prev s = (case s of [] \<Rightarrow> [] | c # cs \<Rightarrow> cookie_tokens (Some c) cs)"
  by (subst cookie_tokens.simps) simp

lemma length_cookie_tokens: "t \<in> set (cookie_tokens prev s) \<Longrightarrow> length t = 64"
proof (induction "length s" arbitrary: prev s rule: less_induct)
  case less
  show ?case
  proof (cases "take 13 s = ''joan_session=''")
    case True
    then have "s \<noteq> []" by (rule cookie_name_nonempty)
    then have l: "length (drop 13 s) < length s" "length (drop 64 (drop 13 s)) < length s" by simp_all
    define v where "v = takeWhile (\<lambda>c. c \<noteq> CHR '';'' \<and> c \<noteq> CHR '' '' \<and> c \<noteq> CHR 0x0D \<and> c \<noteq> NL) (drop 13 s)"
    note e = cookie_tokens_found [OF True v_def, of prev]
    show ?thesis
    proof (cases "(prev = None \<or> prev = Some (CHR '' '') \<or> prev = Some (CHR '';'')) \<and> length v = 64")
      case c: True
      have "t = v \<or> t \<in> set (cookie_tokens (Some (last v)) (drop 64 (drop 13 s)))"
        using less.prems unfolding e if_P [OF c] by (simp only: list.set insert_iff)
      then show ?thesis using c less.hyps [OF l(2)] by blast
    next
      case c: False
      show ?thesis using less.prems less.hyps [OF l(1)] unfolding e if_not_P [OF c] by blast
    qed
  next
    case False
    show ?thesis
    proof (cases s)
      case Nil
      then show ?thesis using less.prems unfolding cookie_tokens_other [OF False] by simp
    next
      case (Cons c cs)
      then have "t \<in> set (cookie_tokens (Some c) cs)"
        using less.prems unfolding cookie_tokens_other [OF False] by simp
      then show ?thesis using less.hyps [of cs "Some c"] Cons by simp
    qed
  qed
qed

lemma length_token_hash: "length (env_garbage env) = 64 \<Longrightarrow> length (token_hash env t) = 64"
proof -
  assume "length (env_garbage env) = 64"
  then have "S256_fresh (S256_init (env_garbage env))" by (auto simp: S256_fresh_def)
  then show ?thesis
    by (simp add: token_hash_def joan_sha256_def daemon_sha256.digest_once length_sha256_digest)
qed

lemma tables_load_None: "remembered_loaded w \<Longrightarrow> remembered_load env cfg w = w"
  by (simp add: remembered_load_def)

lemma load_fields:
  "sessions (remembered_load env cfg w) = sessions w" "auth_config (remembered_load env cfg w) = auth_config w"
  "buckets (remembered_load env cfg w) = buckets w" "files (remembered_load env cfg w) = files w"
  "remembered_loaded (remembered_load env cfg w)"
  by (auto simp: remembered_load_def joan_read_file_def s_next_def Let_def split: option.splits prod.splits)

text \<open>
  C5. No request is let in without a live credential: the result is 0 exactly if the
  authorisation says so, and then one of the cookie's candidates is the token of a session
  in use that is not over, or hashes to a remembered sign-in that is not over by the wall
  clock, and a CSRF token that was required is that credential's. A refused request gets
  no authorisation at all.
\<close>

theorem request_needs_credential:
  fixes w :: "'w auth_scheme"
  assumes "joan_auth_request env cookie given rc w = (r, z, w')"
  shows "(r = 0 \<longleftrightarrow> authenticated z) \<and> (r \<noteq> 0 \<longrightarrow> (r = -1 \<or> r = -2) \<and> z = no_authz \<and> sessions w' = sessions w) \<and>
    (r = 0 \<longrightarrow> (\<exists>t \<in> set (cookie_tokens None cookie).
      (\<exists>s \<in> set (sessions w). used s \<and> fst (auth_now env w) \<le> expires s \<and> same64 t (token s) \<and>
          csrf_ok rc given (csrf s) \<and> z_token z = token s \<and> z_csrf z = csrf s) \<or>
      (\<exists>cfg rs. auth_config w = Some cfg \<and>
          rs = remembered_list (remembered_load env cfg (snd (wall_now env (snd (auth_now env w))))) \<and>
          (\<exists>q \<in> set rs. r_used q \<and> fst (wall_now env (snd (auth_now env w))) \<le> r_until q \<and>
             same64 (token_hash env t) (r_hash q) \<and> csrf_ok rc given (r_csrf q) \<and>
             z_token z = t \<and> z_csrf z = r_csrf q))))"
proof -
  obtain now w1 where 1: "auth_now env w = (now, w1)" by fastforce
  note t1 = tables_now(1) [OF 1]
  let ?ts = "cookie_tokens None cookie"
  have ss: "sessions w1 = sessions w" "auth_config w1 = auth_config w" using t1 by (simp_all add: tables_def)
  obtain m bad where m: "match_session now rc given (sessions w) ?ts False = (m, bad)" by fastforce
  show ?thesis
  proof (cases m)
    case (Some i)
    with match_session_Some [of now rc given "sessions w" ?ts False i bad] m
    show ?thesis using assms 1 ss Some
      by (auto simp: joan_auth_request_def Let_def no_authz_def intro!: bexI nth_mem)
  next
    case m0: None
    show ?thesis
    proof (cases "auth_config w")
      case None
      then show ?thesis using assms 1 ss m m0
        by (auto simp: joan_auth_request_def no_authz_def split: if_splits)
    next
      case (Some cfg)
      obtain wall w2 where 2: "wall_now env w1 = (wall, w2)" by fastforce
      let ?w3 = "remembered_load env cfg w2"
      have s3: "sessions ?w3 = sessions w"
        using tables_now(2) [OF 2] t1 by (simp add: tables_def load_fields)
      obtain q bad2 where q: "match_remembered env wall rc given (remembered_list ?w3) ?ts False = (q, bad2)" by fastforce
      show ?thesis
      proof (cases q)
        case None
        then show ?thesis using assms 1 2 ss m m0 Some q s3
          by (auto simp: joan_auth_request_def Let_def no_authz_def split: if_splits)
      next
        case r: (Some jt)
        obtain j t where jt: "jt = (j, t)" by fastforce
        with match_remembered_Some [of env wall rc given "remembered_list ?w3" ?ts False j t bad2] q r
        have f: "t \<in> set ?ts" "remembered_list ?w3 ! j \<in> set (remembered_list ?w3)"
          "r_used (remembered_list ?w3 ! j)" "wall \<le> r_until (remembered_list ?w3 ! j)"
          "same64 (token_hash env t) (r_hash (remembered_list ?w3 ! j))"
          "csrf_ok rc given (r_csrf (remembered_list ?w3 ! j))"
          by auto
        show ?thesis
        proof (cases bad)
          case True
          then show ?thesis using assms 1 ss m m0 Some by (auto simp: joan_auth_request_def no_authz_def)
        next
          case False
          then have e: "r = 0" "authenticated z" "z_token z = t" "z_csrf z = r_csrf (remembered_list ?w3 ! j)"
            using assms 1 2 ss m m0 Some q r jt by (auto simp: joan_auth_request_def Let_def)
          then show ?thesis using f 1 2 Some by fastforce
        qed
      qed
    qed
  qed
qed

section \<open>Signing out\<close>

lemma save_lines_set:
  "save_lines now rs text = (rs', text') \<Longrightarrow> length rs' = length rs \<and> set rs' \<subseteq> insert no_remembered (set rs)"
  by (induction now rs "text" arbitrary: rs' text' rule: save_lines.induct) (auto split: if_splits prod.splits)

lemma save_lines_free: "save_lines now (replicate n no_remembered) text = (replicate n no_remembered, text)"
  by (induction n) (auto simp: no_remembered_def)

lemma save_fields:
  "sessions (remembered_save env cfg w) = sessions w" "auth_config (remembered_save env cfg w) = auth_config w"
  "buckets (remembered_save env cfg w) = buckets w"
  "remembered_loaded (remembered_save env cfg w) = remembered_loaded w"
  "length (remembered_list (remembered_save env cfg w)) = length (remembered_list w)"
  "set (remembered_list (remembered_save env cfg w)) \<subseteq> insert no_remembered (set (remembered_list w))"
proof -
  obtain now w1 where 1: "wall_now env w = (now, w1)" by fastforce
  obtain rs tx where 2: "save_lines now (remembered_list w1) [] = (rs, tx)" by fastforce
  let ?w = "w1\<lparr>remembered_list := rs\<rparr>"
  have "tables (remembered_save env cfg w) = tables ?w"
    using 1 2 tables_write [of env "remembered_path cfg" "bytes_of tx" ?w]
    by (cases "joan_write_atomic env (remembered_path cfg) (bytes_of tx) ?w") (simp add: remembered_save_def Let_def)
  moreover note tables_now(2) [OF 1] save_lines_set [OF 2]
  ultimately show "sessions (remembered_save env cfg w) = sessions w" "auth_config (remembered_save env cfg w) = auth_config w"
    "buckets (remembered_save env cfg w) = buckets w"
    "remembered_loaded (remembered_save env cfg w) = remembered_loaded w"
    "length (remembered_list (remembered_save env cfg w)) = length (remembered_list w)"
    "set (remembered_list (remembered_save env cfg w)) \<subseteq> insert no_remembered (set (remembered_list w))"
    by (simp_all add: tables_def)
qed

text \<open>A state in which nobody with one of these tokens is let in.\<close>

definition shut_out :: "'e auth_env_scheme \<Rightarrow> string list \<Rightarrow> 'w auth_scheme \<Rightarrow> bool" where
  "shut_out env ts w \<longleftrightarrow> remembered_loaded w \<and>
     list_all (\<lambda>s. \<not> used s \<or> (\<forall>t\<in>set ts. \<not> same64 t (token s))) (sessions w) \<and>
     list_all (\<lambda>r. \<not> r_used r \<or> (\<forall>t\<in>set ts. \<not> same64 (token_hash env t) (r_hash r))) (remembered_list w)"

lemma shut_out_tables: "tables w' = tables w \<Longrightarrow> shut_out env ts w \<Longrightarrow> shut_out env ts w'"
  by (simp add: shut_out_def tables_def)

lemma shut_out_request:
  assumes "shut_out env (cookie_tokens None cookie) w"
  shows "fst (joan_auth_request env cookie given rc w) = -1"
proof -
  obtain now w1 where 1: "auth_now env w = (now, w1)" by fastforce
  obtain wall w2 where 2: "wall_now env w1 = (wall, w2)" by fastforce
  have s1: "shut_out env (cookie_tokens None cookie) w1" by (rule shut_out_tables [OF tables_now(1) [OF 1] assms])
  have s2: "shut_out env (cookie_tokens None cookie) w2" by (rule shut_out_tables [OF tables_now(2) [OF 2] s1])
  show ?thesis
    using s1 s2 1 2
    by (simp add: joan_auth_request_def shut_out_def match_session_None match_remembered_None tables_load_None split: option.splits)
qed

lemma forget_everyone_shuts_out:
  "shut_out env' ts (forget_everyone env cfg w)" "files (forget_everyone env cfg w) (remembered_path cfg) = None"
proof -
  define w0 where "w0 = (remembered_load env cfg (w\<lparr>sessions := replicate SESSIONS no_session\<rparr>))
      \<lparr>remembered_list := replicate REMEMBERED no_remembered\<rparr>"
  have f: "forget_everyone env cfg w = remembered_save env cfg w0" by (simp add: forget_everyone_def w0_def)
  have w0: "sessions w0 = replicate SESSIONS no_session" "remembered_loaded w0"
    "remembered_list w0 = replicate REMEMBERED no_remembered" by (simp_all add: w0_def load_fields)
  have "set (remembered_list (remembered_save env cfg w0)) \<subseteq> {no_remembered}"
    using save_fields(6) [of env cfg w0] w0 by (auto simp: set_replicate_conv_if split: if_splits)
  then show "shut_out env' ts (forget_everyone env cfg w)"
    unfolding f shut_out_def by (auto simp: save_fields w0 list_all_iff no_session_def no_remembered_def)
  obtain now w1 where 1: "wall_now env w0 = (now, w1)" by fastforce
  then have "remembered_list w1 = replicate REMEMBERED no_remembered" using tables_now(2) [OF 1] w0 by (simp add: tables_def)
  then show "files (forget_everyone env cfg w) (remembered_path cfg) = None"
    by (simp add: f remembered_save_def 1 save_lines_free)
qed


text \<open>
  C30. Signing out ends that sign-in: afterwards a cookie that holds no token but the one
  signed out, in however many copies, is refused, also where the sign-in was remembered.
\<close>

theorem logout_ends_sign_in:
  assumes "set (cookie_tokens None cookie) \<subseteq> {z_token z}"
  shows "fst (joan_auth_request env cookie given rc (joan_auth_logout env cfg z w)) = -1"
proof -
  let ?h = "token_hash env (z_token z)"
  define out where "out = (\<lambda>s. if used s \<and> same64 (z_token z) (token s) then no_session else s)"
  define outr where "outr = (\<lambda>r. if r_used r \<and> same64 ?h (r_hash r) then no_remembered else r)"
  define w1 where "w1 = remembered_load env cfg (w\<lparr>sessions := map out (sessions w)\<rparr>)"
  define w2 where "w2 = w1\<lparr>remembered_list := map outr (remembered_list w1)\<rparr>"
  have l: "joan_auth_logout env cfg z w = remembered_save env cfg w2 \<or> joan_auth_logout env cfg z w = w2"
    unfolding joan_auth_logout_def Let_def w2_def w1_def out_def outr_def by auto
  have s2: "sessions w2 = map out (sessions w)" "remembered_loaded w2" "remembered_list w2 = map outr (remembered_list w1)"
    by (simp_all add: w2_def w1_def load_fields)
  have ss: "list_all (\<lambda>s. \<not> used s \<or> \<not> same64 (z_token z) (token s)) (map out (sessions w))"
    by (auto simp: list_all_iff out_def no_session_def)
  have rs: "list_all (\<lambda>r. \<not> r_used r \<or> \<not> same64 ?h (r_hash r)) (insert_free # map outr (remembered_list w1))"
    if "insert_free = no_remembered" for insert_free
    using that by (auto simp: list_all_iff outr_def no_remembered_def)
  have "shut_out env [z_token z] w2"
    using ss rs [OF refl] s2 by (simp add: shut_out_def)
  moreover have "shut_out env [z_token z] (remembered_save env cfg w2)"
    using ss rs [OF refl] s2 save_fields(6) [of env cfg w2]
    by (fastforce simp: shut_out_def save_fields(1-5) list_all_iff)
  ultimately have "shut_out env [z_token z] (joan_auth_logout env cfg z w)" using l by metis
  then have "shut_out env (cookie_tokens None cookie) (joan_auth_logout env cfg z w)"
    using assms by (auto simp: shut_out_def list_all_iff)
  then show ?thesis by (rule shut_out_request)
qed

section \<open>The throttle\<close>

lemma bucket_scan_hit:
  "i < length bs \<Longrightarrow> remote (bs ! i) = rem \<Longrightarrow> \<forall>j<i. remote (bs ! j) \<noteq> rem \<Longrightarrow> bucket_scan rem now bs k fr = Inl (k + i)"
proof (induction bs arbitrary: i k fr)
  case (Cons b bs)
  show ?case
  proof (cases i)
    case 0
    then show ?thesis using Cons.prems by simp
  next
    case (Suc j)
    moreover from this have "remote b \<noteq> rem" using Cons.prems(3) by fastforce
    moreover have "bucket_scan rem now bs (Suc k) f = Inl (Suc k + j)" for f
      by (rule Cons.IH) (use Cons.prems Suc in fastforce)+
    ultimately show ?thesis by simp
  qed
qed simp

lemma bucket_scan_miss:
  "bucket_scan rem now bs k fr = Inr i \<Longrightarrow> (\<forall>b\<in>set bs. remote b \<noteq> rem) \<and> (i = fr \<or> k \<le> i \<and> i < k + length bs)"
  by (induction rem now bs k fr rule: bucket_scan.induct) (force split: if_splits)+

lemma bucket_scan_Inr: "list_all (\<lambda>b. remote b \<noteq> rem) bs \<Longrightarrow> \<exists>i. bucket_scan rem now bs k fr = Inr i"
  by (induction bs arbitrary: k fr) auto

text \<open>The bucket of an address: the index of the first one that bears it.\<close>

definition counted :: "string \<Rightarrow> int \<Rightarrow> nat \<Rightarrow> 'w auth_scheme \<Rightarrow> bool" where
  "counted rem T n w \<longleftrightarrow> (\<exists>i b. i < length (buckets w) \<and> buckets w ! i = b \<and> remote b = rem \<and>
     (\<forall>j<i. remote (buckets w ! j) \<noteq> rem) \<and> T \<le> since b \<and> failures b = n)"

lemma counted_tables: "tables w' = tables w \<Longrightarrow> counted rem T n w \<Longrightarrow> counted rem T n w'"
  by (simp add: counted_def tables_def)

lemma counted_bucket:
  fixes w :: "'w auth_scheme"
  assumes "counted rem T n w"
  obtains i where "\<And>now (u :: 'w auth_scheme). buckets u = buckets w \<Longrightarrow> bucket_for rem now u = (i, u)" "i < length (buckets w)"
    "remote (buckets w ! i) = rem" "T \<le> since (buckets w ! i)" "failures (buckets w ! i) = n"
    "\<forall>j<i. remote (buckets w ! j) \<noteq> rem"
proof -
  obtain i where i: "i < length (buckets w)" "remote (buckets w ! i) = rem"
    "\<forall>j<i. remote (buckets w ! j) \<noteq> rem" "T \<le> since (buckets w ! i)" "failures (buckets w ! i) = n"
    using assms by (auto simp: counted_def)
  show ?thesis
  proof (rule that)
    show "buckets u = buckets w \<Longrightarrow> bucket_for rem now u = (i, u)" for now u
      using bucket_scan_hit [OF i(1-3), of now 0 0] by (simp add: bucket_for_def)
  qed (use i in auto)
qed

lemma throttled_counted:
  fixes w :: "'w auth_scheme"
  assumes "counted rem T n w" "fst (auth_now env w) \<le> T + 60"
  shows "\<exists>w'. joan_auth_throttled env rem w = (5 \<le> n, w') \<and> counted rem T n w'"
proof -
  obtain now w1 where 1: "auth_now env w = (now, w1)" by fastforce
  have b1: "buckets w1 = buckets w" using tables_now(1) [OF 1] by (simp add: tables_def)
  from assms(1) obtain i where i: "\<And>now (u :: 'w auth_scheme). buckets u = buckets w \<Longrightarrow> bucket_for rem now u = (i, u)"
    "i < length (buckets w)" "T \<le> since (buckets w ! i)" "failures (buckets w ! i) = n" "remote (buckets w ! i) = rem"
    "\<forall>j<i. remote (buckets w ! j) \<noteq> rem"
    by (rule counted_bucket) simp
  have n: "\<not> since (buckets w ! i) + 60 < now" using i(3) assms(2) 1 by simp
  show ?thesis
    by (rule exI [of _ w1], unfold joan_auth_throttled_def counted_def)
      (use i n b1 in \<open>auto simp: 1 Let_def intro!: exI [of _ i]\<close>)
qed

lemma note_counted:
  fixes w :: "'w auth_scheme"
  assumes "counted rem T n w"
  shows "counted rem T (Suc n) (joan_auth_note env rem False w)"
proof -
  obtain now w1 where 1: "auth_now env w = (now, w1)" by fastforce
  have b1: "buckets w1 = buckets w" using tables_now(1) [OF 1] by (simp add: tables_def)
  from assms obtain i where i: "\<And>now (u :: 'w auth_scheme). buckets u = buckets w \<Longrightarrow> bucket_for rem now u = (i, u)"
    "i < length (buckets w)" "T \<le> since (buckets w ! i)" "failures (buckets w ! i) = n" "remote (buckets w ! i) = rem"
    "\<forall>j<i. remote (buckets w ! j) \<noteq> rem"
    by (rule counted_bucket) simp
  show ?thesis
    unfolding counted_def joan_auth_note_def
    by (rule exI [of _ i]) (use i b1 in \<open>auto simp: 1 Let_def\<close>)
qed

text \<open>Also an address that has no bucket yet counts as one without failures.\<close>

definition watched :: "string \<Rightarrow> int \<Rightarrow> nat \<Rightarrow> 'w auth_scheme \<Rightarrow> bool" where
  "watched rem T n w \<longleftrightarrow> counted rem T n w \<or>
     n = 0 \<and> buckets w \<noteq> [] \<and> length rem \<le> 63 \<and> list_all (\<lambda>b. remote b \<noteq> rem) (buckets w)"

definition clock_within :: "'e auth_env_scheme \<Rightarrow> int \<Rightarrow> int \<Rightarrow> bool" where
  "clock_within env T T' \<longleftrightarrow> (\<forall>k. \<exists>t. env_monotonic_s env k = Some t \<and> T \<le> t \<and> t \<le> T')"

lemma clock_within_now: "clock_within env T T' \<Longrightarrow> T \<le> fst (auth_now env u) \<and> fst (auth_now env u) \<le> T'"
  unfolding clock_within_def by (erule allE [of _ "s_tick u"]) (auto simp: auth_now_def)

lemma throttled_fresh:
  fixes w :: "'w auth_scheme"
  assumes "buckets w \<noteq> []" "length rem \<le> 63" "list_all (\<lambda>b. remote b \<noteq> rem) (buckets w)" "T \<le> fst (auth_now env w)"
  shows "\<exists>w'. joan_auth_throttled env rem w = (False, w') \<and> counted rem T 0 w'"
proof -
  obtain now w1 where 1: "auth_now env w = (now, w1)" by fastforce
  have b1: "buckets w1 = buckets w" using tables_now(1) [OF 1] by (simp add: tables_def)
  obtain i where i: "bucket_scan rem now (buckets w) 0 0 = Inr i"
    using bucket_scan_Inr [OF assms(3)] by blast
  have l: "i < length (buckets w)" using bucket_scan_miss [OF i] assms(1) by auto
  have o: "\<forall>j<i. remote (buckets w ! j) \<noteq> rem" using assms(3) l by (auto simp: list_all_length)
  have r: "bucket_for rem now w1 = (i, w1\<lparr>buckets := (buckets w)[i := \<lparr> remote = rem, since = now, failures = 0 \<rparr>]\<rparr>)"
    using i assms(2) by (simp add: bucket_for_def b1)
  show ?thesis
    unfolding joan_auth_throttled_def counted_def
    by (simp add: 1 Let_def r l b1, rule exI [of _ i]) (use o l assms(4) 1 in auto)
qed

lemma throttled_watched:
  assumes "watched rem T n w" "clock_within env T (T + 60)"
  shows "\<exists>w'. joan_auth_throttled env rem w = (5 \<le> n, w') \<and> counted rem T n w'"
  using throttled_counted [of rem T n w env] throttled_fresh [of w rem T env] clock_within_now [OF assms(2), of w] assms(1)
  by (auto simp: watched_def)

text \<open>Attempts to sign in from one address, with the results of the calls.\<close>

type_synonym attempt = "string \<times> string \<times> bool"

fun attempts :: "'e auth_env_scheme \<Rightarrow> string \<Rightarrow> string \<Rightarrow> attempt list \<Rightarrow> 'w auth_scheme \<Rightarrow> int list \<times> 'w auth_scheme" where
  "attempts env cfg rem [] w = ([], w)"
| "attempts env cfg rem ((user, pw, keep) # as) w =
     (case joan_auth_login env cfg rem user pw keep w of
        (r, z, w) \<Rightarrow> (case attempts env cfg rem as w of (rs, w) \<Rightarrow> (r # rs, w)))"

lemma watched_tables: "tables w' = tables w \<Longrightarrow> watched rem T n w \<Longrightarrow> watched rem T n w'"
  using counted_tables [of w' w] by (auto simp: watched_def tables_def)

lemma locked_login:
  assumes "watched rem T n w" "5 \<le> n" "clock_within env T (T + 60)"
  shows "\<exists>w'. joan_auth_login env cfg rem user pw keep w = (-2, no_authz, w') \<and> counted rem T n w'"
proof -
  obtain now w1 where 1: "auth_now env w = (now, w1)" by fastforce
  then have "watched rem T n w1" using watched_tables [OF tables_now(1) [OF 1] assms(1)] by simp
  from throttled_watched [OF this assms(3)] obtain w2 where
    "joan_auth_throttled env rem w1 = (True, w2)" "counted rem T n w2" using assms(2) by auto
  then show ?thesis using 1 by (simp add: joan_auth_login_def)
qed

lemma refused_login:
  fixes w :: "'w auth_scheme"
  assumes "watched rem T n w" "n < 5" "clock_within env T (T + 60)"
    and "\<forall>u :: 'w auth_scheme. user \<noteq> ''admin'' \<or> fst (verify env cfg pw u) = None"
  shows "\<exists>w'. joan_auth_login env cfg rem user pw keep w = (-1, no_authz, w') \<and> counted rem T (Suc n) w'"
proof -
  obtain now w1 where 1: "auth_now env w = (now, w1)" by fastforce
  then have "watched rem T n w1" using watched_tables [OF tables_now(1) [OF 1] assms(1)] by simp
  from throttled_watched [OF this assms(3)] obtain w2 where
    2: "joan_auth_throttled env rem w1 = (False, w2)" "counted rem T n w2" using assms(2) by auto
  obtain ok w3 where 3: "(if user = ''admin'' then verify env cfg pw w2 else (None, w2)) = (ok, w3)" by fastforce
  have ok: "ok = None" using 3 assms(4) [rule_format, of w2] by (auto split: if_splits)
  have t3: "tables w3 = tables w2" using 3 by (auto split: if_splits dest: tables_verify)
  have "counted rem T (Suc n) (joan_auth_note env rem False w3)"
    by (rule note_counted [OF counted_tables [OF t3 2(2)]])
  then show ?thesis using 1 2 3 ok by (simp add: joan_auth_login_def)
qed

definition all_wrong :: "'e auth_env_scheme \<Rightarrow> string \<Rightarrow> 'w auth_scheme itself \<Rightarrow> attempt list \<Rightarrow> bool" where
  "all_wrong env cfg ty as \<longleftrightarrow>
     list_all (\<lambda>(user, pw, _). \<forall>u :: 'w auth_scheme. user \<noteq> ''admin'' \<or> fst (verify env cfg pw u) = None) as"

lemma refused_attempts:
  fixes w :: "'w auth_scheme"
  assumes "clock_within env T (T + 60)"
  shows "watched rem T n w \<Longrightarrow> n \<le> 5 \<Longrightarrow> all_wrong env cfg TYPE('w auth_scheme) as \<Longrightarrow>
    fst (attempts env cfg rem as w) = replicate (min (length as) (5 - n)) (-1) @ replicate (length as - (5 - n)) (-2) \<and>
    watched rem T (min 5 (n + length as)) (snd (attempts env cfg rem as w))"
proof (induction as arbitrary: n w)
  case (Cons a as)
  obtain user pw keep where a: "a = (user, pw, keep)" by (metis prod_cases3)
  have v: "\<forall>u :: 'w auth_scheme. user \<noteq> ''admin'' \<or> fst (verify env cfg pw u) = None"
    "all_wrong env cfg TYPE('w auth_scheme) as"
    using Cons.prems(3) a by (auto simp: all_wrong_def)
  show ?case
  proof (cases "5 \<le> n")
    case True
    then have n: "n = 5" using Cons.prems(2) by simp
    obtain w' where w': "joan_auth_login env cfg rem user pw keep w = (-2, no_authz, w')" "counted rem T n w'"
      using locked_login [OF Cons.prems(1) True assms] by blast
    have "watched rem T 5 w'" using w'(2) n by (simp add: watched_def)
    from Cons.IH [OF this _ v(2)] show ?thesis using w'(1) n by (simp add: a split_beta)
  next
    case False
    then have n: "n < 5" by simp
    obtain w' where w': "joan_auth_login env cfg rem user pw keep w = (-1, no_authz, w')" "counted rem T (Suc n) w'"
      using refused_login [OF Cons.prems(1) n assms v(1)] by blast
    have "watched rem T (Suc n) w'" using w'(2) by (simp add: watched_def)
    note ih = Cons.IH [OF this _ v(2)]
    obtain k where k: "5 - n = Suc k" "5 - Suc n = k" using n by (metis Suc_diff_Suc)
    show ?thesis using ih w'(1) n k by (simp add: a split_beta)
  qed
qed simp


definition sample_auth_env :: auth_env where
  "sample_auth_env = sample_store_env\<lparr>env_monotonic_s := \<lambda>n. Some (100 + int (min n 50))\<rparr>"

definition sample_auth :: auth where
  "sample_auth = \<lparr> s_tick = 0, files = \<lambda>p. None, sessions = replicate SESSIONS no_session,
     remembered_list = replicate REMEMBERED no_remembered, remembered_loaded = False,
     auth_config = Some ''/data'', buckets = replicate BUCKETS no_bucket \<rparr>"


lemma request_needs_credential_witness:
  "case joan_auth_request sample_auth_env ''joan_session=x'' [] False sample_auth of (r, z, w') \<Rightarrow>
     (r = 0 \<longleftrightarrow> authenticated z) \<and> (r \<noteq> 0 \<longrightarrow> z = no_authz)"
proof -
  obtain r z w' where e: "joan_auth_request sample_auth_env ''joan_session=x'' [] False sample_auth = (r, z, w')"
    by (metis prod_cases3)
  show ?thesis using request_needs_credential [OF e] by (simp add: e)
qed

definition sample_token :: string where
  "sample_token = joan_hex (replicate 32 0xa5)"

definition sample_authz :: authz where
  "sample_authz = no_authz\<lparr>authenticated := True, z_token := sample_token\<rparr>"

lemma logout_ends_sign_in_witness:
  "fst (joan_auth_request sample_store_env (''a=b; joan_session='' @ sample_token) [] False
     (joan_auth_logout sample_store_env ''/data'' sample_authz
       (sample_auth\<lparr>sessions := [no_session\<lparr>used := True, token := sample_token, expires := 99\<rparr>]\<rparr>))) = -1"
proof (rule logout_ends_sign_in)
  have "cookie_tokens None (''a=b; joan_session='' @ sample_token) = [z_token sample_authz]" by code_simp
  then show "set (cookie_tokens None (''a=b; joan_session='' @ sample_token)) \<subseteq> {z_token sample_authz}" by simp
qed

section \<open>A remembered sign-in survives a restart\<close>

definition printable_entry :: "remembered \<Rightarrow> bool" where
  "printable_entry r \<longleftrightarrow> r_used r \<and> length (r_hash r) = 64 \<and> length (r_csrf r) = 64 \<and>
     list_all is_lower_hex (r_hash r) \<and> list_all is_lower_hex (r_csrf r) \<and>
     0 \<le> r_until r \<and> r_until r < 10 ^ 11 \<and> (r_must_change r = 0 \<or> r_must_change r = 1)"

lemma split_lines_Nil [simp]: "split_lines [] = []"
  by (simp add: split_lines.simps)

lemma split_lines_line: "10 \<notin> set l \<Longrightarrow> split_lines (l @ 10 # bs) = l # split_lines bs"
proof -
  assume "10 \<notin> set l"
  then have "takeWhile (\<lambda>b. b \<noteq> 10) (l @ 10 # bs) = l" "dropWhile (\<lambda>b. b \<noteq> 10) (l @ 10 # bs) = 10 # bs"
    by (induction l) auto
  then show ?thesis by (subst split_lines.simps) simp
qed

lemma split_lines_concat: "\<forall>l\<in>set ls. 10 \<notin> set l \<Longrightarrow> split_lines (concat (map (\<lambda>l. l @ [10]) ls)) = ls"
  by (induction ls) (simp_all add: split_lines_line)

definition entry_text :: "remembered \<Rightarrow> string" where
  "entry_text r = r_hash r @ '' '' @ c_dec_int (r_until r) @ '' '' @ r_csrf r @ '' '' @ c_dec_int (r_must_change r)"

lemma remembered_line_text: "remembered_line r = entry_text r @ [NL]"
  by (simp add: remembered_line_def entry_text_def)

lemma dec_int_chars: "0 \<le> n \<Longrightarrow> c \<in> set (c_dec_int n) \<Longrightarrow> c_isdigit c"
  using dec_digits [of c "nat n"] by (simp add: c_dec_int_def split: if_splits)

lemma digit_plain: "c_isdigit c \<Longrightarrow> c \<noteq> CHR 0x00 \<and> c \<noteq> NL"
  by (auto simp: c_isdigit_def c_code_def)

lemma entry_text_plain: "printable_entry r \<Longrightarrow> c \<in> set (entry_text r) \<Longrightarrow> c \<noteq> CHR 0x00 \<and> c \<noteq> NL"
  using digit_plain [of c] dec_int_chars [of "r_until r" c] dec_int_chars [of "r_must_change r" c]
    lower_hex_facts [of c]
  by (auto simp: printable_entry_def entry_text_def list_all_iff)

lemma entry_text_bytes: "printable_entry r \<Longrightarrow> 10 \<notin> set (bytes_of (entry_text r))"
proof
  assume p: "printable_entry r" and "10 \<in> set (bytes_of (entry_text r))"
  then obtain c where c: "c \<in> set (entry_text r)" "(of_nat (c_code c) :: byte) = 10" by (auto simp: bytes_of_def)
  have "c_code c = unat (of_nat (c_code c) :: byte)"
    using c_code_less [of c] by (simp add: unsigned_of_nat take_bit_nat_eq_self)
  then have "c_code c = c_code NL" unfolding c(2) by (simp add: c_code_def)
  then show False using entry_text_plain [OF p c(1)] by (simp only: c_code_inject)
qed

lemma scan_entry:
  assumes p: "printable_entry r"
  shows "scan_remembered (entry_text r) = Some r"
proof -
  let ?m = "c_dec_int (r_must_change r)"
  have sp: "c_isspace (CHR '' '')" "\<not> c_isdigit (CHR '' '')" by (simp_all add: c_isspace_def c_isdigit_def c_code_def)
  have h: "list_all (\<lambda>c. \<not> c_isspace c) (r_hash r)" "list_all (\<lambda>c. \<not> c_isspace c) (r_csrf r)"
    using p lower_hex_facts(1) by (auto simp: printable_entry_def list_all_iff)
  have lead: "c_strtoll (CHR '' '' # s) = c_strtoll s" "scan_word 64 (CHR '' '' # s) = scan_word 64 s" for s
    by (simp_all add: c_strtoll_def scan_word_def sp)
  have 1: "scan_word 64 (entry_text r) = Some (r_hash r, '' '' @ c_dec_int (r_until r) @ '' '' @ r_csrf r @ '' '' @ ?m)"
    unfolding entry_text_def by (rule scan_word_printed) (use p h in \<open>auto simp: printable_entry_def sp\<close>)
  have 2: "c_strtoll (c_dec_int (r_until r) @ CHR '' '' # s) = Some (r_until r, CHR '' '' # s)" for s
    by (rule strtoll_dec) (use p in \<open>auto simp: printable_entry_def sp\<close>)
  have 3: "scan_word 64 (r_csrf r @ CHR '' '' # ?m) = Some (r_csrf r, CHR '' '' # ?m)"
    by (rule scan_word_printed) (use p h in \<open>auto simp: printable_entry_def sp\<close>)
  have 4: "c_strtoll ?m = Some (r_must_change r, [])"
    using strtoll_dec [of "r_must_change r" "[]"] p by (auto simp: printable_entry_def sp)
  have "c_int (r_must_change r) = r_must_change r" using p by (auto simp: printable_entry_def c_int_def)
  then show ?thesis
    using p by (simp add: scan_remembered_def 1 lead 2 3 4 printable_entry_def)
qed

lemma length_dec: "n < 10 ^ Suc k \<Longrightarrow> length (c_dec n) \<le> Suc k"
proof (induction n arbitrary: k rule: c_dec.induct)
  case (1 n)
  show ?case
  proof (cases "n < 10")
    case True
    then show ?thesis by (simp add: c_dec.simps [of n])
  next
    case False
    then obtain j where j: "k = Suc j" using "1.prems" by (cases k) auto
    then have "n div 10 < 10 ^ Suc j" using "1.prems" by (simp add: less_mult_imp_div_less mult.commute)
    from "1.IH" [OF False this] show ?thesis using False j by (simp add: c_dec.simps [of n])
  qed
qed

lemma remembered_line_length: "printable_entry r \<Longrightarrow> length (remembered_line r) \<le> 144"
proof -
  assume p: "printable_entry r"
  have "nat (r_until r) < 10 ^ Suc 10" using p by (simp add: printable_entry_def nat_less_iff)
  note u = length_dec [OF this]
  have "length (c_dec_int (r_must_change r)) \<le> 1"
    using p length_dec [of 0 0] length_dec [of 1 0] by (auto simp: printable_entry_def c_dec_int_def)
  then show ?thesis using p u by (simp add: remembered_line_def printable_entry_def c_dec_int_def)
qed

definition kept :: "int \<Rightarrow> remembered \<Rightarrow> bool" where
  "kept now r \<longleftrightarrow> r_used r \<and> now \<le> r_until r"

lemma save_lines_kept:
  "list_all (\<lambda>r. r_used r \<longrightarrow> printable_entry r) rs \<Longrightarrow> length t + 144 * length rs < REMEMBERED * 160 \<Longrightarrow>
     save_lines now rs t = (map (\<lambda>r. if kept now r then r else no_remembered) rs,
       t @ concat (map remembered_line (filter (kept now) rs)))"
proof (induction rs arbitrary: t)
  case (Cons r rs)
  show ?case
  proof (cases "kept now r")
    case False
    then show ?thesis using Cons by (auto simp: kept_def)
  next
    case True
    then have l: "length (remembered_line r) \<le> 144"
      using Cons.prems(1) remembered_line_length [of r] by (simp add: kept_def)
    have "save_lines now rs (t @ remembered_line r) = (map (\<lambda>r. if kept now r then r else no_remembered) rs,
       (t @ remembered_line r) @ concat (map remembered_line (filter (kept now) rs)))"
      by (rule Cons.IH) (use Cons.prems l in auto)
    then show ?thesis using True l Cons.prems(2) by (simp add: kept_def [abs_def])
  qed
qed simp

lemma load_lines_entries:
  "list_all printable_entry es \<Longrightarrow> length acc + length es \<le> REMEMBERED \<Longrightarrow>
     load_lines (map (bytes_of \<circ> entry_text) es) acc = acc @ es"
proof (induction es arbitrary: acc)
  case (Cons e es)
  have p: "printable_entry e" using Cons.prems by simp
  have "CHR 0x00 \<notin> set (entry_text e)" using entry_text_plain [OF p] by blast
  then show ?case using Cons scan_entry [OF p] by simp
qed simp

lemma saved_lines_split:
  "list_all printable_entry es \<Longrightarrow>
     split_lines (bytes_of (concat (map remembered_line es))) = map (bytes_of \<circ> entry_text) es"
proof (induction es)
  case (Cons e es)
  have "bytes_of (NL # s) = 10 # bytes_of s" for s by (simp add: bytes_of_def c_code_def)
  then have b: "bytes_of (concat (map remembered_line (e # es))) =
      bytes_of (entry_text e) @ 10 # bytes_of (concat (map remembered_line es))"
    by (simp add: remembered_line_text)
  have "10 \<notin> set (bytes_of (entry_text e))" using Cons.prems entry_text_bytes by simp
  then show ?case using Cons unfolding b by (simp add: split_lines_line)
qed (simp add: bytes_of_def)

text \<open>
  C31. A remembered sign-in survives a restart: unless the write failed and nothing changed
  on flash, a daemon that starts with the saved file has loaded exactly the entries in use
  that were not over, in their order and field by field, and otherwise free slots. The
  dates are those before the year 5138, so that all eight lines fit the buffer.
\<close>

theorem remembered_survives_restart:
  assumes "length (remembered_list w) = REMEMBERED"
    and "list_all (\<lambda>r. r_used r \<longrightarrow> printable_entry r) (remembered_list w)"
    and "files u = files (remembered_save env cfg w)" "\<not> remembered_loaded u"
    and "remembered_list u = replicate REMEMBERED no_remembered" "reads_ok env'"
  shows "let live = filter (kept (env_wall env (s_tick w))) (remembered_list w)
    in files u = files w \<or>
       remembered_list (remembered_load env' cfg u) = live @ replicate (REMEMBERED - length live) no_remembered"
proof -
  let ?now = "env_wall env (s_tick w)" and ?p = "remembered_path cfg"
  define live where "live = filter (kept ?now) (remembered_list w)"
  define tx where "tx = concat (map remembered_line live)"
  have pr: "list_all printable_entry live" using assms(2) by (auto simp: live_def kept_def list_all_iff)
  have ll: "length live \<le> REMEMBERED" using assms(1) by (metis live_def length_filter_le)
  have sl: "save_lines ?now (remembered_list w) [] =
      (map (\<lambda>r. if kept ?now r then r else no_remembered) (remembered_list w), tx)"
    using save_lines_kept [OF assms(2), of "[]" ?now] assms(1) by (simp add: REMEMBERED_def tx_def live_def)
  have len: "length tx \<le> 4096"
  proof -
    have "length (concat (map remembered_line es)) \<le> 144 * length es" if "list_all printable_entry es" for es
      using that remembered_line_length by (induction es) fastforce+
    from this [OF pr] ll show ?thesis by (simp add: tx_def REMEMBERED_def)
  qed
  have drop: "live @ drop (length live) (remembered_list u) = live @ replicate (REMEMBERED - length live) no_remembered"
    using assms(5) by simp
  have loaded: "remembered_list (remembered_load env' cfg u) = live @ replicate (REMEMBERED - length live) no_remembered"
    if f: "files u ?p = (if tx = [] then None else Some (bytes_of tx))"
  proof (cases "tx = []")
    case True
    have "live = []" using True by (cases live) (auto simp: tx_def remembered_line_def)
    then show ?thesis using f True assms(4,5) by (simp add: remembered_load_def joan_read_file_def)
  next
    case False
    have r: "joan_read_file env' ?p 4096 (u\<lparr>remembered_loaded := True\<rparr>) = (Some (bytes_of tx), s_next (u\<lparr>remembered_loaded := True\<rparr>))"
      by (rule read_file_ok) (use f False len assms(6) in simp_all)
    have "load_lines (split_lines (bytes_of tx)) [] = live"
      using load_lines_entries [OF pr, of "[]"] ll by (simp add: tx_def saved_lines_split [OF pr])
    then show ?thesis using assms(4) drop by (simp add: remembered_load_def r Let_def s_next_def)
  qed
  define w1 where "w1 = (s_next w)\<lparr>remembered_list := map (\<lambda>r. if kept ?now r then r else no_remembered) (remembered_list w)\<rparr>"
  have "remembered_list (s_next w) = remembered_list w" "files w1 = files w" by (simp_all add: s_next_def w1_def)
  then have "remembered_save env cfg w = (if tx = [] then unlink ?p w1 else snd (joan_write_atomic env ?p (bytes_of tx) w1))"
    by (simp add: remembered_save_def wall_now_def sl w1_def Let_def)
  then have "files u = files w \<or> files u ?p = (if tx = [] then None else Some (bytes_of tx))"
    using write_atomic_files [of env ?p "bytes_of tx" w1] \<open>files w1 = files w\<close> assms(3)
    by (cases "joan_write_atomic env ?p (bytes_of tx) w1") (auto split: if_splits)
  then show ?thesis using loaded by (auto simp: Let_def live_def [symmetric])
qed

definition sample_entry :: remembered where
  "sample_entry = \<lparr> r_used = True, r_hash = sample_token, r_csrf = sample_token, r_until = 1702592000, r_must_change = 1 \<rparr>"

lemma remembered_survives_restart_witness:
  "let w = sample_auth\<lparr>remembered_list := sample_entry # replicate 7 no_remembered\<rparr>;
       u = sample_auth\<lparr>files := files (remembered_save sample_store_env ''/data'' w)\<rparr>
   in files u = files w \<or>
      remembered_list (remembered_load sample_store_env ''/data'' u) = sample_entry # replicate 7 no_remembered"
proof -
  let ?w = "sample_auth\<lparr>remembered_list := sample_entry # replicate 7 no_remembered\<rparr>"
  let ?u = "sample_auth\<lparr>files := files (remembered_save sample_store_env ''/data'' ?w)\<rparr>"
  have t: "length sample_token = 64" "list_all is_lower_hex sample_token"
    using joan_hex_lower by (auto simp: sample_token_def list_all_iff)
  have e: "filter (kept (env_wall sample_store_env (s_tick ?w))) (remembered_list ?w) = [sample_entry]"
    by (simp add: kept_def sample_entry_def no_remembered_def sample_store_env_def sample_auth_def numeral_eq_Suc)
  have "let live = filter (kept (env_wall sample_store_env (s_tick ?w))) (remembered_list ?w)
    in files ?u = files ?w \<or>
       remembered_list (remembered_load sample_store_env ''/data'' ?u) = live @ replicate (REMEMBERED - length live) no_remembered"
  proof (rule remembered_survives_restart)
    show "list_all (\<lambda>r. r_used r \<longrightarrow> printable_entry r) (remembered_list ?w)"
      using t by (simp add: printable_entry_def sample_entry_def no_remembered_def list_all_iff)
  qed (simp_all add: sample_auth_def REMEMBERED_def sample_store_reads)
  then show ?thesis unfolding e by (simp add: Let_def REMEMBERED_def)
qed

section \<open>The tables in every sequence of operations\<close>

datatype auth_op =
    Login string string string bool
  | Request string string bool
  | ChangePassword authz string string
  | Logout authz
  | ForgetAll

fun auth_step :: "'e auth_env_scheme \<Rightarrow> string \<Rightarrow> 'w auth_scheme \<Rightarrow> auth_op \<Rightarrow> 'w auth_scheme" where
  "auth_step env cfg w (Login rem user pw keep) = snd (snd (joan_auth_login env cfg rem user pw keep w))"
| "auth_step env cfg w (Request cookie given rc) = snd (snd (joan_auth_request env cookie given rc w))"
| "auth_step env cfg w (ChangePassword z old new) = snd (joan_auth_change_password env cfg z old new w)"
| "auth_step env cfg w (Logout z) = joan_auth_logout env cfg z w"
| "auth_step env cfg w ForgetAll = joan_auth_forget_all env cfg w"

lemma scan_remembered_ok: "scan_remembered l = Some r \<Longrightarrow> remembered_ok r"
  by (auto simp: scan_remembered_def remembered_ok_def split: option.splits prod.splits if_splits)

lemma load_lines_ok:
  "list_all remembered_ok rs \<Longrightarrow> length rs \<le> REMEMBERED \<Longrightarrow>
     list_all remembered_ok (load_lines ls rs) \<and> length (load_lines ls rs) \<le> REMEMBERED"
  by (induction ls rs rule: load_lines.induct) (auto split: option.splits dest: scan_remembered_ok)

lemma auth_ok_load: "auth_ok w \<Longrightarrow> auth_ok (remembered_load env cfg w)"
proof -
  assume ok: "auth_ok w"
  let ?w = "w\<lparr>remembered_loaded := True\<rparr>"
  have ok1: "auth_ok ?w" using ok by (simp add: auth_ok_def)
  obtain raw w1 where 1: "joan_read_file env (remembered_path cfg) 4096 ?w = (raw, w1)" by fastforce
  have ok2: "auth_ok w1" by (rule auth_ok_tables [OF tables_read [OF 1] ok1])
  show ?thesis
    using ok ok2 1 load_lines_ok [of "[]"]
    by (auto simp: remembered_load_def auth_ok_def Let_def list_all_iff dest!: in_set_dropD split: option.splits)
qed

lemma auth_ok_save: "auth_ok w \<Longrightarrow> auth_ok (remembered_save env cfg w)"
  using save_fields(6) [of env cfg w]
  by (auto simp: auth_ok_def save_fields(1-5) list_all_iff dest!: subsetD)

lemma auth_ok_bucket_for: "bucket_for rem now w = (i, w') \<Longrightarrow> auth_ok w \<Longrightarrow> auth_ok w'"
  by (auto simp: bucket_for_def auth_ok_buckets split: sum.splits)

lemma auth_ok_throttled: "joan_auth_throttled env rem w = (b, w') \<Longrightarrow> auth_ok w \<Longrightarrow> auth_ok w'"
  by (auto simp: joan_auth_throttled_def Let_def split: prod.splits if_splits
      intro!: auth_ok_buckets dest: auth_ok_bucket_for auth_ok_tables [OF tables_now(1)])

lemma auth_ok_note: "auth_ok w \<Longrightarrow> auth_ok (joan_auth_note env rem ok w)"
  by (auto simp: joan_auth_note_def Let_def split: prod.splits
      intro!: auth_ok_buckets dest: auth_ok_bucket_for auth_ok_tables [OF tables_now(1)])

lemma auth_ok_forget: "auth_ok w \<Longrightarrow> auth_ok (forget_everyone env cfg w)"
proof -
  assume ok: "auth_ok w"
  then have "auth_ok (w\<lparr>sessions := replicate SESSIONS no_session\<rparr>)" by (simp add: auth_ok_def list_all_iff)
  from auth_ok_load [OF this, of env cfg]
  show ?thesis unfolding forget_everyone_def Let_def
    by (intro auth_ok_save) (simp add: auth_ok_def list_all_iff)
qed

lemma auth_ok_logout: "auth_ok w \<Longrightarrow> auth_ok (joan_auth_logout env cfg z w)"
proof -
  assume ok: "auth_ok w"
  let ?w = "w\<lparr>sessions := map (\<lambda>s. if used s \<and> same64 (z_token z) (token s) then no_session else s) (sessions w)\<rparr>"
  have "auth_ok ?w" using ok by (auto simp: auth_ok_def list_all_iff)
  note l = auth_ok_load [OF this, of env cfg]
  let ?u = "(remembered_load env cfg ?w)\<lparr>remembered_list := map (\<lambda>r. if r_used r \<and> same64 (token_hash env (z_token z)) (r_hash r)
      then no_remembered else r) (remembered_list (remembered_load env cfg ?w))\<rparr>"
  have "auth_ok ?u" using l by (auto simp: auth_ok_def list_all_iff)
  then show ?thesis by (auto simp: joan_auth_logout_def Let_def intro: auth_ok_save)
qed

lemma auth_ok_change: "joan_auth_change_password env cfg z old new w = (b, w') \<Longrightarrow> auth_ok w \<Longrightarrow> auth_ok w'"
  by (auto simp: joan_auth_change_password_def split: if_splits option.splits prod.splits bool.splits
      intro!: auth_ok_forget dest!: tables_verify tables_save_record dest: auth_ok_tables)

lemma auth_ok_request:
  fixes w :: "'w auth_scheme"
  assumes "auth_ok w"
  shows "auth_ok (snd (snd (joan_auth_request env cookie given rc w)))"
proof -
  let ?ts = "cookie_tokens None cookie"
  obtain now w1 where 1: "auth_now env w = (now, w1)" by fastforce
  have ok1: "auth_ok w1" by (rule auth_ok_tables [OF tables_now(1) [OF 1] assms])
  obtain m bad where m: "match_session now rc given (sessions w1) ?ts False = (m, bad)" by fastforce
  obtain wall w2 where 2: "wall_now env w1 = (wall, w2)" by fastforce
  define w3 where "w3 = remembered_load env (the (auth_config w1)) w2"
  have ok3: "auth_ok w3" unfolding w3_def by (rule auth_ok_load [OF auth_ok_tables [OF tables_now(2) [OF 2] ok1]])
  obtain q bad2 where q: "match_remembered env wall rc given (remembered_list w3) ?ts False = (q, bad2)" by fastforce
  show ?thesis
  proof (cases m)
    case (Some i)
    with match_session_Some [of now rc given "sessions w1" ?ts False i bad] m
    have "sessions w1 ! i \<in> set (sessions w1)" by auto
    then have "session_ok ((sessions w1 ! i)\<lparr>expires := now + SESSION_SECONDS\<rparr>)"
      using ok1 by (auto simp: auth_ok_def list_all_iff session_ok_def)
    then show ?thesis using 1 m Some auth_ok_session [OF ok1] by (simp add: joan_auth_request_def Let_def)
  next
    case None
    show ?thesis
    proof (cases q)
      case None
      then show ?thesis using \<open>m = None\<close> 1 2 m q ok1 ok3
        by (cases "auth_config w1") (simp_all add: joan_auth_request_def Let_def w3_def)
    next
      case (Some jt)
      obtain j t where jt: "jt = (j, t)" by fastforce
      with match_remembered_Some [of env wall rc given "remembered_list w3" ?ts False j t bad2] q Some
      have f: "t \<in> set ?ts" "remembered_list w3 ! j \<in> set (remembered_list w3)" "r_used (remembered_list w3 ! j)"
        by auto
      then have "session_ok \<lparr> used = True, token = t, csrf = r_csrf (remembered_list w3 ! j),
          expires = now + SESSION_SECONDS, must_change = r_must_change (remembered_list w3 ! j) \<rparr>"
        using ok3 length_cookie_tokens [OF f(1)] by (auto simp: auth_ok_def list_all_iff session_ok_def remembered_ok_def)
      then show ?thesis using \<open>m = None\<close> 1 2 m q Some jt ok1 auth_ok_session [OF ok3]
        by (cases "auth_config w1") (simp_all add: joan_auth_request_def Let_def w3_def)
    qed
  qed
qed

lemma random_length: "reads_ok env \<Longrightarrow> joan_random env n w = (Some bs, w') \<Longrightarrow> length bs = n"
  by (auto simp: joan_random_def reads_ok_def)

lemma auth_ok_remember:
  assumes "auth_ok w" "reads_ok env" "session_ok s" "used s"
  shows "auth_ok (remember_sign_in env cfg s w)"
proof -
  let ?w = "remembered_load env cfg w"
  obtain wall w1 where 1: "wall_now env ?w = (wall, w1)" by fastforce
  have ok: "auth_ok w1" by (rule auth_ok_tables [OF tables_now(2) [OF 1] auth_ok_load [OF assms(1)]])
  have "remembered_ok \<lparr> r_used = True, r_hash = token_hash env (token s), r_csrf = csrf s,
      r_until = wall + REMEMBER_SECONDS, r_must_change = must_change s \<rparr>"
    using assms length_token_hash [of env "token s"] by (simp add: remembered_ok_def session_ok_def reads_ok_def)
  from auth_ok_save [OF auth_ok_remembered [OF ok this]]
  show ?thesis by (simp add: remember_sign_in_def 1 Let_def)
qed

lemma auth_ok_login:
  fixes w :: "'w auth_scheme"
  assumes "auth_ok w" "reads_ok env"
  shows "auth_ok (snd (snd (joan_auth_login env cfg rem user pw keep w)))"
proof -
  obtain now w1 where 1: "auth_now env w = (now, w1)" by fastforce
  have ok1: "auth_ok w1" by (rule auth_ok_tables [OF tables_now(1) [OF 1] assms(1)])
  obtain limited w2 where 2: "joan_auth_throttled env rem w1 = (limited, w2)" by fastforce
  have ok2: "auth_ok w2" by (rule auth_ok_throttled [OF 2 ok1])
  obtain v w3 where 3: "(if user = ''admin'' then verify env cfg pw w2 else (None, w2)) = (v, w3)" by fastforce
  have "tables w3 = tables w2" using 3 by (auto split: if_splits dest: tables_verify)
  then have ok3: "auth_ok w3" by (rule auth_ok_tables) (rule ok2)
  obtain r4 w4 where 4: "joan_random env 32 w3 = (r4, w4)" by fastforce
  have ok4: "auth_ok w4" by (rule auth_ok_tables [OF tables_random [OF 4] ok3])
  obtain r5 w5 where 5: "joan_random env 32 w4 = (r5, w5)" by fastforce
  have ok5: "auth_ok w5" by (rule auth_ok_tables [OF tables_random [OF 5] ok4])
  define i where "i = session_slot now (sessions w4) 0"
  define s where "s = \<lparr> used = True, token = joan_hex (the r4), csrf = joan_hex (the r5),
      expires = now + SESSION_SECONDS, must_change = (if the v then 1 else 0) \<rparr>"
  define w6 where "w6 = w5\<lparr>sessions := (sessions w5)[i := s]\<rparr>"
  define w7 where "w7 = (if keep then remember_sign_in env cfg s w6 else w6)"
  obtain b w8 where 8: "bucket_for rem now w7 = (b, w8)" by fastforce
  have e: "snd (snd (joan_auth_login env cfg rem user pw keep w)) =
      (if limited then w2 else if v = None then joan_auth_note env rem False w3
       else if r4 = None then w4
       else if r5 = None then w5\<lparr>sessions := (sessions w5)[i := no_session]\<rparr>
       else w8\<lparr>buckets := (buckets w8)[b := (buckets w8 ! b)\<lparr>failures := 0\<rparr>]\<rparr>)"
    using 1 2 3 4 5 8 unfolding joan_auth_login_def
    by (cases v; cases r4; cases r5) (auto simp: Let_def w7_def w6_def s_def i_def)
  have ok8: "auth_ok w8" if "r4 \<noteq> None" "r5 \<noteq> None"
  proof -
    have "session_ok s" "used s"
      using that random_length [OF assms(2), of 32 w3 "the r4" w4] random_length [OF assms(2), of 32 w4 "the r5" w5] 4 5
      by (auto simp: session_ok_def s_def)
    then have ok6: "auth_ok w6" using auth_ok_session [OF ok5] by (simp add: w6_def)
    have "auth_ok (remember_sign_in env cfg s w6)"
      by (rule auth_ok_remember [OF ok6 assms(2) \<open>session_ok s\<close> \<open>used s\<close>])
    then have "auth_ok w7" using ok6 by (simp add: w7_def)
    then show ?thesis by (rule auth_ok_bucket_for [OF 8])
  qed
  show ?thesis unfolding e
    using ok2 ok3 ok4 ok5 ok8 by (auto intro: auth_ok_note auth_ok_session auth_ok_buckets)
qed

text \<open>The operations of the daemon as a machine with the tables' shape as its invariant.\<close>

interpretation auth_tables: invariant_machine "auth_step env cfg" "\<lambda>w. reads_ok env \<longrightarrow> auth_ok w" for env cfg
proof unfold_locales
  show "reads_ok env \<longrightarrow> auth_ok (auth_step env cfg w op)" if "reads_ok env \<longrightarrow> auth_ok w" for w op
    using that auth_ok_change [of env cfg]
    by (cases op) (auto simp: joan_auth_forget_all_def split: prod.splits
        intro!: auth_ok_login auth_ok_request auth_ok_logout auth_ok_forget intro: auth_ok_change [OF surjective_pairing])
qed

text \<open>
  C32. The tables keep their shape through every sequence of sign-ins, requests, changes
  and sign-outs: sixteen sessions, eight remembered sign-ins and sixteen buckets, and each
  one in use has a token or hash and a CSRF token of exactly 64 characters, so no
  comparison in constant time and no copy of 65 bytes reads past a field.
\<close>

theorem auth_tables_ok:
  assumes "auth_ok w" "reads_ok env"
  shows "auth_ok (foldl (auth_step env cfg) w ops)"
  using auth_tables.run_inv [of env w cfg ops] assms by simp

lemma sample_auth_ok: "auth_ok sample_auth"
  by (simp add: auth_ok_def sample_auth_def list_all_iff)

lemma auth_tables_ok_witness:
  "auth_ok (foldl (auth_step sample_store_env ''/data'') sample_auth [Login ''10.0.0.9'' ''admin'' ''admin'' True, ForgetAll])"
  by (rule auth_tables_ok [OF sample_auth_ok sample_store_reads])

end
