(* ===== verification/Rtp.thy ===== *)
theory Rtp
  imports C_Strings
begin

text \<open>
  The RTP side of the RTSP server (\<open>media/src/rtsp.c\<close>): packets of a track over the
  connection or a datagram socket, H.264 frames cut into NAL units and fragments, A-law
  frames, sender reports, and the choice of the frames a viewer gets. The sockets, the
  clocks and the media rings answer by an environment indexed by the number of the call;
  an interrupted call has been repeated, and a wait for room in the socket is part of the
  call it ends.
\<close>

section \<open>Environment and state\<close>

datatype udp_result = Udp_sent nat | Udp_busy | Udp_failed

datatype codec = H264 | PCMA | JPEG

record frame =
  f_data :: "byte list"
  pts_us :: u64
  f_sequence :: u64
  keyframe :: bool
  f_codec :: codec

record rtp_env =
  net_send :: "nat \<Rightarrow> nat \<Rightarrow> nat option"
  net_udp :: "nat \<Rightarrow> int \<Rightarrow> nat \<Rightarrow> udp_result"
  net_stopped :: "nat \<Rightarrow> bool"
  net_now :: "nat \<Rightarrow> u64"
  net_wall :: "nat \<Rightarrow> (u64 \<times> u64) option"
  net_params :: "nat \<Rightarrow> nat \<Rightarrow> (byte list \<times> byte list) option"
  net_read :: "nat \<Rightarrow> nat \<Rightarrow> u64 \<Rightarrow> int \<times> u64 \<times> frame"

record rtp_net =
  n_tick :: nat
  tcp_out :: "byte list"
  udp_out :: "(int \<times> byte list) list"
  idr_requests :: "int list"

record rtsp_track =
  is_setup :: bool
  tcp :: bool
  rtp_fd :: int
  rtcp_fd :: int
  rtp_channel :: nat
  rtcp_channel :: nat
  client_rtp :: nat
  client_rtcp :: nat
  server_rtp :: nat
  server_rtcp :: nat
  t_sequence :: u16
  ssrc :: u32
  timestamp_base :: u32
  packets :: u32
  octets :: u32
  last_report_us :: u64

definition RTP_PAYLOAD_MAX :: nat where "RTP_PAYLOAD_MAX = 1200"

definition n_next :: "'w rtp_net_scheme \<Rightarrow> 'w rtp_net_scheme" where
  "n_next w = w\<lparr>n_tick := Suc (n_tick w)\<rparr>"

section \<open>Sending\<close>

text \<open>The loop of \<open>send_all\<close>: each call takes some of what is left, or the connection is over.\<close>

function send_all :: "'e rtp_env_scheme \<Rightarrow> byte list \<Rightarrow> 'w rtp_net_scheme \<Rightarrow> bool \<times> 'w rtp_net_scheme" where
  "send_all env d w =
     (if d = [] then (True, w)
      else case net_send env (n_tick w) (length d) of
        None \<Rightarrow> (False, n_next w)
      | Some n \<Rightarrow>
          if n = 0 then (False, n_next w)
          else send_all env (drop n d) ((n_next w)\<lparr>tcp_out := tcp_out w @ take n d\<rparr>))"
  by pat_completeness auto
termination by (relation "measure (\<lambda>(env, d, w). length d)") auto

declare send_all.simps [simp del]

definition send_transport ::
  "'e rtp_env_scheme \<Rightarrow> rtsp_track \<Rightarrow> bool \<Rightarrow> byte list \<Rightarrow> 'w rtp_net_scheme \<Rightarrow> bool \<times> 'w rtp_net_scheme" where
  "send_transport env t rtcp packet w =
     (if tcp t then
        (if RTP_PAYLOAD_MAX + 12 < length packet then (False, w)
         else send_all env
                (0x24 # of_nat (if rtcp then rtcp_channel t else rtp_channel t) #
                 write_be16 (of_nat (length packet)) @ packet) w)
      else
        let fd = (if rtcp then rtcp_fd t else rtp_fd t)
        in case net_udp env (n_tick w) fd (length packet) of
             Udp_busy \<Rightarrow> (True, n_next w)
           | Udp_failed \<Rightarrow> (False, n_next w)
           | Udp_sent n \<Rightarrow> (n = length packet, (n_next w)\<lparr>udp_out := udp_out w @ [(fd, take n packet)]\<rparr>))"

definition media_timestamp :: "rtsp_track \<Rightarrow> u64 \<Rightarrow> u64 \<Rightarrow> u32" where
  "media_timestamp t pts rate =
     timestamp_base t + ucast (pts div 1000000 * rate + pts mod 1000000 * rate div 1000000)"

definition rtp_packet :: "rtsp_track \<Rightarrow> byte \<Rightarrow> u32 \<Rightarrow> bool \<Rightarrow> byte list \<Rightarrow> byte list" where
  "rtp_packet t payload_type timestamp marker d =
     [0x80, payload_type OR (if marker then 0x80 else 0)] @ write_be16 (t_sequence t) @
     write_be32 timestamp @ write_be32 (ssrc t) @ d"

definition rtp ::
  "'e rtp_env_scheme \<Rightarrow> byte \<Rightarrow> u32 \<Rightarrow> bool \<Rightarrow> byte list \<Rightarrow> rtsp_track \<Rightarrow> 'w rtp_net_scheme
     \<Rightarrow> bool \<times> rtsp_track \<times> 'w rtp_net_scheme" where
  "rtp env payload_type timestamp marker d t w =
     (if RTP_PAYLOAD_MAX < length d then (False, t, w)
      else
        let packet = rtp_packet t payload_type timestamp marker d; t = t\<lparr>t_sequence := t_sequence t + 1\<rparr>
        in case send_transport env t False packet w of
             (False, w) \<Rightarrow> (False, t, w)
           | (True, w) \<Rightarrow> (True, t\<lparr>packets := packets t + 1, octets := octets t + of_nat (length d)\<rparr>, w))"

section \<open>H.264\<close>

text \<open>The fragments of a large NAL unit from an offset on.\<close>

function fragments ::
  "'e rtp_env_scheme \<Rightarrow> u32 \<Rightarrow> bool \<Rightarrow> byte list \<Rightarrow> nat \<Rightarrow> rtsp_track \<Rightarrow> 'w rtp_net_scheme
     \<Rightarrow> bool \<times> rtsp_track \<times> 'w rtp_net_scheme" where
  "fragments env timestamp marker nal offset t w =
     (if length nal \<le> offset then (True, t, w)
      else
        let chunk = min (length nal - offset) (RTP_PAYLOAD_MAX - 2);
            last = (offset + chunk = length nal);
            head = (nal ! 0 AND 0xe0) OR 28;
            fu = (nal ! 0 AND 31) OR (if offset = 1 then 0x80 else 0) OR (if last then 0x40 else 0)
        in case rtp env 96 timestamp (last \<and> marker) (head # fu # take chunk (drop offset nal)) t w of
             (False, t, w) \<Rightarrow> (False, t, w)
           | (True, t, w) \<Rightarrow>
               if net_stopped env (n_tick w) then (False, t, n_next w)
               else fragments env timestamp marker nal (offset + chunk) t (n_next w))"
  by pat_completeness auto
termination
  by (relation "measure (\<lambda>(env, ts, m, nal, offset, t, w). length nal - offset)") (auto simp: RTP_PAYLOAD_MAX_def)

declare fragments.simps [simp del]

definition h264_nal ::
  "'e rtp_env_scheme \<Rightarrow> u32 \<Rightarrow> bool \<Rightarrow> byte list \<Rightarrow> rtsp_track \<Rightarrow> 'w rtp_net_scheme
     \<Rightarrow> bool \<times> rtsp_track \<times> 'w rtp_net_scheme" where
  "h264_nal env timestamp marker nal t w =
     (if nal = [] then (True, t, w)
      else
        let type = nal ! 0 AND 31
        in if nal ! 0 AND 0x80 \<noteq> 0 \<or> type = 0 \<or> 24 \<le> type then (False, t, w)
           else if length nal \<le> RTP_PAYLOAD_MAX then rtp env 96 timestamp marker nal t w
           else fragments env timestamp marker nal 1 t w)"

text \<open>The next start code at or after a position, with its length; 0 if there is none.\<close>

function start_code :: "byte list \<Rightarrow> nat \<Rightarrow> nat \<times> nat" where
  "start_code d i =
     (if length d < i + 3 then (length d, 0)
      else if d ! i \<noteq> 0 \<or> d ! (i + 1) \<noteq> 0 then start_code d (i + 1)
      else if d ! (i + 2) = 1 then (i, 3)
      else if i + 4 \<le> length d \<and> d ! (i + 2) = 0 \<and> d ! (i + 3) = 1 then (i, 4)
      else start_code d (i + 1))"
  by pat_completeness auto
termination by (relation "measure (\<lambda>(d, i). length d + 3 - i)") auto

declare start_code.simps [simp del]

lemma start_code_range: "start_code d i = (j, p) \<Longrightarrow> (p = 0 \<longrightarrow> j = length d) \<and> (p \<noteq> 0 \<longrightarrow> i \<le> j \<and> j + p \<le> length d)"
proof (induction d i rule: start_code.induct)
  case (1 d i)
  note s = "1.prems" [unfolded start_code.simps [of d i]]
  consider "length d < i + 3" | "\<not> length d < i + 3" "d ! i \<noteq> 0 \<or> d ! (i + 1) \<noteq> 0"
    | "\<not> length d < i + 3" "\<not> (d ! i \<noteq> 0 \<or> d ! (i + 1) \<noteq> 0)" "d ! (i + 2) = 1"
    | "\<not> length d < i + 3" "\<not> (d ! i \<noteq> 0 \<or> d ! (i + 1) \<noteq> 0)" "d ! (i + 2) \<noteq> 1"
      "i + 4 \<le> length d \<and> d ! (i + 2) = 0 \<and> d ! (i + 3) = 1"
    | "\<not> length d < i + 3" "\<not> (d ! i \<noteq> 0 \<or> d ! (i + 1) \<noteq> 0)" "d ! (i + 2) \<noteq> 1"
      "\<not> (i + 4 \<le> length d \<and> d ! (i + 2) = 0 \<and> d ! (i + 3) = 1)" by blast
  then show ?case
  proof cases
    case 2
    have "start_code d (i + 1) = (j, p)" using s 2 by (simp only: if_False if_True simp_thms)
    from "1.IH"(1) [OF 2 this] show ?thesis by linarith
  next
    case 5
    have "start_code d (i + 1) = (j, p)" using s 5 by (simp only: if_False if_True simp_thms)
    from "1.IH"(2) [OF 5 this] show ?thesis by linarith
  qed (use s in auto)
qed

text \<open>One past the last byte that is not 0 between two positions.\<close>

fun trim_zeros :: "byte list \<Rightarrow> nat \<Rightarrow> nat \<Rightarrow> nat" where
  "trim_zeros d begin 0 = 0"
| "trim_zeros d begin (Suc n) = (if begin < Suc n \<and> d ! n = 0 then trim_zeros d begin n else Suc n)"

function nal_units ::
  "'e rtp_env_scheme \<Rightarrow> u32 \<Rightarrow> byte list \<Rightarrow> nat \<Rightarrow> nat \<Rightarrow> rtsp_track \<Rightarrow> 'w rtp_net_scheme
     \<Rightarrow> bool \<times> rtsp_track \<times> 'w rtp_net_scheme" where
  "nal_units env timestamp d position prefix t w =
     (if prefix = 0 then (True, t, w)
      else
        let begin = position + prefix; (nxt, next_prefix) = start_code d begin;
            stop = trim_zeros d begin nxt
        in case (if begin < stop
                 then h264_nal env timestamp (next_prefix = 0) (take (stop - begin) (drop begin d)) t w
                 else (True, t, w)) of
             (False, t, w) \<Rightarrow> (False, t, w)
           | (True, t, w) \<Rightarrow> nal_units env timestamp d nxt next_prefix t w)"
  by pat_completeness auto
termination
  by (relation "measure (\<lambda>(env, ts, d, position, prefix, t, w). if prefix = 0 then 0 else Suc (length d + 4 - position))")
    (auto dest!: start_code_range [OF sym])

declare nal_units.simps [simp del]

definition video_frame ::
  "'e rtp_env_scheme \<Rightarrow> nat \<Rightarrow> frame \<Rightarrow> rtsp_track \<Rightarrow> 'w rtp_net_scheme \<Rightarrow> bool \<times> rtsp_track \<times> 'w rtp_net_scheme" where
  "video_frame env channel f t w =
     (let timestamp = media_timestamp t (pts_us f) 90000
      in case (if \<not> keyframe f then (True, t, w)
               else case net_params env (n_tick w) channel of
                 None \<Rightarrow> (True, t, n_next w)
               | Some (sps, pps) \<Rightarrow>
                   (case h264_nal env timestamp False sps t (n_next w) of
                      (False, t, w) \<Rightarrow> (False, t, w)
                    | (True, t, w) \<Rightarrow> h264_nal env timestamp False pps t w)) of
           (False, t, w) \<Rightarrow> (False, t, w)
         | (True, t, w) \<Rightarrow>
             let (position, prefix) = start_code (f_data f) 0
             in if prefix = 0 then h264_nal env timestamp True (f_data f) t w
                else nal_units env timestamp (f_data f) position prefix t w)"

section \<open>Audio\<close>

function audio_packets ::
  "'e rtp_env_scheme \<Rightarrow> u32 \<Rightarrow> byte list \<Rightarrow> nat \<Rightarrow> rtsp_track \<Rightarrow> 'w rtp_net_scheme
     \<Rightarrow> bool \<times> rtsp_track \<times> 'w rtp_net_scheme" where
  "audio_packets env timestamp d offset t w =
     (if length d \<le> offset then (True, t, w)
      else
        let size = min (length d - offset) RTP_PAYLOAD_MAX
        in case rtp env 8 (timestamp + of_nat offset) False (take size (drop offset d)) t w of
             (False, t, w) \<Rightarrow> (False, t, w)
           | (True, t, w) \<Rightarrow> audio_packets env timestamp d (offset + size) t w)"
  by pat_completeness auto
termination
  by (relation "measure (\<lambda>(env, ts, d, offset, t, w). length d - offset)") (auto simp: RTP_PAYLOAD_MAX_def)

declare audio_packets.simps [simp del]

definition audio_frame ::
  "'e rtp_env_scheme \<Rightarrow> frame \<Rightarrow> rtsp_track \<Rightarrow> 'w rtp_net_scheme \<Rightarrow> bool \<times> rtsp_track \<times> 'w rtp_net_scheme" where
  "audio_frame env f t w = audio_packets env (media_timestamp t (pts_us f) 8000) (f_data f) 0 t w"

section \<open>The client and its reports\<close>

record rtsp_client =
  channel :: int
  playing :: bool
  need_keyframe :: bool
  client_id :: u64
  backchannel :: bool
  tracks :: "rtsp_track list"
  input_buffer :: "byte list"
  nonce :: string
  session_id :: string
  base_uri :: string
  nonce_us :: u64
  last_activity_us :: u64
  cursor :: "u64 list"
  pts_origin_us :: u64
  mono_origin_us :: u64
  clock_started :: bool
  nonce_count :: nat

definition sender_report :: "rtsp_track \<Rightarrow> u64 \<times> u64 \<Rightarrow> u32 \<Rightarrow> byte list" where
  "sender_report t wall timestamp =
     [0x80, 200] @ write_be16 6 @ write_be32 (ssrc t) @
     write_be32 (ucast (fst wall + 2208988800)) @
     write_be32 (ucast (snd wall * 4294967296 div 1000000000)) @
     write_be32 timestamp @ write_be32 (packets t) @ write_be32 (octets t)"

definition source_description :: "rtsp_track \<Rightarrow> string \<Rightarrow> byte list" where
  "source_description t cname =
     (let size = (8 + 2 + length cname + 1 + 3) div 4 * 4
      in [0x81, 202] @ write_be16 (of_nat (size div 4 - 1)) @ write_be32 (ssrc t) @
         [1, of_nat (length cname)] @ bytes_of cname @ replicate (size - 10 - length cname) 0)"

definition rtcp_report ::
  "'e rtp_env_scheme \<Rightarrow> nat \<Rightarrow> bool \<Rightarrow> rtsp_client \<Rightarrow> 'w rtp_net_scheme \<Rightarrow> bool \<times> rtsp_client \<times> 'w rtp_net_scheme" where
  "rtcp_report env i bye c w =
     (let t = tracks c ! i
      in if \<not> is_setup t \<or> packets t = 0 \<or> \<not> clock_started c then (True, c, w)
         else case net_wall env (n_tick w) of
           None \<Rightarrow> (False, c, n_next w)
         | Some wall \<Rightarrow>
             let now = net_now env (n_tick w);
                 cname = take 63 (''jipc-'' @ session_id c);
                 packet = sender_report t wall (media_timestamp t now (if i \<noteq> 0 then 8000 else 90000)) @
                   source_description t cname @
                   (if bye then [0x81, 203] @ write_be16 1 @ write_be32 (ssrc t) else []);
                 t = t\<lparr>last_report_us := now\<rparr>
             in case send_transport env t True packet (n_next w) of
                  (ok, w) \<Rightarrow> (ok, c\<lparr>tracks := (tracks c)[i := t]\<rparr>, w))"

definition request_idr :: "rtsp_client \<Rightarrow> 'w rtp_net_scheme \<Rightarrow> 'w rtp_net_scheme" where
  "request_idr c w = w\<lparr>idr_requests := idr_requests w @ [channel c]\<rparr>"

section \<open>The frames a viewer gets\<close>

text \<open>
  One track of the loop of \<open>stream_frames\<close>: 0 is the video, 1 the audio. First the frame
  that is to be sent, if any: a viewer that lost a picture is given no more of them until
  the next keyframe.
\<close>

definition choose_frame ::
  "'e rtp_env_scheme \<Rightarrow> nat \<Rightarrow> rtsp_client \<Rightarrow> 'w rtp_net_scheme
     \<Rightarrow> bool \<times> frame option \<times> rtsp_client \<times> 'w rtp_net_scheme" where
  "choose_frame env i c w =
     (if \<not> is_setup (tracks c ! i) then (True, None, c, w)
      else
        let source = (if i \<noteq> 0 then 4 else nat (channel c)); previous = cursor c ! i;
            (result, cur, f) = net_read env (n_tick w) source previous;
            w = n_next w; c = c\<lparr>cursor := (cursor c)[i := cur]\<rparr>
        in if result < 0 then (False, None, c, w)
           else if result = 0 \<or> (i = 0 \<and> f_codec f \<noteq> H264) \<or> (i = 1 \<and> f_codec f \<noteq> PCMA) then (True, None, c, w)
           else
             let gap = (i = 0 \<and> previous \<noteq> 0 \<and> f_sequence f \<noteq> previous + 1 \<and> \<not> keyframe f \<and> \<not> need_keyframe c);
                 w = (if gap then request_idr c w else w);
                 c = (if gap then c\<lparr>need_keyframe := True\<rparr> else c)
             in if i = 0 \<and> need_keyframe c \<and> \<not> keyframe f then (True, None, c, w)
                else (True, Some f, if i = 0 then c\<lparr>need_keyframe := False\<rparr> else c, w))"

definition stream_track ::
  "'e rtp_env_scheme \<Rightarrow> nat \<Rightarrow> rtsp_client \<Rightarrow> 'w rtp_net_scheme \<Rightarrow> bool \<times> rtsp_client \<times> 'w rtp_net_scheme" where
  "stream_track env i c w =
     (case choose_frame env i c w of
        (ok, None, c, w) \<Rightarrow> (ok, c, w)
      | (_, Some f, c, w) \<Rightarrow>
          let (c, w) = (if clock_started c then (c, w)
                else (c\<lparr>clock_started := True, pts_origin_us := pts_us f,
                        mono_origin_us := net_now env (n_tick w)\<rparr>, n_next w))
          in case (if i \<noteq> 0 then audio_frame env f (tracks c ! 1) w
                   else video_frame env (nat (channel c)) f (tracks c ! 0) w) of
               (ok, t, w) \<Rightarrow>
                 let c = c\<lparr>tracks := (tracks c)[i := t]\<rparr>
                 in if \<not> ok then (False, c, w)
                    else if 5000000 < net_now env (n_tick w) - last_report_us (tracks c ! i)
                    then rtcp_report env i False c (n_next w)
                    else (True, c, n_next w))"

definition stream_frames ::
  "'e rtp_env_scheme \<Rightarrow> rtsp_client \<Rightarrow> 'w rtp_net_scheme \<Rightarrow> bool \<times> rtsp_client \<times> 'w rtp_net_scheme" where
  "stream_frames env c w =
     (if \<not> playing c then (True, c, w)
      else case stream_track env 0 c w of
        (False, c, w) \<Rightarrow> (False, c, w)
      | (True, c, w) \<Rightarrow> stream_track env 1 c w)"

section \<open>What a receiver makes of the packets\<close>

text \<open>
  The receiver of RFC 6184: single NAL units and FU-A fragments. It refuses fragments that
  do not follow their start, packets of other kinds, and an end inside a unit.
\<close>

fun depacketize :: "byte list option \<Rightarrow> byte list list \<Rightarrow> byte list list option" where
  "depacketize None [] = Some []"
| "depacketize (Some a) [] = None"
| "depacketize acc ((h # fu # d) # ps) =
     (if 1 \<le> h AND 31 \<and> h AND 31 < 24 then
        (if acc = None then map_option ((#) (h # fu # d)) (depacketize None ps) else None)
      else if h AND 31 = 28 then
        let first = (fu AND 0x80 \<noteq> 0); last = (fu AND 0x40 \<noteq> 0);
            a = (if first then ((h AND 0xe0) OR (fu AND 31)) # d else the acc @ d)
        in if first \<noteq> (acc = None) \<or> (first \<and> last) then None
           else if last then map_option ((#) a) (depacketize None ps)
           else depacketize (Some a) ps
      else None)"
| "depacketize acc ([h] # ps) =
     (if 1 \<le> h AND 31 \<and> h AND 31 < 24 \<and> acc = None then map_option ((#) [h]) (depacketize None ps) else None)"
| "depacketize acc ([] # ps) = None"

end
