(* ===== verification/Rtp_Correct.thy ===== *)
theory Rtp_Correct
  imports Rtp
begin

text \<open>
  A video frame reaches the receiver: what \<open>video_frame\<close> puts on a connection that takes
  it is a run of RTP packets with consecutive sequence numbers from which the receiver of
  RFC 6184 rebuilds the parameter sets and the NAL units of the frame, in order.
\<close>

section \<open>What a run of packets does\<close>

type_synonym item = "byte \<times> u32 \<times> bool \<times> byte list"

definition after1 :: "rtsp_track \<Rightarrow> item \<Rightarrow> rtsp_track" where
  "after1 t x = (case x of (pt, ts, m, d) \<Rightarrow>
     t\<lparr>t_sequence := t_sequence t + 1, packets := packets t + 1, octets := octets t + of_nat (length d)\<rparr>)"

definition interleaved :: "rtsp_track \<Rightarrow> item \<Rightarrow> byte list" where
  "interleaved t x = (case x of (pt, ts, m, d) \<Rightarrow>
     0x24 # of_nat (rtp_channel t) # write_be16 (of_nat (length d + 12)) @ rtp_packet t pt ts m d)"

fun wire :: "rtsp_track \<Rightarrow> item list \<Rightarrow> byte list" where
  "wire t [] = []"
| "wire t (x # xs) = interleaved t x @ wire (after1 t x) xs"

lemma wire_append: "wire t (xs @ ys) = wire t xs @ wire (foldl after1 t xs) ys"
  by (induction xs arbitrary: t) auto

lemma after1_fields [simp]: "tcp (after1 t x) = tcp t" "rtp_channel (after1 t x) = rtp_channel t"
  "ssrc (after1 t x) = ssrc t" "timestamp_base (after1 t x) = timestamp_base t"
  by (auto simp: after1_def split: prod.splits)

lemma append_single: "(@) [x] = (#) x"
  by (rule ext) simp

lemma after_fields [simp]: "tcp (foldl after1 t xs) = tcp t" "rtp_channel (foldl after1 t xs) = rtp_channel t"
  "ssrc (foldl after1 t xs) = ssrc t" "timestamp_base (foldl after1 t xs) = timestamp_base t"
  by (induction xs arbitrary: t) auto

definition delivers ::
  "bool \<times> rtsp_track \<times> 'w rtp_net_scheme \<Rightarrow> rtsp_track \<Rightarrow> 'w rtp_net_scheme \<Rightarrow> item list \<Rightarrow> bool" where
  "delivers r t w xs \<longleftrightarrow> (\<exists>k. r = (True, foldl after1 t xs, w\<lparr>n_tick := k, tcp_out := tcp_out w @ wire t xs\<rparr>))"

lemma delivers_Nil: "delivers (True, t, w) t w []"
  by (auto simp: delivers_def intro: exI [of _ "n_tick w"])

lemma delivers_next: "delivers (f (n_next w)) t (n_next w) xs \<Longrightarrow> delivers (f (n_next w)) t w xs"
  by (auto simp: delivers_def n_next_def)

lemma delivers_done: "delivers (True, t, n_next w) t w []"
  by (rule delivers_next [where f = "\<lambda>v. (True, t, v)", OF delivers_Nil])

lemma delivers_bind:
  assumes "delivers r t w xs"
    and "\<And>k. delivers (f (foldl after1 t xs) (w\<lparr>n_tick := k, tcp_out := tcp_out w @ wire t xs\<rparr>))
      (foldl after1 t xs) (w\<lparr>n_tick := k, tcp_out := tcp_out w @ wire t xs\<rparr>) ys"
  shows "delivers (case r of (False, t, w) \<Rightarrow> (False, t, w) | (True, t, w) \<Rightarrow> f t w) t w (xs @ ys)"
proof -
  obtain k where r: "r = (True, foldl after1 t xs, w\<lparr>n_tick := k, tcp_out := tcp_out w @ wire t xs\<rparr>)"
    using assms(1) by (auto simp: delivers_def)
  from assms(2) [of k] show ?thesis by (auto simp: r delivers_def wire_append)
qed

lemma delivers_bind_ex:
  assumes "delivers r t w xs"
    and "\<And>k. \<exists>ys. delivers (f (foldl after1 t xs) (w\<lparr>n_tick := k, tcp_out := tcp_out w @ wire t xs\<rparr>))
      (foldl after1 t xs) (w\<lparr>n_tick := k, tcp_out := tcp_out w @ wire t xs\<rparr>) ys \<and> Q ys"
  shows "\<exists>ys. delivers (case r of (False, t, w) \<Rightarrow> (False, t, w) | (True, t, w) \<Rightarrow> f t w) t w (xs @ ys) \<and> Q ys"
proof -
  obtain k where r: "r = (True, foldl after1 t xs, w\<lparr>n_tick := k, tcp_out := tcp_out w @ wire t xs\<rparr>)"
    using assms(1) by (auto simp: delivers_def)
  obtain ys where "delivers (f (foldl after1 t xs) (w\<lparr>n_tick := k, tcp_out := tcp_out w @ wire t xs\<rparr>))
      (foldl after1 t xs) (w\<lparr>n_tick := k, tcp_out := tcp_out w @ wire t xs\<rparr>) ys" "Q ys"
    using assms(2) [of k] by blast
  then show ?thesis by (intro exI [of _ ys]) (auto simp: r delivers_def wire_append)
qed

text \<open>A connection that takes every byte, in whatever pieces, of a server that is not stopping.\<close>

definition carries :: "'e rtp_env_scheme \<Rightarrow> bool" where
  "carries env \<longleftrightarrow> (\<forall>k n. 0 < n \<longrightarrow> (case net_send env k n of None \<Rightarrow> False | Some m \<Rightarrow> 0 < m)) \<and>
     (\<forall>k. \<not> net_stopped env k)"

lemma carries_send: "carries env \<Longrightarrow> 0 < n \<Longrightarrow> \<exists>m. net_send env k n = Some m \<and> 0 < m"
  unfolding carries_def by (elim conjE allE [of _ k] allE [of _ n]) (auto split: option.splits)

lemma send_all_carries:
  "carries env \<Longrightarrow> \<exists>k. send_all env d w = (True, w\<lparr>n_tick := k, tcp_out := tcp_out w @ d\<rparr>)"
proof (induction env d w rule: send_all.induct)
  case (1 env d w)
  show ?case
  proof (cases "d = []")
    case True
    then show ?thesis by (intro exI [of _ "n_tick w"]) (subst send_all.simps, simp)
  next
    case False
    then obtain m where m: "net_send env (n_tick w) (length d) = Some m" "0 < m"
      using carries_send [OF "1.prems", of "length d" "n_tick w"] by auto
    then have "m \<noteq> 0" by simp
    from "1.IH" [OF False m(1) this "1.prems"] obtain k where
      "send_all env (drop m d) ((n_next w)\<lparr>tcp_out := tcp_out w @ take m d\<rparr>) =
        (True, ((n_next w)\<lparr>tcp_out := tcp_out w @ take m d\<rparr>)\<lparr>n_tick := k, tcp_out := (tcp_out w @ take m d) @ drop m d\<rparr>)"
      by auto
    then show ?thesis using False m by (auto simp: send_all.simps [of env d w] n_next_def)
  qed
qed

lemma length_rtp_packet: "length (rtp_packet t pt ts m d) = length d + 12"
  by (simp add: rtp_packet_def)

lemma rtp_delivers:
  assumes "carries env" "tcp t" "length d \<le> RTP_PAYLOAD_MAX"
  shows "delivers (rtp env pt ts m d t w) t w [(pt, ts, m, d)]"
proof -
  obtain k where k: "send_all env (interleaved t (pt, ts, m, d)) w =
      (True, w\<lparr>n_tick := k, tcp_out := tcp_out w @ interleaved t (pt, ts, m, d)\<rparr>)"
    using send_all_carries [OF assms(1)] by blast
  show ?thesis
    using assms(2,3) k
    by (auto simp: rtp_def send_transport_def Let_def length_rtp_packet delivers_def after1_def interleaved_def)
qed

section \<open>NAL units and their packets\<close>

definition valid_nal :: "byte list \<Rightarrow> bool" where
  "valid_nal n \<longleftrightarrow> n \<noteq> [] \<and> n ! 0 AND 0x80 = 0 \<and> n ! 0 AND 31 \<noteq> 0 \<and> n ! 0 AND 31 < 24"

abbreviation marker_of :: "item \<Rightarrow> bool" where "marker_of x \<equiv> fst (snd (snd x))"
abbreviation data_of :: "item \<Rightarrow> byte list" where "data_of x \<equiv> snd (snd (snd x))"

definition frame_items :: "u32 \<Rightarrow> bool \<Rightarrow> byte list list \<Rightarrow> item list \<Rightarrow> bool" where
  "frame_items ts m nals xs \<longleftrightarrow> xs \<noteq> [] \<and>
     list_all (\<lambda>x. fst x = 96 \<and> fst (snd x) = ts \<and> length (data_of x) \<le> RTP_PAYLOAD_MAX) xs \<and>
     map marker_of xs = replicate (length xs - 1) False @ [m] \<and>
     (\<forall>ps. depacketize None (map data_of xs @ ps) = map_option ((@) nals) (depacketize None ps))"

lemma frame_items_append:
  assumes "frame_items ts False ns xs" "frame_items ts m ms ys"
  shows "frame_items ts m (ns @ ms) (xs @ ys)"
proof -
  have e: "replicate (length xs - 1) False @ False # zs = replicate (length xs) False @ zs" for zs
    using assms(1) by (cases xs) (simp_all add: frame_items_def replicate_append_same flip: replicate_app_Cons_same)
  have "map marker_of (xs @ ys) = replicate (length (xs @ ys) - 1) False @ [m]"
    using assms e by (cases ys) (auto simp: frame_items_def replicate_add)
  moreover have "depacketize None (map data_of (xs @ ys) @ ps) = map_option ((@) (ns @ ms)) (depacketize None ps)" for ps
    using assms by (cases "depacketize None ps") (auto simp: frame_items_def)
  ultimately show ?thesis using assms by (auto simp: frame_items_def)
qed

lemma byte_facts:
  "((h AND 0xe0) OR 28) AND 31 = (28 :: byte)" "\<not> ((28 :: byte) < 24)" "(28 :: byte) \<ge> 1"
  "h AND 0x80 = 0 \<Longrightarrow> (((h AND 0xe0) OR 28) AND 0xe0) OR (((h AND 31) OR 0x80 OR 0) AND 31) = (h :: byte)"
  "((h AND 31) OR 0x80 OR z) AND 0x80 \<noteq> (0 :: byte)" "((h AND 31) OR 0x80 OR 0) AND 0x40 = (0 :: byte)"
  "((h AND 31) OR 0 OR 0x40) AND 0x80 = (0 :: byte)" "((h AND 31) OR 0 OR 0x40) AND 0x40 \<noteq> (0 :: byte)"
  "((h AND 31) OR 0 OR 0) AND 0x80 = (0 :: byte)" "((h AND 31) OR 0 OR 0) AND 0x40 = (0 :: byte)"
proof -
  have c: "list_all (\<lambda>h :: byte. ((h AND 0xe0) OR 28) AND 31 = 28 \<and>
      (h AND 0x80 = 0 \<longrightarrow> (((h AND 0xe0) OR 28) AND 0xe0) OR (((h AND 31) OR 0x80 OR 0) AND 31) = h) \<and>
      ((h AND 31) OR 0x80 OR 0) AND 0x40 = 0 \<and>
      ((h AND 31) OR 0 OR 0x40) AND 0x80 = 0 \<and> ((h AND 31) OR 0 OR 0x40) AND 0x40 \<noteq> 0 \<and>
      ((h AND 31) OR 0 OR 0) AND 0x80 = 0 \<and> ((h AND 31) OR 0 OR 0) AND 0x40 = 0) all_bytes" by code_simp
  note f = all_bytes_check [OF c, of h]
  show "((h AND 0xe0) OR 28) AND 31 = (28 :: byte)" "\<not> ((28 :: byte) < 24)" "(28 :: byte) \<ge> 1" using f by simp_all
  show "h AND 0x80 = 0 \<Longrightarrow> (((h AND 0xe0) OR 28) AND 0xe0) OR (((h AND 31) OR 0x80 OR 0) AND 31) = h" using f by blast
  have "bit (((h AND 31) OR 0x80 OR z) AND 0x80) 7" by (simp add: bit_simps)
  then show "((h AND 31) OR 0x80 OR z) AND 0x80 \<noteq> (0 :: byte)" by auto
  show "((h AND 31) OR 0x80 OR 0) AND 0x40 = (0 :: byte)"
    "((h AND 31) OR 0 OR 0x40) AND 0x80 = (0 :: byte)" "((h AND 31) OR 0 OR 0x40) AND 0x40 \<noteq> (0 :: byte)"
    "((h AND 31) OR 0 OR 0) AND 0x80 = (0 :: byte)" "((h AND 31) OR 0 OR 0) AND 0x40 = (0 :: byte)" using f by blast+
qed

text \<open>The fragments from an offset on, for a receiver that has what comes before.\<close>

lemma fragments_delivers:
  fixes w :: "'w rtp_net_scheme"
  assumes "carries env" "valid_nal nal" "RTP_PAYLOAD_MAX < length nal"
  shows "1 \<le> off \<Longrightarrow> off < length nal \<Longrightarrow> off = 1 \<or> RTP_PAYLOAD_MAX - 2 < off \<Longrightarrow> tcp t \<Longrightarrow>
    \<exists>xs. delivers (fragments env ts m nal off t w) t w xs \<and> xs \<noteq> [] \<and>
      list_all (\<lambda>x. fst x = 96 \<and> fst (snd x) = ts \<and> length (data_of x) \<le> RTP_PAYLOAD_MAX) xs \<and>
      map marker_of xs = replicate (length xs - 1) False @ [m] \<and>
      (\<forall>ps. depacketize (if off = 1 then None else Some (take off nal)) (map data_of xs @ ps) =
         map_option ((#) nal) (depacketize None ps))"
proof (induction "length nal - off" arbitrary: off t w rule: less_induct)
  case less
  define chunk where "chunk = min (length nal - off) (RTP_PAYLOAD_MAX - 2)"
  define last where "last \<longleftrightarrow> off + chunk = length nal"
  define d where "d = ((nal ! 0 AND 0xe0) OR 28) # ((nal ! 0 AND 31) OR (if off = 1 then 0x80 else 0) OR (if last then 0x40 else 0)) #
      take chunk (drop off nal)"
  let ?x = "(96, ts, last \<and> m, d) :: item"
  have c: "0 < chunk" "chunk \<le> RTP_PAYLOAD_MAX - 2" "off + chunk \<le> length nal"
    using less.prems(1,2) by (auto simp: chunk_def RTP_PAYLOAD_MAX_def)
  have first: "\<not> last" if "off = 1"
    using that assms(3) by (auto simp: last_def chunk_def RTP_PAYLOAD_MAX_def)
  have ld: "length d \<le> RTP_PAYLOAD_MAX" using c by (simp add: d_def RTP_PAYLOAD_MAX_def)
  note x = rtp_delivers [OF assms(1) less.prems(4) ld, of 96 ts "last \<and> m" w]
  have step: "fragments env ts m nal off t w =
      (case rtp env 96 ts (last \<and> m) d t w of
         (False, t, w) \<Rightarrow> (False, t, w)
       | (True, t, w) \<Rightarrow> if net_stopped env (n_tick w) then (False, t, n_next w)
           else fragments env ts m nal (off + chunk) t (n_next w))"
    using less.prems(2) unfolding fragments.simps [of env ts m nal off t w]
    by (simp only: Let_def chunk_def [symmetric] last_def [symmetric] d_def [symmetric] not_le [symmetric] if_False)
  have head: "take off nal = [nal ! 0]" if "off = 1" using that assms(2) by (cases nal) (auto simp: valid_nal_def)
  have dep: "depacketize (if off = 1 then None else Some (take off nal)) (d # ps) =
      (if last then map_option ((#) nal) (depacketize None ps) else depacketize (Some (take (off + chunk) nal)) ps)" for ps
  proof -
    have h: "nal ! 0 AND 0x80 = 0" using assms(2) by (simp add: valid_nal_def)
    have app: "take off nal @ take chunk (drop off nal) = take (off + chunk) nal" by (simp add: take_add)
    show ?thesis
    proof (cases "off = 1")
      case True
      then show ?thesis using first [OF True] head [OF True] app byte_facts(2,3) byte_facts(1,4-10) [of "nal ! 0"] h
        by (simp add: d_def Let_def)
    next
      case False
      then show ?thesis using app byte_facts(2,3) byte_facts(1,4-10) [of "nal ! 0"] by (cases last) (auto simp: d_def Let_def last_def)
    qed
  qed
  show ?case
  proof (cases last)
    case True
    have e: "fragments env ts m nal (off + chunk) u v = (True, u, v)" for u and v :: "'w rtp_net_scheme"
      using True by (simp add: fragments.simps [of env ts m nal "length nal"] last_def)
    have "delivers (fragments env ts m nal off t w) t w ([?x] @ [])"
      unfolding step by (rule delivers_bind [OF x]) (use assms(1) in \<open>simp add: e carries_def delivers_done\<close>)
    then show ?thesis using dep True ld less.prems by (intro exI [of _ "[?x]"]) auto
  next
    case False
    let ?t = "foldl after1 t [?x]"
    have "length nal - (off + chunk) < length nal - off" "1 \<le> off + chunk" "off + chunk < length nal"
      "off + chunk = 1 \<or> RTP_PAYLOAD_MAX - 2 < off + chunk" "tcp ?t"
      using False c less.prems by (auto simp: last_def chunk_def RTP_PAYLOAD_MAX_def)
    note p = this
    have ih: "\<exists>xs. delivers (fragments env ts m nal (off + chunk) ?t v) ?t v xs \<and> xs \<noteq> [] \<and>
      list_all (\<lambda>x. fst x = 96 \<and> fst (snd x) = ts \<and> length (data_of x) \<le> RTP_PAYLOAD_MAX) xs \<and>
      map marker_of xs = replicate (length xs - 1) False @ [m] \<and>
      (\<forall>ps. depacketize (Some (take (off + chunk) nal)) (map data_of xs @ ps) =
         map_option ((#) nal) (depacketize None ps))" for v :: "'w rtp_net_scheme"
      using less.hyps [OF p, of v] c less.prems(1) by auto
    have "\<exists>ys. delivers (fragments env ts m nal off t w) t w ([?x] @ ys) \<and> ys \<noteq> [] \<and>
      list_all (\<lambda>x. fst x = 96 \<and> fst (snd x) = ts \<and> length (data_of x) \<le> RTP_PAYLOAD_MAX) ys \<and>
      map marker_of ys = replicate (length ys - 1) False @ [m] \<and>
      (\<forall>ps. depacketize (Some (take (off + chunk) nal)) (map data_of ys @ ps) =
         map_option ((#) nal) (depacketize None ps))"
      unfolding step
    proof (rule delivers_bind_ex [OF x])
      fix k
      let ?v = "w\<lparr>n_tick := k, tcp_out := tcp_out w @ wire t [?x]\<rparr>"
      obtain ys where ys: "delivers (fragments env ts m nal (off + chunk) ?t (n_next ?v)) ?t (n_next ?v) ys" and
        q: "ys \<noteq> [] \<and> list_all (\<lambda>x. fst x = 96 \<and> fst (snd x) = ts \<and> length (data_of x) \<le> RTP_PAYLOAD_MAX) ys \<and>
        map marker_of ys = replicate (length ys - 1) False @ [m] \<and>
        (\<forall>ps. depacketize (Some (take (off + chunk) nal)) (map data_of ys @ ps) = map_option ((#) nal) (depacketize None ps))"
        using ih [of "n_next ?v"] by blast
      have "delivers (fragments env ts m nal (off + chunk) ?t (n_next ?v)) ?t ?v ys"
        using ys by (rule delivers_next)
      then have "delivers (if net_stopped env (n_tick ?v) then (False, ?t, n_next ?v)
          else fragments env ts m nal (off + chunk) ?t (n_next ?v)) ?t ?v ys"
        using assms(1) by (simp add: carries_def)
      with q show "\<exists>ys. delivers (if net_stopped env (n_tick ?v) then (False, ?t, n_next ?v)
          else fragments env ts m nal (off + chunk) ?t (n_next ?v)) ?t ?v ys \<and> ys \<noteq> [] \<and>
        list_all (\<lambda>x. fst x = 96 \<and> fst (snd x) = ts \<and> length (data_of x) \<le> RTP_PAYLOAD_MAX) ys \<and>
        map marker_of ys = replicate (length ys - 1) False @ [m] \<and>
        (\<forall>ps. depacketize (Some (take (off + chunk) nal)) (map data_of ys @ ps) = map_option ((#) nal) (depacketize None ps))"
        by blast
    qed
    then obtain ys where ys: "delivers (fragments env ts m nal off t w) t w ([?x] @ ys)" "ys \<noteq> []"
      "list_all (\<lambda>x. fst x = 96 \<and> fst (snd x) = ts \<and> length (data_of x) \<le> RTP_PAYLOAD_MAX) ys"
      "map marker_of ys = replicate (length ys - 1) False @ [m]"
      "\<forall>ps. depacketize (Some (take (off + chunk) nal)) (map data_of ys @ ps) = map_option ((#) nal) (depacketize None ps)"
      by blast
    have "map marker_of ([?x] @ ys) = replicate (length ([?x] @ ys) - 1) False @ [m]"
      using ys(2,4) False by (cases ys) auto
    then show ?thesis using ys dep False ld by (intro exI [of _ "[?x] @ ys"]) auto
  qed
qed

lemma nal_delivers:
  assumes "carries env" "valid_nal nal" "tcp t"
  shows "\<exists>xs. delivers (h264_nal env ts m nal t w) t w xs \<and> frame_items ts m [nal] xs"
proof -
  have e: "h264_nal env ts m nal t w =
      (if length nal \<le> RTP_PAYLOAD_MAX then rtp env 96 ts m nal t w else fragments env ts m nal 1 t w)"
    using assms(2) by (auto simp: h264_nal_def valid_nal_def not_le)
  show ?thesis
  proof (cases "length nal \<le> RTP_PAYLOAD_MAX")
    case True
    obtain h r where n: "nal = h # r" using assms(2) by (cases nal) (auto simp: valid_nal_def)
    have "1 \<le> h AND 31" using assms(2) n by (simp add: valid_nal_def word_le_nat_alt Suc_le_eq unat_gt_0)
    then have "frame_items ts m [nal] [(96, ts, m, nal)]"
      using True assms(2) by (cases r) (auto simp: frame_items_def n valid_nal_def append_single)
    then show ?thesis using rtp_delivers [OF assms(1,3) True, of 96 ts m w] True e by auto
  next
    case False
    then have l: "RTP_PAYLOAD_MAX < length nal" by simp
    then have "(1 :: nat) \<le> 1" "1 < length nal" "1 = 1 \<or> RTP_PAYLOAD_MAX - 2 < (1 :: nat)" by (auto simp: RTP_PAYLOAD_MAX_def)
    from fragments_delivers [OF assms(1,2) l this assms(3), of ts m w] obtain xs where
      "delivers (fragments env ts m nal 1 t w) t w xs" "xs \<noteq> []"
      "list_all (\<lambda>x. fst x = 96 \<and> fst (snd x) = ts \<and> length (data_of x) \<le> RTP_PAYLOAD_MAX) xs"
      "map marker_of xs = replicate (length xs - 1) False @ [m]"
      "\<forall>ps. depacketize None (map data_of xs @ ps) = map_option ((#) nal) (depacketize None ps)"
      by auto
    then have "delivers (h264_nal env ts m nal t w) t w xs \<and> frame_items ts m [nal] xs"
      using False e by (simp add: frame_items_def append_single)
    then show ?thesis by blast
  qed
qed

section \<open>Start codes\<close>

text \<open>The search of the code on what is left of the frame.\<close>

fun next_code :: "byte list \<Rightarrow> nat \<times> nat" where
  "next_code (a # b # c # r) =
     (if (a = 0 \<and> b = 0) \<and> c = 1 then (0, 3)
      else if (a = 0 \<and> b = 0) \<and> c = 0 \<and> r \<noteq> [] \<and> hd r = 1 then (0, 4)
      else (case next_code (b # c # r) of (j, p) \<Rightarrow> (Suc j, p)))"
| "next_code xs = (length xs, 0)"

lemma drop_three: "i + 3 \<le> length d \<Longrightarrow> drop i d = d ! i # d ! (i + 1) # d ! (i + 2) # drop (i + 3) d"
proof -
  assume "i + 3 \<le> length d"
  then have "drop i d = d ! i # drop (Suc i) d" "drop (Suc i) d = d ! Suc i # drop (Suc (Suc i)) d"
    "drop (Suc (Suc i)) d = d ! Suc (Suc i) # drop (Suc (Suc (Suc i))) d"
    by (simp_all add: Cons_nth_drop_Suc)
  then show ?thesis by (simp add: numeral_3_eq_3)
qed

lemma start_code_next_code:
  "i \<le> length d \<Longrightarrow> start_code d i = (case next_code (drop i d) of (j, p) \<Rightarrow> (i + j, p))"
proof (induction "length d - i" arbitrary: i rule: less_induct)
  case less
  show ?case
  proof (cases "length d < i + 3")
    case True
    then have "length (drop i d) < 3" by simp
    then have "next_code (drop i d) = (length (drop i d), 0)"
      by (cases "drop i d" rule: next_code.cases) auto
    then show ?thesis using True less.prems by (simp add: start_code.simps [of d i])
  next
    case False
    then have l: "i + 3 \<le> length d" by simp
    note dr = drop_three [OF l]
    have "length d - (i + 1) < length d - i" "i + 1 \<le> length d" using l by auto
    note ih = less.hyps [OF this]
    have dr1: "drop (i + 1) d = d ! (i + 1) # d ! (i + 2) # drop (i + 3) d"
      using arg_cong [where f = tl, OF dr] by (simp add: drop_Suc tl_drop)
    have h: "i + 4 \<le> length d \<longleftrightarrow> drop (i + 3) d \<noteq> []" "i + 4 \<le> length d \<Longrightarrow> hd (drop (i + 3) d) = d ! (i + 3)"
      by (auto simp: hd_drop_conv_nth)
    show ?thesis
      using l ih h unfolding dr dr1 start_code.simps [of d i] by (auto split: prod.splits)
  qed
qed

text \<open>A unit without a start code in it that does not end in a zero byte.\<close>

fun no_code :: "byte list \<Rightarrow> bool" where
  "no_code (a # b # c # r) \<longleftrightarrow> \<not> (a = 0 \<and> b = 0 \<and> c = 1) \<and> no_code (b # c # r)"
| "no_code xs \<longleftrightarrow> True"

definition clean_nal :: "byte list \<Rightarrow> bool" where
  "clean_nal n \<longleftrightarrow> valid_nal n \<and> no_code n \<and> last n \<noteq> 0"

lemma no_code_nonzero: "0 \<notin> set n \<Longrightarrow> no_code n"
  by (induction n rule: no_code.induct) auto

text \<open>A byte stream: before each unit some zeros and the start code.\<close>

fun annexb :: "(nat \<times> byte list) list \<Rightarrow> byte list" where
  "annexb [] = []"
| "annexb ((k, n) # us) = replicate k 0 @ [0, 0, 1] @ n @ annexb us"

lemma next_code_zeros: "next_code (replicate k 0 @ [0, 0, 1] @ r) = (k - 1, if k = 0 then 3 else 4)"
proof (induction k)
  case (Suc k)
  then show ?case by (cases k; cases "k - 1") (auto simp: replicate_app_Cons_same split: prod.splits)
qed simp

lemma next_code_unit:
  "no_code n \<Longrightarrow> n \<noteq> [] \<Longrightarrow> last n \<noteq> 0 \<Longrightarrow>
     next_code (n @ replicate k 0 @ [0, 0, 1] @ r) = (length n + (k - 1), if k = 0 then 3 else 4)"
proof (induction n rule: no_code.induct [case_names long empty one two])
  case (long a b c n)
  have "next_code (b # c # n @ replicate k 0 @ [0, 0, 1] @ r) = (length (b # c # n) + (k - 1), if k = 0 then 3 else 4)"
    using long by simp
  moreover have "\<not> (a = 0 \<and> b = 0 \<and> c = 0 \<and> hd (n @ replicate k 0 @ [0, 0, 1] @ r) = 1)"
    using long.prems by (cases n) auto
  moreover have "n @ replicate k 0 @ [0, 0, 1] @ r \<noteq> []" by simp
  ultimately show ?case using long.prems(1) by auto
next
  case (one a)
  then have a: "a \<noteq> 0" by simp
  obtain x y z where "replicate k 0 @ [0, 0, 1 :: byte] @ r = x # y # z" by (cases k; cases "k - 1") auto
  then show ?case using a next_code_zeros [of k r] by auto
next
  case (two a b)
  then have b: "b \<noteq> 0" by simp
  obtain x y z where "replicate k 0 @ [0, 0, 1 :: byte] @ r = x # y # z" by (cases k; cases "k - 1") auto
  then show ?case using b next_code_zeros [of k r] by auto
qed simp

lemma next_code_end: "no_code n \<Longrightarrow> n \<noteq> [] \<Longrightarrow> last n \<noteq> 0 \<Longrightarrow> next_code n = (length n, 0)"
proof (induction n rule: no_code.induct)
  case (1 a b c n)
  have "next_code (b # c # n) = (length (b # c # n), 0)" using 1 by simp
  moreover have "\<not> (a = 0 \<and> b = 0 \<and> c = 0 \<and> n \<noteq> [] \<and> hd n = 1)" using "1.prems" by (cases n) auto
  ultimately show ?case using "1.prems"(1) by auto
qed auto

lemma trim_zeros_to:
  "b < s \<Longrightarrow> s \<le> n \<Longrightarrow> d ! (s - 1) \<noteq> 0 \<Longrightarrow> \<forall>j. s \<le> j \<and> j < n \<longrightarrow> d ! j = 0 \<Longrightarrow> trim_zeros d b n = s"
proof (induction n)
  case (Suc n)
  show ?case
  proof (cases "s = Suc n")
    case True
    then show ?thesis using Suc.prems by simp
  next
    case False
    then have "d ! n = 0" "trim_zeros d b n = s" using Suc by auto
    then show ?thesis using Suc.prems by simp
  qed
qed simp

lemma unit_at:
  assumes "drop b d = n @ annexb us" "clean_nal n" "b < length d" "start_code d b = (nxt, p)"
  shows "trim_zeros d b nxt = b + length n" "take (length n) (drop b d) = n"
    "us = [] \<Longrightarrow> p = 0"
    "us = (k, m) # vs \<Longrightarrow> p \<noteq> 0 \<and> drop (nxt + p) d = m @ annexb vs"
proof -
  have n: "no_code n" "n \<noteq> []" "last n \<noteq> 0" using assms(2) by (auto simp: clean_nal_def valid_nal_def)
  have s: "(nxt, p) = (case next_code (n @ annexb us) of (j, p) \<Rightarrow> (b + j, p))"
    using start_code_next_code [of b d] assms by simp
  have nth: "d ! (b + j) = (n @ annexb us) ! j" for j
    using assms(1,3) by (metis less_imp_le nth_drop)
  have "b + (length n - 1) = b + length n - 1" using n(2) by (cases n) auto
  then have l: "d ! (b + length n - 1) \<noteq> 0"
    using nth [of "length n - 1"] n by (simp add: nth_append last_conv_nth)
  show "take (length n) (drop b d) = n" by (simp add: assms(1))
  show "trim_zeros d b nxt = b + length n"
  proof (cases us)
    case Nil
    then have "nxt = b + length n" using s next_code_end [OF n] by simp
    then show ?thesis using n l by (intro trim_zeros_to) auto
  next
    case (Cons u vs)
    obtain k m where u: "u = (k, m)" by fastforce
    have nx: "nxt = b + length n + (k - 1)" using s Cons u next_code_unit [OF n, of k "m @ annexb vs"] by simp
    have "d ! j = 0" if "b + length n \<le> j" "j < nxt" for j
    proof -
      define i where "i = j - (b + length n)"
      have i: "j = b + (length n + i)" using that(1) by (simp add: i_def)
      then have "i < k" using that(2) nx by simp
      then show ?thesis using nth [of "length n + i"] by (simp add: i Cons u nth_append)
    qed
    then show ?thesis using n l nx by (intro trim_zeros_to) auto
  qed
  show "us = [] \<Longrightarrow> p = 0" using s next_code_end [OF n] by simp
  show "us = (k, m) # vs \<Longrightarrow> p \<noteq> 0 \<and> drop (nxt + p) d = m @ annexb vs"
  proof -
    assume u: "us = (k, m) # vs"
    have e: "nxt = b + length n + (k - 1)" "p = (if k = 0 then 3 else 4)"
      using s u next_code_unit [OF n, of k "m @ annexb vs"] by simp_all
    then have "nxt + p = length n + k + 3 + b" by (cases k) auto
    then have "drop (nxt + p) d = drop (length n + k + 3) (drop b d)" by simp
    also have "\<dots> = m @ annexb vs" by (simp add: assms(1) u)
    finally show ?thesis using e by simp
  qed
qed

text \<open>A step that sends some units whole, the last packet marked or not.\<close>

definition sends ::
  "u32 \<Rightarrow> bool \<Rightarrow> byte list list \<Rightarrow> bool \<times> rtsp_track \<times> 'w rtp_net_scheme \<Rightarrow> rtsp_track \<Rightarrow> 'w rtp_net_scheme \<Rightarrow> bool" where
  "sends ts m ns r t w \<longleftrightarrow> (\<exists>xs. delivers r t w xs \<and> frame_items ts m ns xs)"

lemma sends_nal: "carries env \<Longrightarrow> valid_nal n \<Longrightarrow> tcp t \<Longrightarrow> sends ts m [n] (h264_nal env ts m n t w) t w"
  unfolding sends_def by (rule nal_delivers)

lemma sends_next: "sends ts m ns (f (n_next w)) t (n_next w) \<Longrightarrow> sends ts m ns (f (n_next w)) t w"
  unfolding sends_def using delivers_next by blast

lemma sends_bind:
  assumes "sends ts False ns r t w" "tcp t" "\<And>t w. tcp t \<Longrightarrow> sends ts m ms (f t w) t w"
  shows "sends ts m (ns @ ms) (case r of (False, t, w) \<Rightarrow> (False, t, w) | (True, t, w) \<Rightarrow> f t w) t w"
proof -
  obtain xs where xs: "delivers r t w xs" "frame_items ts False ns xs" using assms(1) by (auto simp: sends_def)
  have "\<exists>ys. delivers (case r of (False, t, w) \<Rightarrow> (False, t, w) | (True, t, w) \<Rightarrow> f t w) t w (xs @ ys) \<and> frame_items ts m ms ys"
    by (rule delivers_bind_ex [OF xs(1)], rule assms(3) [unfolded sends_def]) (simp add: assms(2))
  then show ?thesis using frame_items_append [OF xs(2)] unfolding sends_def by blast
qed

text \<open>The loop over the units, from the start code before the first of them.\<close>

lemma nal_units_send:
  fixes w :: "'w rtp_net_scheme"
  assumes "carries env"
  shows "prefix \<noteq> 0 \<Longrightarrow> drop (pos + prefix) d = n @ annexb us \<Longrightarrow> clean_nal n \<Longrightarrow> list_all (clean_nal \<circ> snd) us \<Longrightarrow> tcp t \<Longrightarrow>
    sends ts True (n # map snd us) (nal_units env ts d pos prefix t w) t w"
proof (induction us arbitrary: n pos prefix t w)
  case (Cons u us)
  obtain k m where u: "u = (k, m)" by fastforce
  define b where "b = pos + prefix"
  obtain nxt p where s: "start_code d b = (nxt, p)" by fastforce
  have v: "valid_nal n" "n \<noteq> []" using Cons.prems(3) by (auto simp: clean_nal_def valid_nal_def)
  have len: "b < length d" using Cons.prems(2) v(2) by (cases "b < length d") (auto simp: b_def)
  note at = unit_at [OF Cons.prems(2) [folded b_def] Cons.prems(3) len s]
  have p: "p \<noteq> 0" "drop (nxt + p) d = m @ annexb us" using at(4) [of k m us] u by auto
  have cm: "clean_nal m" "list_all (clean_nal \<circ> snd) us" using Cons.prems(4) by (simp_all add: u comp_def)
  have step: "nal_units env ts d pos prefix t w =
      (case h264_nal env ts False n t w of (False, t, w) \<Rightarrow> (False, t, w)
       | (True, t, w) \<Rightarrow> nal_units env ts d nxt p t w)"
    using Cons.prems(1) s at(1,2) v(2) p(1)
    unfolding nal_units.simps [of env ts d pos prefix t w] by (simp add: Let_def b_def [symmetric])
  from sends_bind [where f = "nal_units env ts d nxt p", OF sends_nal [OF assms v(1) Cons.prems(5)] Cons.prems(5) Cons.IH [OF p cm]]
  show ?case by (simp add: u step)
next
  case Nil
  define b where "b = pos + prefix"
  obtain nxt p where s: "start_code d b = (nxt, p)" by fastforce
  have v: "valid_nal n" "n \<noteq> []" using Nil.prems(3) by (auto simp: clean_nal_def valid_nal_def)
  have len: "b < length d" using Nil.prems(2) v(2) by (cases "b < length d") (auto simp: b_def)
  note at = unit_at [OF Nil.prems(2) [folded b_def] Nil.prems(3) len s]
  have p: "p = 0" using at(3) by simp
  obtain xs where xs: "delivers (h264_nal env ts True n t w) t w xs" "frame_items ts True [n] xs"
    using nal_delivers [OF assms v(1) Nil.prems(5)] by blast
  have step: "nal_units env ts d pos prefix t w =
      (case h264_nal env ts True n t w of (False, t, w) \<Rightarrow> (False, t, w)
       | (True, t, w) \<Rightarrow> nal_units env ts d nxt 0 t w)"
    using Nil.prems(1) s at(1,2) v(2) p
    unfolding nal_units.simps [of env ts d pos prefix t w] by (simp add: Let_def b_def [symmetric])
  have "delivers (nal_units env ts d pos prefix t w) t w (xs @ [])"
    unfolding step by (rule delivers_bind [where f = "nal_units env ts d nxt 0", OF xs(1)])
      (subst nal_units.simps, simp add: delivers_Nil)
  then show ?case using xs(2) by (auto simp: sends_def)
qed

text \<open>The frame: the parameter sets of a key frame, and the units.\<close>

lemma frame_sends:
  fixes w :: "'w rtp_net_scheme"
  assumes "carries env" "tcp t" "f_data f = annexb us" "us \<noteq> []" "list_all (clean_nal \<circ> snd) us"
    and "keyframe f \<Longrightarrow> net_params env (n_tick w) ch = Some (sps, pps)" "valid_nal sps" "valid_nal pps"
  shows "sends (media_timestamp t (pts_us f) 90000) True ((if keyframe f then [sps, pps] else []) @ map snd us)
    (video_frame env ch f t w) t w"
proof -
  define ts where "ts = media_timestamp t (pts_us f) 90000"
  obtain k n vs where us: "us = (k, n) # vs" using assms(4) by (cases us) auto
  obtain pos prefix where s: "start_code (f_data f) 0 = (pos, prefix)" by fastforce
  have e: "pos = k - 1" "prefix = (if k = 0 then 3 else 4)"
    using s start_code_next_code [of 0 "f_data f"] next_code_zeros [of k "n @ annexb vs"] assms(3) us by auto
  then have "pos + prefix = k + 3" by (cases k) auto
  then have dr: "prefix \<noteq> 0" "drop (pos + prefix) (f_data f) = n @ annexb vs" using e by (simp_all add: assms(3) us)
  have cl: "clean_nal n" "list_all (clean_nal \<circ> snd) vs" using assms(5) by (simp_all add: us comp_def)
  have units: "sends ts True (map snd us) (nal_units env ts (f_data f) pos prefix t' w') t' w'"
    if "tcp t'" for t' and w' :: "'w rtp_net_scheme"
    using nal_units_send [OF assms(1) dr cl that] by (simp add: us)
  show ?thesis
  proof (cases "keyframe f")
    case False
    then show ?thesis using units [OF assms(2)] dr(1) by (simp add: video_frame_def ts_def s)
  next
    case True
    let ?sets = "\<lambda>w. case h264_nal env ts False sps t w of (False, t, w) \<Rightarrow> (False, t, w)
      | (True, t, w) \<Rightarrow> h264_nal env ts False pps t w"
    have step: "video_frame env ch f t w = (case ?sets (n_next w) of (False, t, w) \<Rightarrow> (False, t, w)
        | (True, t, w) \<Rightarrow> nal_units env ts (f_data f) pos prefix t w)"
      using True assms(6) [OF True] dr(1) unfolding video_frame_def Let_def ts_def s prod.case if_not_P [OF dr(1)] by simp
    note sets = sends_bind [where f = "h264_nal env ts False pps", OF sends_nal [OF assms(1,7,2)] assms(2) sends_nal [OF assms(1,8)]]
    from sends_bind [where f = "nal_units env ts (f_data f) pos prefix", OF sets assms(2) units]
    have "sends ts True (([sps] @ [pps]) @ map snd us) (video_frame env ch f t w) t (n_next w)"
      unfolding step .
    from sends_next [where f = "\<lambda>_. video_frame env ch f t w", OF this] True
    show ?thesis by (simp add: ts_def)
  qed
qed

text \<open>
  C10. A video frame reaches the receiver. On a connection that takes what is sent, in
  whatever pieces, a frame whose units are separated by start codes (with any number of
  extra zeros, each unit free of start codes and not ending in a zero) is sent whole: the
  bytes that leave are interleaved RTP packets of at most 1200 bytes of payload, numbered
  consecutively from the track's sequence number, all of payload type 96 with the frame's
  timestamp, only the last one marked, and the receiver of RFC 6184 rebuilds from their
  payloads exactly the parameter sets (for a key frame) and the units, in order.
\<close>

theorem video_frame_reaches_receiver:
  fixes w :: "'w rtp_net_scheme"
  assumes "carries env" "tcp t" "f_data f = annexb us" "us \<noteq> []" "list_all (clean_nal \<circ> snd) us"
    and "keyframe f \<Longrightarrow> net_params env (n_tick w) ch = Some (sps, pps)" "valid_nal sps" "valid_nal pps"
  shows "\<exists>k xs. video_frame env ch f t w = (True, foldl after1 t xs, w\<lparr>n_tick := k, tcp_out := tcp_out w @ wire t xs\<rparr>) \<and>
    list_all (\<lambda>(pt, ts, m, d). pt = 96 \<and> ts = media_timestamp t (pts_us f) 90000 \<and> length d \<le> RTP_PAYLOAD_MAX) xs \<and>
    map marker_of xs = replicate (length xs - 1) False @ [True] \<and>
    depacketize None (map data_of xs) = Some ((if keyframe f then [sps, pps] else []) @ map snd us)"
proof -
  let ?ts = "media_timestamp t (pts_us f) 90000" and ?nals = "(if keyframe f then [sps, pps] else []) @ map snd us"
  obtain xs where xs: "delivers (video_frame env ch f t w) t w xs" "frame_items ?ts True ?nals xs"
    using frame_sends [OF assms] by (auto simp: sends_def)
  obtain k where "video_frame env ch f t w = (True, foldl after1 t xs, w\<lparr>n_tick := k, tcp_out := tcp_out w @ wire t xs\<rparr>)"
    using xs(1) by (auto simp: delivers_def)
  moreover have "depacketize None (map data_of xs @ []) = map_option ((@) ?nals) (depacketize None [])"
    using xs(2) unfolding frame_items_def by blast
  moreover have "list_all (\<lambda>(pt, ts, m, d). pt = 96 \<and> ts = ?ts \<and> length d \<le> RTP_PAYLOAD_MAX) xs"
    "map marker_of xs = replicate (length xs - 1) False @ [True]"
    using xs(2) by (auto simp: frame_items_def list_all_iff)
  ultimately show ?thesis by (intro exI [of _ k] exI [of _ xs]) simp
qed

definition sample_rtp_env :: rtp_env where
  "sample_rtp_env = \<lparr> net_send = \<lambda>k n. Some (min n 900), net_udp = \<lambda>k fd n. Udp_busy, net_stopped = \<lambda>k. False,
     net_now = \<lambda>k. of_nat k, net_wall = \<lambda>k. None, net_params = \<lambda>k c. Some ([0x67, 1], [0x68, 2]),
     net_read = \<lambda>k s c. (0, c, \<lparr> f_data = [], pts_us = 0, f_sequence = 0, keyframe = False, f_codec = H264 \<rparr>) \<rparr>"

definition sample_track :: rtsp_track where
  "sample_track = \<lparr> is_setup = True, tcp = True, rtp_fd = -1, rtcp_fd = -1, rtp_channel = 0, rtcp_channel = 1,
     client_rtp = 0, client_rtcp = 0, server_rtp = 0, server_rtcp = 0, t_sequence = 65535, ssrc = 7,
     timestamp_base = 9, packets = 0, octets = 0, last_report_us = 0 \<rparr>"

definition sample_net :: rtp_net where
  "sample_net = \<lparr> n_tick = 0, tcp_out = [], udp_out = [], idr_requests = [] \<rparr>"

definition sample_frame :: frame where
  "sample_frame = \<lparr> f_data = annexb [(1, [0x65, 0, 0, 3, 1]), (0, 0x41 # replicate 1500 7)], pts_us = 40000,
     f_sequence = 1, keyframe = True, f_codec = H264 \<rparr>"

lemma video_frame_reaches_receiver_witness:
  "\<exists>k xs. video_frame sample_rtp_env 0 sample_frame sample_track sample_net =
      (True, foldl after1 sample_track xs, sample_net\<lparr>n_tick := k, tcp_out := wire sample_track xs\<rparr>) \<and>
    depacketize None (map data_of xs) = Some [[0x67, 1], [0x68, 2], [0x65, 0, 0, 3, 1], 0x41 # replicate 1500 7]"
proof -
  have c: "carries sample_rtp_env" by (simp add: carries_def sample_rtp_env_def)
  have "no_code (0x41 # replicate 1500 7)" by (rule no_code_nonzero) simp
  then have l: "list_all (clean_nal \<circ> snd) [(1, [0x65, 0, 0, 3, 1]), (0, 0x41 # replicate 1500 7)]"
    by (simp add: clean_nal_def valid_nal_def)
  have f: "keyframe sample_frame" "f_data sample_frame = annexb [(1, [0x65, 0, 0, 3, 1]), (0, 0x41 # replicate 1500 7)]"
    by (simp_all add: sample_frame_def)
  have t: "tcp sample_track" by (simp add: sample_track_def)
  have p: "net_params sample_rtp_env (n_tick sample_net) 0 = Some ([0x67, 1], [0x68, 2])" by (simp add: sample_rtp_env_def)
  have v: "valid_nal [0x67, 1]" "valid_nal [0x68, 2]" by (simp_all add: valid_nal_def)
  show ?thesis
    using video_frame_reaches_receiver [OF c t f(2) _ l p v] f(1) by (auto simp: sample_net_def simp del: replicate.simps)
qed

end
