(* ===== verification/Rtsp_Request.thy ===== *)
theory Rtsp_Request
  imports C_Strings
begin

text \<open>
  The requests of the RTSP server (\<open>media/src/rtsp.c\<close>): the request line and its headers,
  the fields of a Digest answer, addresses of streams and tracks, pairs of ports, and the
  tags a client requires. Strings are without their NUL; a header has passed the check
  that it holds no NUL.
\<close>

section \<open>Text\<close>

abbreviation (input) CR :: char where "CR \<equiv> CHR 0x0D"
abbreviation (input) LF :: char where "LF \<equiv> CHR 0x0A"

definition CRLF :: string where "CRLF = [CHR 0x0D, CHR 0x0A]"

text \<open>The text before the first line end, and what follows it.\<close>

fun cut_line :: "string \<Rightarrow> (string \<times> string) option" where
  "cut_line [] = None"
| "cut_line [c] = None"
| "cut_line (c # d # s) =
     (if c = CR \<and> d = LF then Some ([], s)
      else map_option (\<lambda>(a, b). (c # a, b)) (cut_line (d # s)))"

definition lower :: "string \<Rightarrow> string" where
  "lower s = map c_tolower s"

text \<open>\<open>parse_unsigned\<close>; a number that overflows is over every limit the code gives.\<close>

definition parse_unsigned :: "string \<Rightarrow> nat \<Rightarrow> nat option" where
  "parse_unsigned s limit =
     (if s = [] \<or> \<not> c_isdigit (hd s) then None
      else case c_strtoul s of (n, rest) \<Rightarrow> if rest \<noteq> [] \<or> limit < n then None else Some n)"

section \<open>Requests\<close>

definition RTSP_HEADER_MAX :: nat where "RTSP_HEADER_MAX = 16384"

record rtsp_request =
  rq_method :: string
  rq_uri :: string
  rq_authorization :: string
  rq_transport :: string
  rq_session :: string
  rq_range :: string
  rq_require :: string
  rq_cseq :: nat
  rq_length :: nat

definition no_request :: rtsp_request where
  "no_request = \<lparr> rq_method = [], rq_uri = [], rq_authorization = [], rq_transport = [], rq_session = [],
     rq_range = [], rq_require = [], rq_cseq = 0, rq_length = 0 \<rparr>"

definition request_line :: "string \<Rightarrow> rtsp_request option" where
  "request_line line =
     (case scan_word 31 line of None \<Rightarrow> None | Some (m, s) \<Rightarrow>
     (case scan_word 2047 s of None \<Rightarrow> None | Some (uri, s) \<Rightarrow>
     (case scan_word 15 s of None \<Rightarrow> None | Some (version, s) \<Rightarrow>
        if dropWhile c_isspace s \<noteq> [] \<or> version \<noteq> ''RTSP/1.0'' \<or>
           \<not> list_all (\<lambda>c. 32 < c_code c \<and> c_code c \<noteq> 127) uri then None
        else Some (no_request\<lparr>rq_method := m, rq_uri := uri\<rparr>))))"

definition value_ok :: "string \<Rightarrow> bool" where
  "value_ok v = list_all (\<lambda>c. (32 \<le> c_code c \<or> c = CHR 0x09) \<and> c_code c \<noteq> 127) v"

text \<open>A field that is kept as text: once, and if it fits.\<close>

definition text_field :: "string \<Rightarrow> nat \<Rightarrow> string \<Rightarrow> string option" where
  "text_field old capacity v = (if old \<noteq> [] \<or> capacity \<le> length v then None else Some v)"

text \<open>One header line; the flags say whether the sequence number and the length were seen.\<close>

definition request_field ::
  "string \<Rightarrow> string \<Rightarrow> rtsp_request \<times> bool \<times> bool \<Rightarrow> (rtsp_request \<times> bool \<times> bool) option" where
  "request_field name v st =
     (case st of (rq, have_cseq, have_length) \<Rightarrow>
        let n = lower name
        in if n = ''cseq'' then
             (if have_cseq then None
              else map_option (\<lambda>k. (rq\<lparr>rq_cseq := k\<rparr>, True, have_length)) (parse_unsigned v 2147483647))
           else if n = ''content-length'' then
             (if have_length then None
              else map_option (\<lambda>k. (rq\<lparr>rq_length := k\<rparr>, have_cseq, True)) (parse_unsigned v RTSP_HEADER_MAX))
           else if n = ''transfer-encoding'' then None
           else if n = ''require'' then
             (let old = rq_require rq; text = (if old = [] then v else old @ '', '' @ v)
              in if 256 \<le> length text then None else Some (rq\<lparr>rq_require := text\<rparr>, have_cseq, have_length))
           else if n = ''authorization'' then
             map_option (\<lambda>t. (rq\<lparr>rq_authorization := t\<rparr>, have_cseq, have_length)) (text_field (rq_authorization rq) 3072 v)
           else if n = ''transport'' then
             map_option (\<lambda>t. (rq\<lparr>rq_transport := t\<rparr>, have_cseq, have_length)) (text_field (rq_transport rq) 1024 v)
           else if n = ''session'' then
             map_option (\<lambda>t. (rq\<lparr>rq_session := t\<rparr>, have_cseq, have_length)) (text_field (rq_session rq) 128 v)
           else if n = ''range'' then
             map_option (\<lambda>t. (rq\<lparr>rq_range := t\<rparr>, have_cseq, have_length)) (text_field (rq_range rq) 128 v)
           else Some (rq, have_cseq, have_length))"

lemma cut_line_length: "cut_line s = Some (a, b) \<Longrightarrow> length b < length s"
  by (induction s arbitrary: a b rule: cut_line.induct) (auto split: if_splits)

function request_fields ::
  "string \<Rightarrow> nat \<Rightarrow> rtsp_request \<times> bool \<times> bool \<Rightarrow> (rtsp_request \<times> bool \<times> bool) option" where
  "request_fields s k st =
     (if s = [] then Some st
      else case cut_line s of
        None \<Rightarrow> None
      | Some (line, rest) \<Rightarrow>
          if 128 \<le> k \<or> is_blank (hd s) \<or> CHR '':'' \<notin> set line then None
          else
            let v = c_trim (tl (dropWhile (\<lambda>c. c \<noteq> CHR '':'') line))
            in if \<not> value_ok v then None
               else case request_field (takeWhile (\<lambda>c. c \<noteq> CHR '':'') line) v st of
                 None \<Rightarrow> None
               | Some st \<Rightarrow> request_fields rest (Suc k) st)"
  by pat_completeness auto
termination by (relation "measure (\<lambda>(s, k, st). length s)") (auto dest: cut_line_length)

declare request_fields.simps [simp del]

definition parse_request :: "string \<Rightarrow> rtsp_request option" where
  "parse_request header =
     (case cut_line header of None \<Rightarrow> None | Some (line, rest) \<Rightarrow>
     (case request_line line of None \<Rightarrow> None | Some rq \<Rightarrow>
     (case request_fields rest 0 (rq, False, False) of None \<Rightarrow> None
      | Some (rq, have_cseq, _) \<Rightarrow> if have_cseq then Some rq else None)))"

section \<open>Digest answers\<close>

definition key_char :: "char \<Rightarrow> bool" where
  "key_char c = (c_isalnum c \<or> c = CHR ''-'' \<or> c = CHR ''_'')"

text \<open>
  The value at the cursor, quoted or not, and what follows it. Inside quotes no backslash
  and no control character may stand before the closing quote.
\<close>

definition field_value :: "string \<Rightarrow> (string \<times> string) option" where
  "field_value s =
     (if s \<noteq> [] \<and> hd s = CHR 0x22 then
        (let v = takeWhile (\<lambda>c. c \<noteq> CHR 0x22) (tl s); rest = dropWhile (\<lambda>c. c \<noteq> CHR 0x22) (tl s)
         in if list_ex (\<lambda>c. c = CHR 0x5C \<or> c_code c < 32) v \<or> rest = [] then None else Some (v, tl rest))
      else
        let plain = (\<lambda>c. c \<noteq> CHR '','' \<and> \<not> is_blank c) in Some (takeWhile plain s, dropWhile plain s))"

lemma dropWhile_shorter: "length (dropWhile P s) \<le> length s"
  by (rule length_dropWhile_le)

lemma field_value_length: "field_value s = Some (v, r) \<Longrightarrow> length r \<le> length s"
proof -
  have "length (tl (dropWhile P (tl s))) \<le> length s" for P
    using dropWhile_shorter [of P "tl s"] by simp
  then show "field_value s = Some (v, r) \<Longrightarrow> length r \<le> length s"
    using dropWhile_shorter [of _ s] by (auto simp: field_value_def Let_def simp del: length_tl split: if_splits)
qed

text \<open>One field of the list: its name, its value and what follows it.\<close>

datatype digest_item = No_more | Bad_field | Field string string string

definition digest_item :: "string \<Rightarrow> digest_item" where
  "digest_item s =
     (let s = dropWhile (\<lambda>c. is_blank c \<or> c = CHR '','') s
      in if s = [] then No_more
         else
           let key = takeWhile key_char s; s1 = dropWhile is_blank (dropWhile key_char s)
           in if key = [] \<or> s1 = [] \<or> hd s1 \<noteq> CHR ''='' then Bad_field
              else case field_value (dropWhile is_blank (tl s1)) of
                None \<Rightarrow> Bad_field
              | Some (v, rest) \<Rightarrow>
                  let rest = dropWhile is_blank rest
                  in if rest \<noteq> [] \<and> hd rest \<noteq> CHR '','' then Bad_field else Field key v rest)"

lemma digest_item_length: "digest_item s = Field key v r \<Longrightarrow> length r < length s"
proof -
  assume f: "digest_item s = Field key v r"
  define x where "x = dropWhile (\<lambda>c. is_blank c \<or> c = CHR '','') s"
  define s1 where "s1 = dropWhile is_blank (dropWhile key_char x)"
  obtain rest where r: "field_value (dropWhile is_blank (tl s1)) = Some (v, rest)" "r = dropWhile is_blank rest" "s1 \<noteq> []"
    using f by (auto simp: digest_item_def Let_def x_def [symmetric] s1_def [symmetric] split: if_splits option.splits)
  have "length r \<le> length rest" "length rest \<le> length (dropWhile is_blank (tl s1))"
    "length (dropWhile is_blank (tl s1)) \<le> length (tl s1)" "length s1 \<le> length (dropWhile key_char x)"
    "length (dropWhile key_char x) \<le> length x" "length x \<le> length s"
    using field_value_length [OF r(1)] by (simp_all add: dropWhile_shorter r(2) s1_def x_def del: length_tl)
  then show ?thesis using r(3) by (cases s1) auto
qed

text \<open>The loop: whether the wanted field was there, and its value. It may not come twice.\<close>

function digest_fields :: "string \<Rightarrow> nat \<Rightarrow> string \<Rightarrow> bool \<times> string \<Rightarrow> (bool \<times> string) option" where
  "digest_fields wanted capacity s st =
     (case digest_item s of
        No_more \<Rightarrow> Some st
      | Bad_field \<Rightarrow> None
      | Field key v rest \<Rightarrow>
          if lower key = lower wanted then
            (if fst st \<or> capacity \<le> length v then None else digest_fields wanted capacity rest (True, v))
          else digest_fields wanted capacity rest st)"
  by pat_completeness auto
termination by (relation "measure (\<lambda>(wanted, capacity, s, st). length s)") (auto dest: digest_item_length)

declare digest_fields.simps [simp del]

definition digest_field :: "string \<Rightarrow> string \<Rightarrow> nat \<Rightarrow> (bool \<times> string) option" where
  "digest_field authorization wanted capacity = digest_fields wanted capacity authorization (False, [])"

section \<open>Addresses\<close>

definition starts_with :: "string \<Rightarrow> string \<Rightarrow> bool" where
  "starts_with p s = (take (length p) s = p)"

text \<open>\<open>strstr\<close>: what stands before the first occurrence.\<close>

fun before_text :: "string \<Rightarrow> string \<Rightarrow> string option" where
  "before_text p [] = (if p = [] then Some [] else None)"
| "before_text p (c # s) = (if starts_with p (c # s) then Some [] else map_option ((#) c) (before_text p s))"

definition stream_of :: "string \<Rightarrow> int" where
  "stream_of path =
     (let digit = (\<lambda>c. if 48 \<le> c_code c \<and> c_code c \<le> 51 then int (c_code c) - 48 else -1)
      in if length path = 9 \<and> starts_with ''/live/ch'' path \<and> 0 \<le> digit (path ! 8) then digit (path ! 8)
         else if length path = 7 \<and> starts_with ''/live/'' path \<and> 0 \<le> digit (path ! 6) then digit (path ! 6)
         else if length path = 8 \<and> starts_with ''/stream'' path \<and> 0 \<le> digit (path ! 7) then digit (path ! 7)
         else -1)"

definition track_of :: "string \<Rightarrow> nat option" where
  "track_of suffix =
     (if suffix = ''/trackID=0'' then Some 0 else if suffix = ''/trackID=1'' then Some 1
      else if suffix = ''/trackID=2'' then Some 2 else None)"

text \<open>The stream, the track if one is named, and the base address, if it fits.\<close>

definition uri_channel :: "string \<Rightarrow> nat \<Rightarrow> (int \<times> nat option \<times> string) option" where
  "uri_channel uri capacity =
     (let path = (if lower (take 7 uri) = ''rtsp://'' then dropWhile (\<lambda>c. c \<noteq> CHR ''/'') (drop 7 uri) else uri)
      in if path = [] \<or> hd path \<noteq> CHR ''/'' \<or> CHR ''?'' \<in> set path \<or> CHR ''#'' \<in> set path then None
         else
           let before = (case before_text ''/trackID='' path of None \<Rightarrow> path | Some b \<Rightarrow> b);
               suffix = drop (length before) path;
               stem = rev (dropWhile (\<lambda>c. c = CHR ''/'') (rev before));
               track = track_of suffix
           in if suffix \<noteq> [] \<and> track = None then None
              else
                let channel = stream_of stem; base = take (length uri - length path) uri @ stem
                in if channel < 0 \<or> capacity < length base + 2 then None
                   else Some (channel, track, base @ ''/''))"

section \<open>Transports\<close>

definition port_pair :: "string \<Rightarrow> nat \<Rightarrow> (nat \<times> nat) option" where
  "port_pair s limit =
     (let left = takeWhile (\<lambda>c. c \<noteq> CHR ''-'') s; rest = dropWhile (\<lambda>c. c \<noteq> CHR ''-'') s
      in if rest = [] \<or> left = [] \<or> 24 \<le> length left then None
         else case (parse_unsigned left limit, parse_unsigned (tl rest) limit) of
           (Some a, Some b) \<Rightarrow> if a = b then None else Some (a, b)
         | _ \<Rightarrow> None)"

section \<open>Required tags\<close>

definition BACKCHANNEL_TAG :: string where
  "BACKCHANNEL_TAG = ''www.onvif.org/ver20/backchannel''"

text \<open>One tag of the list: the backchannel is asked for, or it joins the unsupported ones.\<close>

definition require_tag :: "bool \<Rightarrow> nat \<Rightarrow> bool \<times> string \<Rightarrow> string \<Rightarrow> bool \<times> string" where
  "require_tag can capacity st token =
     (case st of (back, unsupported) \<Rightarrow>
        let tag = c_trim token
        in if tag = [] then (back, unsupported)
           else if can \<and> lower tag = lower BACKCHANNEL_TAG then (True, unsupported)
           else (back, take (capacity - 1) (unsupported @ (if unsupported = [] then [] else '', '') @ tag)))"

definition require_tags :: "string \<Rightarrow> bool \<Rightarrow> nat \<Rightarrow> bool \<times> string" where
  "require_tags require can capacity =
     foldl (require_tag can capacity) (False, []) (c_tokens (\<lambda>c. c = CHR '','') (take 255 require))"

end
