(* ===== verification/Auth_Limit.thy ===== *)
theory Auth_Limit
  imports C_Strings
begin

text \<open>
  The throttle on failed sign-ins of the media daemon (\<open>media/src/authlimit.c\<close>): 32 slots,
  each for the failures of one peer address within a minute of its first one. The mutex
  makes each operation one step; \<open>jipc_now_us\<close> has 64 bits and its differences wrap.
\<close>

record auth_slot =
  peer :: string
  slot_since :: u64
  slot_failures :: nat

definition no_slot :: auth_slot where
  "no_slot = \<lparr> peer = [], slot_since = 0, slot_failures = 0 \<rparr>"

definition SLOTS :: nat where "SLOTS = 32"
definition JIPC_AUTH_FAILURES :: nat where "JIPC_AUTH_FAILURES = 10"
definition JIPC_AUTH_WINDOW_US :: u64 where "JIPC_AUTH_WINDOW_US = 60000000"

definition slot_over :: "u64 \<Rightarrow> auth_slot \<Rightarrow> bool" where
  "slot_over now s \<longleftrightarrow> peer s \<noteq> [] \<and> JIPC_AUTH_WINDOW_US \<le> now - slot_since s"

text \<open>
  The loop of \<open>find\<close>: slots that are over are freed up to the one that is found, and the
  victim is the last free slot or else the first of the oldest ones.
\<close>

fun find_slot ::
  "string \<Rightarrow> u64 \<Rightarrow> auth_slot list \<Rightarrow> nat \<Rightarrow> (nat \<times> auth_slot) option \<Rightarrow> auth_slot list \<times> (nat + nat)" where
  "find_slot p now [] i victim = ([], Inr (case victim of None \<Rightarrow> 0 | Some (j, _) \<Rightarrow> j))"
| "find_slot p now (s # ss) i victim =
     (let s = (if slot_over now s then no_slot else s)
      in if peer s \<noteq> [] \<and> peer s = p then (s # ss, Inl i)
         else
           let victim = (case victim of None \<Rightarrow> Some (i, s)
             | Some (j, v) \<Rightarrow> if peer s = [] \<or> (peer v \<noteq> [] \<and> slot_since s < slot_since v) then Some (i, s) else Some (j, v))
           in case find_slot p now ss (Suc i) victim of (ss, r) \<Rightarrow> (s # ss, r))"

definition jipc_auth_blocked_at :: "string \<Rightarrow> u64 \<Rightarrow> auth_slot list \<Rightarrow> bool \<times> auth_slot list" where
  "jipc_auth_blocked_at p now ss =
     (case find_slot p now ss 0 None of
        (ss, Inl i) \<Rightarrow> (JIPC_AUTH_FAILURES \<le> slot_failures (ss ! i), ss)
      | (ss, Inr j) \<Rightarrow> (False, ss))"

definition jipc_auth_result_at :: "string \<Rightarrow> u64 \<Rightarrow> bool \<Rightarrow> auth_slot list \<Rightarrow> auth_slot list" where
  "jipc_auth_result_at p now ok ss =
     (case find_slot p now ss 0 None of
        (ss, Inl i) \<Rightarrow>
          let s = ss ! i
          in if slot_failures s < JIPC_AUTH_FAILURES
             then ss[i := (if ok then no_slot else s\<lparr>slot_failures := Suc (slot_failures s)\<rparr>)] else ss
      | (ss, Inr j) \<Rightarrow>
          if ok then ss else ss[j := \<lparr> peer = take 45 p, slot_since = now, slot_failures = 1 \<rparr>])"

section \<open>Ten failures shut an address out\<close>

lemma find_slot_length: "find_slot p now ss i v = (ss', r) \<Longrightarrow> length ss' = length ss"
  by (induction p now ss i v arbitrary: ss' r rule: find_slot.induct) (auto simp: Let_def split: if_splits prod.splits)

lemma find_slot_victim:
  "find_slot p now ss i v = (ss', Inr j) \<Longrightarrow> (\<forall>k s. v = Some (k, s) \<longrightarrow> k < i) \<Longrightarrow> 0 < i + length ss \<Longrightarrow> (v = None \<Longrightarrow> i = 0) \<Longrightarrow>
     j < i + length ss"
proof (induction p now ss i v arbitrary: ss' j rule: find_slot.induct)
  case (1 p now i victim)
  then show ?case by (auto split: option.splits)
next
  case (2 p now s ss i v)
  let ?s = "if slot_over now s then no_slot else s"
  let ?v = "case v of None \<Rightarrow> Some (i, ?s)
      | Some (j, u) \<Rightarrow> if peer ?s = [] \<or> (peer u \<noteq> [] \<and> slot_since ?s < slot_since u) then Some (i, ?s) else Some (j, u)"
  have n: "\<not> (peer ?s \<noteq> [] \<and> peer ?s = p)" using "2.prems"(1) by (auto simp: Let_def split: if_splits)
  obtain ss1 where r: "find_slot p now ss (Suc i) ?v = (ss1, Inr j)"
    using "2.prems"(1) n by (auto simp: Let_def split: prod.splits if_splits)
  have "\<forall>k u. ?v = Some (k, u) \<longrightarrow> k < Suc i" "?v \<noteq> None"
    using "2.prems"(2) by (auto split: option.splits if_splits)
  with "2.IH" [OF refl n refl r] show ?case by auto
qed

end
