(* ===== verification/Rtsp.thy ===== *)
theory Rtsp
  imports Rtp Rtsp_Request Auth_Limit
begin

text \<open>
  The sessions of the RTSP server (\<open>media/src/rtsp.c\<close>): sign-in with Digest, describing a
  stream, setting up its tracks, playing, and the loop that frames requests and
  interleaved packets on a connection. MD5 and base64 (mbedtls), the configuration, the
  speaker and the sockets are arguments of the environment; what is handed to the speaker
  is a log.
\<close>

section \<open>Environment and state\<close>

record rtsp_config =
  cfg_username :: string
  cfg_password :: string
  cfg_realm :: string
  cfg_audio :: bool
  cfg_sensors :: nat

record rtsp_env = rtp_env +
  net_config :: "nat \<Rightarrow> rtsp_config"
  net_random :: "nat \<Rightarrow> nat \<Rightarrow> byte list option"
  net_seed :: "nat \<Rightarrow> (u32 \<times> u32 \<times> u32) option"
  net_timeline :: "nat \<Rightarrow> u32 \<times> u32"
  net_md5 :: "byte list \<Rightarrow> byte list option"
  net_base64 :: "byte list \<Rightarrow> nat \<Rightarrow> string option"
  net_peer :: "string option"
  net_speaker :: "nat \<Rightarrow> bool"
  net_udp_pair :: "nat \<Rightarrow> nat \<Rightarrow> nat \<Rightarrow> (int \<times> int \<times> nat) option"
  net_started_us :: nat

record rtsp_world = rtp_net +
  auth_slots :: "auth_slot list"
  talk_log :: "(u64 \<times> u32 \<times> byte list) list"
  talk_released :: "u64 list"

section \<open>Hashes and comparison\<close>

definition hex_digit16 :: "nat \<Rightarrow> char" where
  "hex_digit16 n = ''0123456789abcdef'' ! n"

definition hex_of :: "byte list \<Rightarrow> string" where
  "hex_of bs = concat (map (\<lambda>b. [hex_digit16 (unat (drop_bit 4 b)), hex_digit16 (unat (b AND 15))]) bs)"

definition jipc_md5 :: "'e rtsp_env_scheme \<Rightarrow> string \<Rightarrow> string" where
  "jipc_md5 env s = hex_of (case net_md5 env (bytes_of s) of None \<Rightarrow> replicate 16 0 | Some d \<Rightarrow> d)"

text \<open>The comparison that always looks at the whole of the longer text.\<close>

definition char_at :: "string \<Rightarrow> nat \<Rightarrow> u32" where
  "char_at s i = (if i < length s then of_nat (c_code (s ! i)) else 0)"

definition jipc_equal :: "string \<Rightarrow> string \<Rightarrow> bool" where
  "jipc_equal a b =
     (foldl (\<lambda>d i. d OR (char_at a i XOR char_at b i)) (of_nat (length a) XOR of_nat (length b)) [0..<max (length a) (length b)] = 0)"

definition random_hex :: "'e rtsp_env_scheme \<Rightarrow> nat \<Rightarrow> 'w rtp_net_scheme \<Rightarrow> string option \<times> 'w rtp_net_scheme" where
  "random_hex env n w =
     (if 32 < n then (None, w) else (map_option hex_of (net_random env (n_tick w) n), n_next w))"

section \<open>Responses\<close>

definition response_text :: "nat \<Rightarrow> nat \<Rightarrow> string \<Rightarrow> string \<Rightarrow> string \<Rightarrow> string" where
  "response_text cseq code reason extra body =
     ''RTSP/1.0 '' @ c_dec code @ '' '' @ reason @ CRLF @ ''CSeq: '' @ c_dec cseq @ CRLF @
     ''Server: jooanipc-open/0.1.0'' @ CRLF @ extra @ ''Content-Length: '' @ c_dec (length body) @ CRLF @ CRLF"

definition response ::
  "'e rtsp_env_scheme \<Rightarrow> nat \<Rightarrow> nat \<Rightarrow> string \<Rightarrow> string \<Rightarrow> string \<Rightarrow> 'w rtp_net_scheme \<Rightarrow> bool \<times> 'w rtp_net_scheme" where
  "response env cseq code reason extra body w =
     (let header = response_text cseq code reason extra body
      in if 8192 \<le> length header then (False, w)
         else case send_all env (bytes_of header) w of
           (False, w) \<Rightarrow> (False, w)
         | (True, w) \<Rightarrow> if body = [] then (True, w) else send_all env (bytes_of body) w)"

section \<open>Signing in\<close>

text \<open>Sixteen hexadecimal digits, of \<open>strtoul\<close> and \<open>isxdigit\<close>.\<close>

definition xdigit_value :: "char \<Rightarrow> nat option" where
  "xdigit_value c =
     (let n = c_code c
      in if 48 \<le> n \<and> n \<le> 57 then Some (n - 48)
         else if 97 \<le> n \<and> n \<le> 102 then Some (n - 87)
         else if 65 \<le> n \<and> n \<le> 70 then Some (n - 55) else None)"

definition all_xdigits :: "string \<Rightarrow> bool" where
  "all_xdigits s = list_all (\<lambda>c. xdigit_value c \<noteq> None) s"

definition hex_number :: "string \<Rightarrow> nat" where
  "hex_number s = foldl (\<lambda>n c. 16 * n + the (xdigit_value c)) 0 s"

record digest_answer =
  d_username :: string
  d_realm :: string
  d_nonce :: string
  d_uri :: string
  d_response :: string
  d_qop :: string
  d_nc :: string
  d_cnonce :: string
  d_algorithm :: string

text \<open>The fields with their capacities: the first five have to be there.\<close>

definition digest_answer_of :: "string \<Rightarrow> digest_answer option" where
  "digest_answer_of auth =
     (let get = (\<lambda>name capacity. digest_field auth name capacity)
      in case (get ''username'' 129, get ''realm'' 129, get ''nonce'' 129, get ''uri'' 2048, get ''response'' 129,
               get ''qop'' 32, get ''nc'' 32, get ''cnonce'' 256, get ''algorithm'' 64) of
           (Some (True, u), Some (True, r), Some (True, n), Some (True, i), Some (True, a),
            Some (_, q), Some (_, c), Some (_, cn), Some (_, al)) \<Rightarrow>
             Some \<lparr> d_username = u, d_realm = r, d_nonce = n, d_uri = i, d_response = a, d_qop = q,
                    d_nc = c, d_cnonce = cn, d_algorithm = al \<rparr>
         | _ \<Rightarrow> None)"

definition NONCE_LIFE_US :: u64 where "NONCE_LIFE_US = 300000000"

text \<open>The digest that the answer has to be, and the count it brings (0 without one).\<close>

definition ha1 :: "'e rtsp_env_scheme \<Rightarrow> rtsp_config \<Rightarrow> string" where
  "ha1 env cfg = jipc_md5 env (take 4095 (cfg_username cfg @ '':'' @ cfg_realm cfg @ '':'' @ cfg_password cfg))"

definition ha2 :: "'e rtsp_env_scheme \<Rightarrow> rtsp_request \<Rightarrow> string" where
  "ha2 env rq = jipc_md5 env (take 4095 (rq_method rq @ '':'' @ rq_uri rq))"

definition expected_answer ::
  "'e rtsp_env_scheme \<Rightarrow> rtsp_config \<Rightarrow> rtsp_request \<Rightarrow> digest_answer \<Rightarrow> nat \<Rightarrow> (string \<times> nat) option" where
  "expected_answer env cfg rq d seen =
     (if d_qop d \<noteq> [] then
        (if d_qop d \<noteq> ''auth'' \<or> d_cnonce d = [] \<or> length (d_nc d) \<noteq> 8 \<or> \<not> all_xdigits (d_nc d) then None
         else
           let count = hex_number (d_nc d)
           in if count = 0 \<or> count \<le> seen then None
              else Some (jipc_md5 env (take 4095 (ha1 env cfg @ '':'' @ d_nonce d @ '':'' @ d_nc d @ '':'' @ d_cnonce d @
                '':auth:'' @ ha2 env rq)), count))
      else if d_nc d \<noteq> [] \<or> d_cnonce d \<noteq> [] then None
      else Some (jipc_md5 env (take 4095 (ha1 env cfg @ '':'' @ d_nonce d @ '':'' @ ha2 env rq)), 0))"

definition authenticated ::
  "'e rtsp_env_scheme \<Rightarrow> rtsp_request \<Rightarrow> rtsp_config \<Rightarrow> rtsp_client \<Rightarrow> 'w rtp_net_scheme
     \<Rightarrow> bool \<times> rtsp_client \<times> 'w rtp_net_scheme" where
  "authenticated env rq cfg c w =
     (if cfg_username cfg = [] then (True, c, w)
      else if lower (take 7 (rq_authorization rq)) \<noteq> ''digest '' then (False, c, w)
      else case digest_answer_of (drop 7 (rq_authorization rq)) of
        None \<Rightarrow> (False, c, w)
      | Some d \<Rightarrow>
          if d_username d \<noteq> cfg_username cfg \<or> d_realm d \<noteq> cfg_realm cfg \<or> \<not> jipc_equal (d_nonce d) (nonce c) \<or>
             d_uri d \<noteq> rq_uri rq \<or> length (d_response d) \<noteq> 32 \<or>
             (d_algorithm d \<noteq> [] \<and> lower (d_algorithm d) \<noteq> ''md5'')
          then (False, c, w)
          else if NONCE_LIFE_US < net_now env (n_tick w) - nonce_us c then (False, c, n_next w)
          else if \<not> all_xdigits (d_response d) then (False, c, n_next w)
          else case expected_answer env cfg rq d (nonce_count c) of
            None \<Rightarrow> (False, c, n_next w)
          | Some (answer, count) \<Rightarrow>
              if \<not> jipc_equal (lower (d_response d)) answer then (False, c, n_next w)
              else (True, if count \<noteq> 0 then c\<lparr>nonce_count := count\<rparr> else c, n_next w))"

definition challenge_header :: "rtsp_config \<Rightarrow> string \<Rightarrow> string" where
  "challenge_header cfg n =
     take 511 (''WWW-Authenticate: Digest realm='' @ [CHR 0x22] @ cfg_realm cfg @ [CHR 0x22] @ '', nonce='' @
       [CHR 0x22] @ n @ [CHR 0x22] @ '', algorithm=MD5, qop='' @ [CHR 0x22] @ ''auth'' @ [CHR 0x22] @ CRLF)"

definition challenge ::
  "'e rtsp_env_scheme \<Rightarrow> nat \<Rightarrow> rtsp_config \<Rightarrow> rtsp_client \<Rightarrow> 'w rtp_net_scheme \<Rightarrow> bool \<times> rtsp_client \<times> 'w rtp_net_scheme" where
  "challenge env cseq cfg c w =
     (let old = (NONCE_LIFE_US < net_now env (n_tick w) - nonce_us c); w = n_next w
      in case (if \<not> old then (Some c, w)
               else case random_hex env 16 w of
                 (None, w) \<Rightarrow> (None, w)
               | (Some n, w) \<Rightarrow> (Some (c\<lparr>nonce := n, nonce_us := net_now env (n_tick w), nonce_count := 0\<rparr>), n_next w)) of
           (None, w) \<Rightarrow> (False, c, w)
         | (Some c, w) \<Rightarrow>
             (case response env cseq 401 ''Unauthorized'' (challenge_header cfg (nonce c)) [] w of
                (ok, w) \<Rightarrow> (ok, c, w)))"

text \<open>\<open>jipc_auth_blocked\<close> and \<open>jipc_auth_result\<close> of the connection's peer.\<close>

definition jipc_auth_blocked :: "'e rtsp_env_scheme \<Rightarrow> 'w rtsp_world_scheme \<Rightarrow> bool \<times> 'w rtsp_world_scheme" where
  "jipc_auth_blocked env w =
     (case net_peer env of None \<Rightarrow> (False, w)
      | Some p \<Rightarrow>
          (case jipc_auth_blocked_at p (net_now env (n_tick w)) (auth_slots w) of
             (b, ss) \<Rightarrow> (b, (n_next w)\<lparr>auth_slots := ss\<rparr>)))"

definition jipc_auth_result :: "'e rtsp_env_scheme \<Rightarrow> bool \<Rightarrow> 'w rtsp_world_scheme \<Rightarrow> 'w rtsp_world_scheme" where
  "jipc_auth_result env ok w =
     (case net_peer env of None \<Rightarrow> w
      | Some p \<Rightarrow> (n_next w)\<lparr>auth_slots := jipc_auth_result_at p (net_now env (n_tick w)) ok (auth_slots w)\<rparr>)"

section \<open>Describing a stream\<close>

fun describe_params ::
  "'e rtsp_env_scheme \<Rightarrow> nat \<Rightarrow> nat \<Rightarrow> 'w rtp_net_scheme \<Rightarrow> (byte list \<times> byte list) option \<times> 'w rtp_net_scheme" where
  "describe_params env ch 0 w = (None, w)"
| "describe_params env ch (Suc n) w =
     (if net_stopped env (n_tick w) then (None, n_next w)
      else case net_params env (Suc (n_tick w)) ch of
        Some (sps, pps) \<Rightarrow>
          if 4 \<le> length sps \<and> pps \<noteq> [] then (Some (sps, pps), n_next (n_next w))
          else describe_params env ch n (n_next (n_next w))
      | None \<Rightarrow> describe_params env ch n (n_next (n_next w)))"

definition sdp_text :: "'e rtsp_env_scheme \<Rightarrow> nat \<Rightarrow> byte list \<Rightarrow> string \<Rightarrow> string \<Rightarrow> bool \<Rightarrow> bool \<Rightarrow> string" where
  "sdp_text env ch sps sps64 pps64 audio back =
     ''v=0'' @ CRLF @ ''o=- '' @ c_dec (net_started_us env) @ '' 1 IN IP4 0.0.0.0'' @ CRLF @
     ''s=jooanipc-open stream '' @ c_dec ch @ CRLF @ ''c=IN IP4 0.0.0.0'' @ CRLF @ ''t=0 0'' @ CRLF @
     ''a=control:*'' @ CRLF @ ''a=range:npt=0-'' @ CRLF @ ''m=video 0 RTP/AVP 96'' @ CRLF @
     ''a=rtpmap:96 H264/90000'' @ CRLF @ ''a=fmtp:96 packetization-mode=1;profile-level-id='' @
     hex_of (take 3 (drop 1 sps)) @ '';sprop-parameter-sets='' @ sps64 @ '','' @ pps64 @ CRLF @
     ''a=control:trackID=0'' @ CRLF @
     (if audio then ''m=audio 0 RTP/AVP 8'' @ CRLF @ ''a=rtpmap:8 PCMA/8000/1'' @ CRLF @ ''a=control:trackID=1'' @ CRLF
      else []) @
     (if back then ''m=audio 0 RTP/AVP 8'' @ CRLF @ ''a=rtpmap:8 PCMA/8000/1'' @ CRLF @ ''a=sendonly'' @ CRLF @
        ''a=control:trackID=2'' @ CRLF else [])"

definition describe ::
  "'e rtsp_env_scheme \<Rightarrow> rtsp_request \<Rightarrow> nat \<Rightarrow> string \<Rightarrow> rtsp_config \<Rightarrow> bool \<Rightarrow> 'w rtp_net_scheme \<Rightarrow> bool \<times> 'w rtp_net_scheme" where
  "describe env rq ch base cfg back w =
     (case describe_params env ch 20 w of
        (None, w) \<Rightarrow> response env (rq_cseq rq) 503 ''Service Unavailable'' (''Retry-After: 1'' @ CRLF) [] w
      | (Some (sps, pps), w) \<Rightarrow>
          (case (net_base64 env sps 700, net_base64 env pps 700) of
             (Some sps64, Some pps64) \<Rightarrow>
               let sdp = sdp_text env ch sps sps64 pps64 (cfg_audio cfg) back
               in if 4096 \<le> length sdp then (False, w)
                  else response env (rq_cseq rq) 200 ''OK''
                    (take 2299 (''Content-Type: application/sdp'' @ CRLF @ ''Content-Base: '' @ base @ CRLF)) sdp w
           | _ \<Rightarrow> (False, w)))"

section \<open>Setting up a track\<close>

definition session_matches :: "rtsp_client \<Rightarrow> string \<Rightarrow> bool" where
  "session_matches c s = (takeWhile (\<lambda>ch. ch \<noteq> CHR '';'' \<and> \<not> is_blank ch) s = session_id c)"

definition closed_track :: rtsp_track where
  "closed_track = \<lparr> is_setup = False, tcp = False, rtp_fd = -1, rtcp_fd = -1, rtp_channel = 0, rtcp_channel = 0,
     client_rtp = 0, client_rtcp = 0, server_rtp = 0, server_rtcp = 0, t_sequence = 0, ssrc = 0,
     timestamp_base = 0, packets = 0, octets = 0, last_report_us = 0 \<rparr>"

text \<open>The options of a transport after its first: the pair, whether it came, and errors.\<close>

fun transport_options :: "string list \<Rightarrow> rtsp_track \<times> bool \<times> bool \<Rightarrow> rtsp_track \<times> bool \<times> bool" where
  "transport_options [] st = st"
| "transport_options (token # ts) (t, have_pair, invalid) =
     (let o1 = lower (c_trim token)
      in if o1 = ''unicast'' \<or> o1 = ''mode='' @ [CHR 0x22] @ ''play'' @ [CHR 0x22] \<or> o1 = ''mode=play''
         then transport_options ts (t, have_pair, invalid)
         else if tcp t \<and> starts_with ''interleaved='' o1 then
           (case (if have_pair then None else port_pair (drop 12 (c_trim token)) 255) of
              None \<Rightarrow> transport_options ts (t, True, True)
            | Some (a, b) \<Rightarrow> transport_options ts (t\<lparr>rtp_channel := a, rtcp_channel := b\<rparr>, True, invalid))
         else if \<not> tcp t \<and> starts_with ''client_port='' o1 then
           (case (if have_pair then None else port_pair (drop 12 (c_trim token)) 65535) of
              None \<Rightarrow> transport_options ts (t, True, True)
            | Some (a, b) \<Rightarrow> transport_options ts (t\<lparr>client_rtp := a, client_rtcp := b\<rparr>, True, invalid \<or> a = 0 \<or> b = 0))
         else transport_options ts (t, have_pair, True))"

text \<open>What \<open>Transport\<close> proposes for a track, or nothing if it cannot be served.\<close>

definition proposed_track :: "string \<Rightarrow> nat \<Rightarrow> rtsp_track list \<Rightarrow> rtsp_track option" where
  "proposed_track transport i ts =
     (case c_tokens (\<lambda>c. c = CHR '';'') transport of
        [] \<Rightarrow> None
      | first # options \<Rightarrow>
          let kind = lower (c_trim first); is_tcp = (kind = ''rtp/avp/tcp'')
          in if CHR '','' \<in> set transport \<or> (\<not> is_tcp \<and> kind \<noteq> ''rtp/avp'' \<and> kind \<noteq> ''rtp/avp/udp'') \<or>
                (i = 2 \<and> \<not> is_tcp) then None
             else
               let (t, have_pair, invalid) = transport_options options (closed_track\<lparr>tcp := is_tcp\<rparr>, False, False);
                   t = (if is_tcp \<and> \<not> have_pair then t\<lparr>rtp_channel := 2 * i, rtcp_channel := 2 * i + 1\<rparr> else t);
                   clash = list_ex (\<lambda>j. j \<noteq> i \<and> is_tcp \<and> is_setup (ts ! j) \<and> tcp (ts ! j) \<and>
                     (rtp_channel t = rtp_channel (ts ! j) \<or> rtp_channel t = rtcp_channel (ts ! j) \<or>
                      rtcp_channel t = rtp_channel (ts ! j) \<or> rtcp_channel t = rtcp_channel (ts ! j))) [0..<3]
               in if invalid \<or> clash \<or> (\<not> is_tcp \<and> \<not> have_pair) then None else Some t)"

definition hex_upper8 :: "u32 \<Rightarrow> string" where
  "hex_upper8 v =
     map (\<lambda>i. ''0123456789ABCDEF'' ! unat (drop_bit (4 * i) v AND 15)) [7, 6, 5, 4, 3, 2, 1, 0]"

definition transport_text :: "rtsp_client \<Rightarrow> nat \<Rightarrow> rtsp_track \<Rightarrow> string" where
  "transport_text c i t =
     take 1023 (''Session: '' @ session_id c @ '';timeout=60'' @ CRLF @ ''Transport: '' @
       (if i = 2 then ''RTP/AVP/TCP;unicast;interleaved='' @ c_dec (rtp_channel t) @ ''-'' @ c_dec (rtcp_channel t)
        else if tcp t then
          ''RTP/AVP/TCP;unicast;interleaved='' @ c_dec (rtp_channel t) @ ''-'' @ c_dec (rtcp_channel t) @
          '';ssrc='' @ hex_upper8 (ssrc t)
        else ''RTP/AVP;unicast;client_port='' @ c_dec (client_rtp t) @ ''-'' @ c_dec (client_rtcp t) @
          '';server_port='' @ c_dec (server_rtp t) @ ''-'' @ c_dec (server_rtcp t) @ '';ssrc='' @ hex_upper8 (ssrc t)) @ CRLF)"

definition rtsp_setup ::
  "'e rtsp_env_scheme \<Rightarrow> rtsp_request \<Rightarrow> int \<Rightarrow> nat option \<Rightarrow> string \<Rightarrow> rtsp_config \<Rightarrow> rtsp_client \<Rightarrow> 'w rtp_net_scheme
     \<Rightarrow> bool \<times> rtsp_client \<times> 'w rtp_net_scheme" where
  "rtsp_setup env rq ch track base cfg c w =
     (let i = (case track of None \<Rightarrow> 0 | Some i \<Rightarrow> i);
          say = (\<lambda>code reason w. case response env (rq_cseq rq) code reason [] [] w of (ok, w) \<Rightarrow> (ok, c, w))
      in if (i = 1 \<and> \<not> cfg_audio cfg) \<or> (i = 2 \<and> (\<not> cfg_audio cfg \<or> \<not> backchannel c \<or> \<not> net_speaker env (n_tick w)))
         then say 404 ''Not Found'' w
         else if playing c then say 455 ''Method Not Valid in This State'' w
         else if (rq_session rq \<noteq> [] \<and> \<not> session_matches c (rq_session rq)) \<or> (0 \<le> channel c \<and> channel c \<noteq> ch)
         then say 454 ''Session Not Found'' w
         else case proposed_track (rq_transport rq) i (tracks c) of
           None \<Rightarrow> say 461 ''Unsupported Transport'' w
         | Some t \<Rightarrow>
             (case (if tcp t then Some t
                    else map_option (\<lambda>(a, b, p). t\<lparr>rtp_fd := a, rtcp_fd := b, server_rtp := p, server_rtcp := p + 1\<rparr>)
                      (net_udp_pair env (n_tick w) (client_rtp t) (client_rtcp t))) of
                None \<Rightarrow> say 500 ''Internal Server Error'' (n_next w)
              | Some t \<Rightarrow>
                  (case net_seed env (n_tick w) of
                     None \<Rightarrow> (False, c, n_next w)
                   | Some (s0, s1, s2) \<Rightarrow>
                       let (tbase, tssrc) = net_timeline env (if i = 1 then 4 else nat ch);
                           t = t\<lparr>t_sequence := ucast s0,
                                 ssrc := (if i = 2 then (if s1 \<noteq> 0 then s1 else 1) else tssrc),
                                 timestamp_base := (if i = 2 then s2 else tbase), is_setup := True\<rparr>;
                           c = c\<lparr>tracks := (tracks c)[i := t], channel := ch, base_uri := take 2047 base\<rparr>
                       in case response env (rq_cseq rq) 200 ''OK'' (transport_text c i t) [] (n_next w) of
                            (ok, w) \<Rightarrow> (ok, c, w))))"

section \<open>Handling a request\<close>

definition PUBLIC_METHODS :: string where
  "PUBLIC_METHODS = ''Public: OPTIONS, DESCRIBE, SETUP, PLAY, PAUSE, TEARDOWN, GET_PARAMETER'' @ CRLF"

definition rtp_info :: "rtsp_client \<Rightarrow> string" where
  "rtp_info c =
     (let urls = map (\<lambda>i. ''url='' @ base_uri c @ ''trackID='' @ c_dec i @ '';seq='' @ c_dec (unat (t_sequence (tracks c ! i))))
            (filter (\<lambda>i. is_setup (tracks c ! i)) [0, 1])
      in case urls of [] \<Rightarrow> [] | [a] \<Rightarrow> ''RTP-Info: '' @ a @ CRLF | a # b # _ \<Rightarrow> ''RTP-Info: '' @ a @ '','' @ b @ CRLF)"

definition rtsp_play ::
  "'e rtsp_env_scheme \<Rightarrow> rtsp_request \<Rightarrow> string \<Rightarrow> rtsp_client \<Rightarrow> 'w rtp_net_scheme \<Rightarrow> int \<times> rtsp_client \<times> 'w rtp_net_scheme" where
  "rtsp_play env rq extra c w =
     (if rq_range rq \<noteq> [] \<and> rq_range rq \<noteq> ''npt=now-'' \<and> rq_range rq \<noteq> ''npt=0-'' \<and> rq_range rq \<noteq> ''npt=0.000-'' then
        (case response env (rq_cseq rq) 457 ''Invalid Range'' [] [] w of (ok, w) \<Rightarrow> (if ok then 0 else -1, c, w))
      else if \<not> list_ex (\<lambda>i. is_setup (tracks c ! i)) [0..<3] then
        (case response env (rq_cseq rq) 455 ''Method Not Valid in This State'' [] [] w of (ok, w) \<Rightarrow> (if ok then 0 else -1, c, w))
      else
        let extra = extra @ ''Range: npt=now-'' @ CRLF @ rtp_info c
        in if 4600 \<le> length extra then (-1, c, w)
           else
             let (c, w) = (if playing c then (c, w)
                   else (c\<lparr>need_keyframe := True\<rparr>, if is_setup (tracks c ! 0) then request_idr c w else w));
                 c = c\<lparr>playing := True\<rparr>
             in case response env (rq_cseq rq) 200 ''OK'' extra [] w of (ok, w) \<Rightarrow> (if ok then 0 else -1, c, w))"

text \<open>The result is 0 to go on, else the connection is over.\<close>

definition session_request ::
  "'e rtsp_env_scheme \<Rightarrow> rtsp_request \<Rightarrow> rtsp_config \<Rightarrow> bool \<Rightarrow> rtsp_client \<Rightarrow> 'w rtsp_world_scheme
     \<Rightarrow> int \<times> rtsp_client \<times> 'w rtsp_world_scheme" where
  "session_request env rq cfg back c w =
     (let say = (\<lambda>code reason extra c w. case response env (rq_cseq rq) code reason extra [] w of
            (ok, w) \<Rightarrow> (if ok then 0 else -1, c, w))
      in case uri_channel (rq_uri rq) 2048 of
           None \<Rightarrow> say 404 ''Not Found'' [] c w
         | Some (ch, track, base) \<Rightarrow>
             if int (2 * cfg_sensors cfg) \<le> ch then say 404 ''Not Found'' [] c w
             else if rq_method rq = ''DESCRIBE'' then
               (case describe env rq (nat ch) base cfg back w of (ok, w) \<Rightarrow> (if ok then 0 else -1, c, w))
             else if rq_method rq = ''SETUP'' then
               (case rtsp_setup env rq ch track base cfg c w of (ok, c, w) \<Rightarrow> (if ok then 0 else -1, c, w))
             else if rq_method rq = ''GET_PARAMETER'' \<and> channel c < 0 then say 200 ''OK'' [] c w
             else if channel c < 0 \<or> ch \<noteq> channel c \<or> \<not> session_matches c (rq_session rq)
             then say 454 ''Session Not Found'' [] c w
             else
               let extra = ''Session: '' @ session_id c @ CRLF
               in if rq_method rq = ''PLAY'' then rtsp_play env rq extra c w
                  else if rq_method rq = ''PAUSE'' then say 200 ''OK'' extra (c\<lparr>playing := False\<rparr>) w
                  else if rq_method rq = ''GET_PARAMETER'' then say 200 ''OK'' extra c w
                  else if rq_method rq = ''TEARDOWN'' then
                    (case response env (rq_cseq rq) 200 ''OK'' extra [] w of
                       (ok, w) \<Rightarrow>
                         (case rtcp_report env 0 True c w of (_, c, w) \<Rightarrow>
                         (case rtcp_report env 1 True c w of (_, c, w) \<Rightarrow>
                            (if ok then 1 else -1, c\<lparr>playing := False\<rparr>,
                             w\<lparr>talk_released := talk_released w @ [client_id c]\<rparr>))))
                  else say 405 ''Method Not Allowed'' PUBLIC_METHODS c w)"

definition handle ::
  "'e rtsp_env_scheme \<Rightarrow> rtsp_request \<Rightarrow> rtsp_client \<Rightarrow> 'w rtsp_world_scheme \<Rightarrow> int \<times> rtsp_client \<times> 'w rtsp_world_scheme" where
  "handle env rq c w =
     (let cfg = net_config env (n_tick w); can = cfg_audio cfg \<and> net_speaker env (n_tick w); w = n_next w;
          say = (\<lambda>code reason extra c w. case response env (rq_cseq rq) code reason extra [] w of
            (ok, w) \<Rightarrow> (if ok then 0 else -1, c, w));
          (back, unsupported) = (if rq_require rq = [] then (False, []) else require_tags (rq_require rq) can 256)
      in if unsupported \<noteq> [] then say 551 ''Option not supported'' (take 319 (''Unsupported: '' @ unsupported @ CRLF)) c w
         else if rq_method rq = ''OPTIONS'' then say 200 ''OK'' PUBLIC_METHODS c w
         else
           let (blocked, w) = (if cfg_username cfg = [] then (False, w) else jipc_auth_blocked env w)
           in if blocked then say 503 ''Service Unavailable'' (''Retry-After: 60'' @ CRLF) c w
              else
                let (ok, c, w) = authenticated env rq cfg c w;
                    w = (if cfg_username cfg \<noteq> [] \<and> rq_authorization rq \<noteq> [] then jipc_auth_result env ok w else w)
                in if \<not> ok then (case challenge env (rq_cseq rq) cfg c w of (ok, c, w) \<Rightarrow> (if ok then 0 else -1, c, w))
                   else session_request env rq cfg back (if back then c\<lparr>backchannel := True\<rparr> else c) w)"

section \<open>What arrives on the connection\<close>

definition RTSP_BUFFER_SIZE :: nat where "RTSP_BUFFER_SIZE = 32768"

definition backchannel_rtp :: "rtsp_client \<Rightarrow> byte list \<Rightarrow> 'w rtsp_world_scheme \<Rightarrow> 'w rtsp_world_scheme" where
  "backchannel_rtp c p w =
     (let size = length p
      in if size < 12 \<or> drop_bit 6 (p ! 0) \<noteq> 2 \<or> p ! 1 AND 0x7f \<noteq> 8 then w
         else
           let header = 12 + 4 * unat (p ! 0 AND 15); ext = (p ! 0 AND 0x10 \<noteq> 0)
           in if ext \<and> size < header + 4 then w
              else
                let header = (if ext then header + 4 + 4 * unat (read_be16 p (header + 2)) else header);
                    padded = (p ! 0 AND 0x20 \<noteq> 0); padding = unat (p ! (size - 1))
                in if padded \<and> (padding = 0 \<or> size < padding) then w
                   else
                     let stop = (if padded then size - padding else size)
                     in if stop \<le> header \<or> 2048 < stop - header then w
                        else w\<lparr>talk_log := talk_log w @ [(client_id c, read_be32 p 8, take (stop - header) (drop header p))]\<rparr>)"

text \<open>An interleaved packet: feedback keeps the session alive, talk goes to the speaker.\<close>

definition interleaved_packet ::
  "'e rtsp_env_scheme \<Rightarrow> nat \<Rightarrow> byte list \<Rightarrow> rtsp_client \<Rightarrow> 'w rtsp_world_scheme \<Rightarrow> rtsp_client \<times> 'w rtsp_world_scheme" where
  "interleaved_packet env ident p c w =
     (let feedback = list_ex (\<lambda>i. is_setup (tracks c ! i) \<and> tcp (tracks c ! i) \<and> ident = rtcp_channel (tracks c ! i) \<and>
            4 \<le> length p \<and> drop_bit 6 (p ! 0) = 2) [0..<3];
          (c, w) = (if feedback then (c\<lparr>last_activity_us := net_now env (n_tick w)\<rparr>, n_next w) else (c, w));
          talk = tracks c ! 2
      in if is_setup talk \<and> tcp talk \<and> playing c \<and> ident = rtp_channel talk
         then (c\<lparr>last_activity_us := net_now env (n_tick w)\<rparr>, backchannel_rtp c p (n_next w))
         else (c, w))"

fun header_end :: "byte list \<Rightarrow> nat option" where
  "header_end (a # b # c # d # r) =
     (if a = 13 \<and> b = 10 \<and> c = 13 \<and> d = 10 then Some 4 else map_option Suc (header_end (b # c # d # r)))"
| "header_end xs = None"

lemma header_end_range: "header_end xs = Some n \<Longrightarrow> 4 \<le> n \<and> n \<le> length xs"
  by (induction xs arbitrary: n rule: header_end.induct) (auto split: if_splits)

text \<open>
  The loop of \<open>process_input\<close>: whether the connection goes on, what is left of the input,
  the client and the world. The input is an argument; the client's copy is set at the end.
\<close>

function process_loop ::
  "'e rtsp_env_scheme \<Rightarrow> byte list \<Rightarrow> rtsp_client \<Rightarrow> 'w rtsp_world_scheme \<Rightarrow> bool \<times> byte list \<times> rtsp_client \<times> 'w rtsp_world_scheme" where
  "process_loop env inp c w =
     (if inp = [] then (True, inp, c, w)
      else if hd inp = 0x24 then
        (if length inp < 4 then (True, inp, c, w)
         else
           let len = unat (read_be16 inp 2)
           in if RTSP_BUFFER_SIZE < len + 4 then (False, inp, c, w)
              else if length inp < len + 4 then (True, inp, c, w)
              else case interleaved_packet env (unat (inp ! 1)) (take len (drop 4 inp)) c w of
                (c, w) \<Rightarrow> process_loop env (drop (len + 4) inp) c w)
      else case header_end inp of
        None \<Rightarrow>
          if RTSP_HEADER_MAX \<le> length inp
          then (False, inp, c, snd (response env 0 400 ''Bad Request'' [] [] w)) else (True, inp, c, w)
      | Some n \<Rightarrow>
          if RTSP_HEADER_MAX < n \<or> 0 \<in> set (take n inp) then (False, inp, c, w)
          else case parse_request (chars_of (take (n - 2) inp)) of
            None \<Rightarrow> (False, inp, c, snd (response env 0 400 ''Bad Request'' [] [] w))
          | Some rq \<Rightarrow>
              let consumed = n + rq_length rq
              in if RTSP_BUFFER_SIZE < consumed then (False, inp, c, w)
                 else if length inp < consumed then (True, inp, c, w)
                 else case handle env rq (c\<lparr>last_activity_us := net_now env (n_tick w)\<rparr>) (n_next w) of
                   (r, c, w) \<Rightarrow> if r \<noteq> 0 then (False, inp, c, w) else process_loop env (drop consumed inp) c w)"
  by pat_completeness auto
termination
  by (relation "measure (\<lambda>(env, inp, c, w). length inp)") (auto dest!: header_end_range)

declare process_loop.simps [simp del]

definition process_input ::
  "'e rtsp_env_scheme \<Rightarrow> rtsp_client \<Rightarrow> 'w rtsp_world_scheme \<Rightarrow> bool \<times> rtsp_client \<times> 'w rtsp_world_scheme" where
  "process_input env c w =
     (case process_loop env (input_buffer c) (c\<lparr>input_buffer := []\<rparr>) w of (ok, inp, c, w) \<Rightarrow> (ok, c\<lparr>input_buffer := inp\<rparr>, w))"

text \<open>One \<open>recv\<close> of \<open>client_main\<close>; nothing received is the end of the connection.\<close>

definition client_input ::
  "'e rtsp_env_scheme \<Rightarrow> byte list \<Rightarrow> rtsp_client \<Rightarrow> 'w rtsp_world_scheme \<Rightarrow> bool \<times> rtsp_client \<times> 'w rtsp_world_scheme" where
  "client_input env d c w =
     (if length (input_buffer c) = RTSP_BUFFER_SIZE \<or> d = [] then (False, c, w)
      else process_input env
        (c\<lparr>input_buffer := input_buffer c @ take (RTSP_BUFFER_SIZE - length (input_buffer c)) d\<rparr>) w)"

text \<open>Feedback on a datagram socket of a track.\<close>

definition udp_feedback ::
  "'e rtsp_env_scheme \<Rightarrow> byte list \<Rightarrow> rtsp_client \<Rightarrow> 'w rtsp_world_scheme \<Rightarrow> rtsp_client \<times> 'w rtsp_world_scheme" where
  "udp_feedback env d c w =
     (if 4 \<le> length d \<and> drop_bit 6 (d ! 0) = 2 \<and> 200 \<le> d ! 1 \<and> d ! 1 \<le> 204
      then (c\<lparr>last_activity_us := net_now env (n_tick w)\<rparr>, n_next w) else (c, w))"

definition RTSP_TIMEOUT_US :: u64 where "RTSP_TIMEOUT_US = 120000000"

text \<open>
  One round of \<open>client_main\<close>: the timeout, what \<open>poll\<close> reports (\<open>None\<close> is no data on the
  connection, the list is the feedback), and the frames.
\<close>

definition client_round ::
  "'e rtsp_env_scheme \<Rightarrow> byte list option \<Rightarrow> byte list list \<Rightarrow> rtsp_client \<Rightarrow> 'w rtsp_world_scheme
     \<Rightarrow> bool \<times> rtsp_client \<times> 'w rtsp_world_scheme" where
  "client_round env inp feedback c w =
     (if net_stopped env (n_tick w) \<or> RTSP_TIMEOUT_US < net_now env (n_tick w) - last_activity_us c then (False, c, n_next w)
      else case (case inp of None \<Rightarrow> (True, c, n_next w) | Some d \<Rightarrow> client_input env d c (n_next w)) of
        (False, c, w) \<Rightarrow> (False, c, w)
      | (True, c, w) \<Rightarrow>
          (case foldl (\<lambda>(c, w) d. udp_feedback env d c w) (c, w) (take 2 feedback) of
             (c, w) \<Rightarrow> stream_frames env c w))"

text \<open>The end of \<open>client_main\<close>: last reports, the speaker given back, the tracks closed.\<close>

definition client_end :: "'e rtsp_env_scheme \<Rightarrow> rtsp_client \<Rightarrow> 'w rtsp_world_scheme \<Rightarrow> rtsp_client \<times> 'w rtsp_world_scheme" where
  "client_end env c w =
     (let (c, w) = (if playing c \<and> \<not> net_stopped env (n_tick w)
            then (case rtcp_report env 0 True c (n_next w) of (_, c, w) \<Rightarrow>
                  (case rtcp_report env 1 True c w of (_, c, w) \<Rightarrow> (c, w))) else (c, n_next w))
      in (c\<lparr>tracks := map (\<lambda>t. t\<lparr>is_setup := False, rtp_fd := -1, rtcp_fd := -1\<rparr>) (tracks c)\<rparr>,
          w\<lparr>talk_released := talk_released w @ [client_id c]\<rparr>))"

text \<open>A client that has just been accepted, with its nonce and its session.\<close>

definition new_client :: "u64 \<Rightarrow> u64 \<Rightarrow> string \<Rightarrow> string \<Rightarrow> rtsp_client" where
  "new_client now ident n s =
     \<lparr> channel = -1, playing = False, need_keyframe = True, client_id = ident, backchannel = False,
       tracks = replicate 3 closed_track, input_buffer = [], nonce = n, session_id = s, base_uri = [],
       nonce_us = now, last_activity_us = now, cursor = [0, 0], pts_origin_us = 0, mono_origin_us = 0,
       clock_started = False, nonce_count = 0 \<rparr>"

end
