(* ===== verification/Rtsp_Safety.thy ===== *)
theory Rtsp_Safety
  imports Rtsp
begin

text \<open>
  What the RTSP server promises: nothing of a session changes without a Digest answer for
  the configured password, an answer is good once, and requests are framed the same
  however the network cuts them.
\<close>

section \<open>Comparison\<close>

lemma foldl_or_zero: "foldl (\<lambda>d i. d OR f i) a xs = (0 :: u32) \<longleftrightarrow> a = 0 \<and> (\<forall>i\<in>set xs. f i = 0)"
  by (induction xs arbitrary: a) (auto simp: or_eq_0_iff)

lemma xor_zero_iff: "(a :: u32) XOR b = 0 \<longleftrightarrow> a = b"
proof
  assume "a XOR b = 0"
  then have "(a XOR b) XOR b = 0 XOR b" by simp
  then show "a = b" by (simp add: xor.assoc)
qed simp

lemma of_nat_u32_inject: "m < 2 ^ 32 \<Longrightarrow> n < 2 ^ 32 \<Longrightarrow> (of_nat m :: u32) = of_nat n \<longleftrightarrow> m = n"
proof
  assume l: "m < 2 ^ 32" "n < 2 ^ 32" and e: "(of_nat m :: u32) = of_nat n"
  from arg_cong [where f = unat, OF e] l show "m = n"
    by (simp add: unsigned_of_nat take_bit_nat_eq_self)
qed simp

lemma jipc_equal_iff:
  assumes "length a < 2 ^ 32" "length b < 2 ^ 32"
  shows "jipc_equal a b \<longleftrightarrow> a = b"
proof
  assume "jipc_equal a b"
  then have l: "length a = length b" and c: "\<forall>i < length a. char_at a i = char_at b i"
    using assms by (auto simp: jipc_equal_def foldl_or_zero xor_zero_iff of_nat_u32_inject)
  have "a ! i = b ! i" if "i < length a" for i
  proof -
    have "(of_nat (c_code (a ! i)) :: u32) = of_nat (c_code (b ! i))"
      using c that l by (auto simp: char_at_def)
    then have "c_code (a ! i) = c_code (b ! i)"
      using c_code_less [of "a ! i"] c_code_less [of "b ! i"] by (subst (asm) of_nat_u32_inject) auto
    then show ?thesis by simp
  qed
  then show "a = b" using l by (simp add: list_eq_iff_nth_eq)
next
  assume "a = b"
  then show "jipc_equal a b" unfolding jipc_equal_def foldl_or_zero by simp
qed

section \<open>Signing in\<close>

text \<open>The answer of a request that is let in.\<close>

lemma authenticated_True:
  assumes "authenticated env rq cfg c w = (True, c', w')" "cfg_username cfg \<noteq> []"
  obtains d answer count where "digest_answer_of (drop 7 (rq_authorization rq)) = Some d"
    "d_username d = cfg_username cfg" "d_realm d = cfg_realm cfg" "jipc_equal (d_nonce d) (nonce c)"
    "d_uri d = rq_uri rq" "length (d_response d) = 32"
    "net_now env (n_tick w) - nonce_us c \<le> NONCE_LIFE_US"
    "expected_answer env cfg rq d (nonce_count c) = Some (answer, count)"
    "jipc_equal (lower (d_response d)) answer"
    "c' = (if count \<noteq> 0 then c\<lparr>nonce_count := count\<rparr> else c)"
  using assms by (auto simp: authenticated_def not_less split: if_splits option.splits prod.splits)

lemma authenticated_fields:
  "authenticated env rq cfg c w = (ok, c', w') \<Longrightarrow> c' = c\<lparr>nonce_count := nonce_count c'\<rparr> \<and>
     (\<not> ok \<longrightarrow> c' = c) \<and> nonce_count c \<le> nonce_count c' \<and> nonce c' = nonce c \<and> input_buffer c' = input_buffer c"
  by (auto simp: authenticated_def expected_answer_def Let_def split: if_splits option.splits prod.splits)

text \<open>What a client is to its viewer.\<close>

definition session :: "rtsp_client \<Rightarrow> int \<times> bool \<times> bool \<times> rtsp_track list \<times> bool" where
  "session c = (channel c, playing c, need_keyframe c, tracks c, backchannel c)"

definition drawn_nonce :: "'e rtsp_env_scheme \<Rightarrow> string \<Rightarrow> bool" where
  "drawn_nonce env n \<longleftrightarrow> (\<exists>t bs. net_random env t 16 = Some bs \<and> n = hex_of bs)"

lemma drawn_nonceI: "net_random env t 16 = Some bs \<Longrightarrow> drawn_nonce env (hex_of bs)"
  by (auto simp: drawn_nonce_def)

text \<open>What an operation may do to the nonce: nothing, count an answer, or draw a new one.\<close>

definition nonce_step :: "'e rtsp_env_scheme \<Rightarrow> rtsp_client \<Rightarrow> rtsp_client \<Rightarrow> bool" where
  "nonce_step env c c' \<longleftrightarrow> nonce c' = nonce c \<and> nonce_count c \<le> nonce_count c' \<or> drawn_nonce env (nonce c')"

lemma nonce_step_refl [simp]: "nonce c' = nonce c \<Longrightarrow> nonce_count c' = nonce_count c \<Longrightarrow> nonce_step env c c'"
  by (simp add: nonce_step_def)

lemma nonce_step_trans: "nonce_step env a b \<Longrightarrow> nonce_step env b c \<Longrightarrow> nonce_step env a c"
  by (auto simp: nonce_step_def)

lemma challenge_fields:
  "challenge env k cfg c w = (ok, c', w') \<Longrightarrow> session c' = session c \<and> nonce_step env c c' \<and> input_buffer c' = input_buffer c"
  unfolding challenge_def random_hex_def session_def Let_def
  by (auto simp: nonce_step_def intro: drawn_nonceI split: if_splits option.splits prod.splits)

lemma report_fields:
  "rtcp_report env i bye c w = (ok, c', w') \<Longrightarrow>
     nonce c' = nonce c \<and> nonce_count c' = nonce_count c \<and> input_buffer c' = input_buffer c"
  by (auto simp: rtcp_report_def Let_def split: if_splits option.splits prod.splits)

lemma setup_fields:
  "rtsp_setup env rq ch track base cfg c w = (ok, c', w') \<Longrightarrow>
     nonce c' = nonce c \<and> nonce_count c' = nonce_count c \<and> input_buffer c' = input_buffer c"
  by (auto simp: rtsp_setup_def Let_def split: if_splits option.splits prod.splits)

lemma play_fields:
  "rtsp_play env rq extra c w = (r, c', w') \<Longrightarrow>
     nonce c' = nonce c \<and> nonce_count c' = nonce_count c \<and> input_buffer c' = input_buffer c"
  by (auto simp: rtsp_play_def Let_def split: if_splits prod.splits)

lemma session_request_fields:
  "session_request env rq cfg back c w = (r, c', w') \<Longrightarrow>
     nonce c' = nonce c \<and> nonce_count c' = nonce_count c \<and> input_buffer c' = input_buffer c"
  by (auto simp: session_request_def Let_def split: if_splits option.splits prod.splits
      dest!: setup_fields play_fields report_fields)

text \<open>A request without a good answer is answered, and that is all.\<close>

lemma handle_cases:
  fixes w :: "'w rtsp_world_scheme"
  assumes "handle env rq c w = (r, c', w')"
  obtains (refused) "session c' = session c" "nonce_step env c c'" "input_buffer c' = input_buffer c"
  | (accepted) c1 w1 w2 where "authenticated env rq (net_config env (n_tick w)) c w1 = (True, c1, w2)"
      "cfg_username (net_config env (n_tick w)) = [] \<or> jipc_auth_blocked env (n_next w) = (False, w1)"
      "nonce c' = nonce c" "nonce_count c' = nonce_count c1" "input_buffer c' = input_buffer c"
proof -
  let ?cfg = "net_config env (n_tick w)"
  obtain bk unsup where u: "(if rq_require rq = [] then (False, [])
      else require_tags (rq_require rq) (cfg_audio ?cfg \<and> net_speaker env (n_tick w)) 256) = (bk, unsup)" by fastforce
  obtain blocked w1 where b: "(if cfg_username ?cfg = [] then (False, n_next w) else jipc_auth_blocked env (n_next w)) = (blocked, w1)"
    by fastforce
  obtain ok c1 w2 where a: "authenticated env rq ?cfg c w1 = (ok, c1, w2)" by (metis prod_cases3)
  note af = authenticated_fields [OF a]
  note e = assms [unfolded handle_def Let_def u b a prod.case]
  show ?thesis
  proof (cases "unsup \<noteq> [] \<or> rq_method rq = ''OPTIONS'' \<or> blocked")
    case True
    then have "c' = c" using e by (auto split: if_splits prod.splits)
    then show ?thesis using refused by simp
  next
    case nb: False
    show ?thesis
    proof (cases ok)
      case False
      then have "c1 = c" using af by simp
      obtain ok2 c2 w4 where ch: "challenge env (rq_cseq rq) ?cfg c
          (if cfg_username ?cfg \<noteq> [] \<and> rq_authorization rq \<noteq> [] then jipc_auth_result env ok w2 else w2) = (ok2, c2, w4)"
        by (metis prod_cases3)
      have "c' = c2" using e nb False ch \<open>c1 = c\<close> by simp
      then show ?thesis using challenge_fields [OF ch] refused by simp
    next
      case True
      let ?w3 = "if cfg_username ?cfg \<noteq> [] \<and> rq_authorization rq \<noteq> [] then jipc_auth_result env ok w2 else w2"
      have s: "session_request env rq ?cfg bk (if bk then c1\<lparr>backchannel := True\<rparr> else c1) ?w3 = (r, c', w')"
        using e nb True by simp
      from session_request_fields [OF this]
      have f: "nonce c' = nonce c1" "nonce_count c' = nonce_count c1" "input_buffer c' = input_buffer c1"
        by (auto split: if_splits)
      have n: "nonce c' = nonce c" "input_buffer c' = input_buffer c" using f af by simp_all
      have bl: "cfg_username ?cfg = [] \<or> jipc_auth_blocked env (n_next w) = (False, w1)"
        using b nb by (cases "cfg_username ?cfg = []") simp_all
      show ?thesis by (rule accepted [OF a [unfolded eqTrueI [OF True]] bl n(1) f(2) n(2)])
    qed
  qed
qed


text \<open>
  C17. A Digest answer with a count is good once: after a request was let in, the same
  request is refused for ever on that connection, whatever requests were handled in
  between, as long as the random source does not draw the nonce of the answer again.
\<close>

theorem digest_answer_is_good_once:
  fixes w :: "'w rtsp_world_scheme" and w0 :: "'b rtsp_world_scheme"
  assumes "authenticated env rq cfg c w = (True, c1, w1)" "cfg_username cfg \<noteq> []"
    and "digest_answer_of (drop 7 (rq_authorization rq)) = Some d" "d_qop d \<noteq> []"
    and "nonce_count c1 \<le> nonce_count c0" "nonce c0 = nonce c"
    and "\<forall>n. drawn_nonce env n \<longrightarrow> \<not> jipc_equal (d_nonce d) n"
  shows "fst (authenticated env rq cfg (fst (foldl (\<lambda>(c, w) q. snd (handle env q c w)) (c0, w0) rqs)) w2) = False"
proof -
  define c2 where "c2 = fst (foldl (\<lambda>(c, w) q. snd (handle env q c w)) (c0, w0) rqs)"
  have step: "nonce_step env u (fst (snd (handle env q u v)))" for q u and v :: "'b rtsp_world_scheme"
  proof -
    obtain r u' v' where h: "handle env q u v = (r, u', v')" by (metis prod_cases3)
    from h show ?thesis
    proof (cases rule: handle_cases)
      case (accepted u1 v1 v2)
      then show ?thesis using authenticated_fields [OF accepted(1)] by (simp add: h nonce_step_def)
    qed (simp add: h)
  qed
  have "nonce_step env c0 (fst (foldl (\<lambda>(c, w) q. snd (handle env q c w)) (c0, w0) rqs))" for w0 :: "'b rtsp_world_scheme"
  proof (induction rqs arbitrary: c0 w0)
    case (Cons q rqs)
    obtain r u v where h: "handle env q c0 w0 = (r, u, v)" by (metis prod_cases3)
    show ?case using step [of c0 q w0] Cons.IH [of u v] by (auto simp: h intro: nonce_step_trans)
  qed simp
  then have "nonce_step env c0 c2" by (simp add: c2_def)
  then have n: "nonce c2 = nonce c \<and> nonce_count c1 \<le> nonce_count c2 \<or> drawn_nonce env (nonce c2)"
    using assms(5,6) by (auto simp: nonce_step_def)
  obtain answer count where e: "expected_answer env cfg rq d (nonce_count c) = Some (answer, count)"
    "c1 = (if count \<noteq> 0 then c\<lparr>nonce_count := count\<rparr> else c)"
    using assms(1,2) by (rule authenticated_True) (use assms(3) in auto)
  have k: "count = hex_number (d_nc d)" "count \<noteq> 0" "nonce_count c1 = hex_number (d_nc d)"
    using e assms(4) by (auto simp: expected_answer_def Let_def split: if_splits)
  have "fst (authenticated env rq cfg c2 w2) = False"
  proof (cases "authenticated env rq cfg c2 w2")
    case (fields ok c3 w3)
    have "\<not> ok"
    proof
      assume "ok"
      then have t: "authenticated env rq cfg c2 w2 = (True, c3, w3)" using fields by simp
      from t assms(2) show False
      proof (rule authenticated_True)
        fix d' answer' count'
        assume d': "digest_answer_of (drop 7 (rq_authorization rq)) = Some d'" and j: "jipc_equal (d_nonce d') (nonce c2)"
          and x: "expected_answer env cfg rq d' (nonce_count c2) = Some (answer', count')"
        have "d' = d" using d' assms(3) by simp
        then show False
          using n j x assms(4,7) k by (auto simp: expected_answer_def Let_def split: if_splits)
      qed
    qed
    then show ?thesis using fields by simp
  qed
  then show ?thesis by (simp only: c2_def)
qed

section \<open>Framing\<close>

lemma handle_buffer: "handle env rq c w = (r, c', w') \<Longrightarrow> input_buffer c' = input_buffer c"
  by (erule handle_cases)

lemma packet_buffer: "interleaved_packet env i p c w = (c', w') \<Longrightarrow> input_buffer c' = input_buffer c"
  by (auto simp: interleaved_packet_def Let_def split: if_splits)

lemma header_end_append: "header_end a = Some n \<Longrightarrow> header_end (a @ b) = Some n"
  by (induction a arbitrary: n rule: header_end.induct) (auto split: if_splits)

lemma header_end_later: "header_end a = None \<Longrightarrow> header_end (a @ b) = Some n \<Longrightarrow> length a < n"
proof (induction a arbitrary: n rule: header_end.induct)
  case (1 w x y z r)
  then show ?case by (auto split: if_splits)
qed (auto dest: header_end_range)

text \<open>
  What the loop makes of some input it makes of that input with more after it, and then
  goes on with what was left.
\<close>

lemma process_loop_append:
  fixes w :: "'w rtsp_world_scheme"
  shows "process_loop env a c w = (ok, rest, c', w') \<Longrightarrow>
    (ok \<longrightarrow> process_loop env (a @ b) c w = process_loop env (rest @ b) c' w') \<and>
    (\<not> ok \<longrightarrow> \<not> fst (process_loop env (a @ b) c w)) \<and> input_buffer c' = input_buffer c \<and> length rest \<le> length a"
proof (induction env a c w arbitrary: ok rest c' w' rule: process_loop.induct)
  case (1 env a c w)
  note eq = process_loop.simps [of env a c w] and eqb = process_loop.simps [of env "a @ b" c w]
  show ?case
  proof (cases "a = []")
    case True
    then show ?thesis using "1.prems" by (simp add: process_loop.simps [of env "[]"])
  next
    case ne: False
    show ?thesis
    proof (cases "hd a = 0x24")
      case dollar: True
      let ?len = "unat (read_be16 a 2)"
      show ?thesis
      proof (cases "length a < 4")
        case True
        then show ?thesis using "1.prems" ne dollar by (simp add: eq)
      next
        case l4: False
        then have lb: "read_be16 (a @ b) 2 = read_be16 a 2" by (simp add: read_be16_def nth_append)
        show ?thesis
        proof (cases "RTSP_BUFFER_SIZE < ?len + 4")
          case True
          then have "\<not> fst (process_loop env (a @ b) c w)" using ne dollar l4 lb by (simp add: eqb)
          then show ?thesis using "1.prems" ne dollar l4 True by (simp add: eq)
        next
          case small: False
          show ?thesis
          proof (cases "length a < ?len + 4")
            case True
            then show ?thesis using "1.prems" ne dollar l4 small by (simp add: eq)
          next
            case False
            obtain c1 w1 where p: "interleaved_packet env (unat (a ! 1)) (take ?len (drop 4 a)) c w = (c1, w1)" by fastforce
            have r: "process_loop env (drop (?len + 4) a) c1 w1 = (ok, rest, c', w')"
              using "1.prems" ne dollar l4 small False p by (simp add: eq Let_def)
            have pb: "take ?len (drop 4 (a @ b)) = take ?len (drop 4 a)" "(a @ b) ! 1 = a ! 1"
              "drop (?len + 4) (a @ b) = drop (?len + 4) a @ b" using False l4 by (simp_all add: nth_append)
            have "process_loop env (a @ b) c w = process_loop env (drop (?len + 4) a @ b) c1 w1"
              using ne dollar l4 small False p pb lb by (simp add: eqb Let_def del: take_append drop_append)
            with "1.IH"(1) [OF ne dollar l4 refl small False p [symmetric] r] packet_buffer [OF p]
            show ?thesis by auto
          qed
        qed
      qed
    next
      case letter: False
      show ?thesis
      proof (cases "header_end a")
        case None
        show ?thesis
        proof (cases "RTSP_HEADER_MAX \<le> length a")
          case True
          have "\<not> fst (process_loop env (a @ b) c w)"
            using ne letter True header_end_later [OF None, of b]
            by (cases "header_end (a @ b)") (auto simp: eqb)
          then show ?thesis using "1.prems" ne letter None True by (simp add: eq)
        next
          case False
          then show ?thesis using "1.prems" ne letter None by (simp add: eq)
        qed
      next
        case (Some n)
        note he = Some and hb = header_end_append [OF Some, of b] and range = header_end_range [OF Some]
        have tb: "take n (a @ b) = take n a" "take (n - 2) (a @ b) = take (n - 2) a" using range by simp_all
        show ?thesis
        proof (cases "RTSP_HEADER_MAX < n \<or> 0 \<in> set (take n a)")
          case True
          then have nf: "\<not> fst (process_loop env (a @ b) c w)" using ne letter hb tb by (simp add: eqb del: take_append)
          show ?thesis using "1.prems" ne letter he True nf by (auto simp: eq)
        next
          case good: False
          show ?thesis
          proof (cases "parse_request (chars_of (take (n - 2) a))")
            case None
            then have nf: "\<not> fst (process_loop env (a @ b) c w)" using ne letter hb tb good by (simp add: eqb del: take_append)
            show ?thesis using "1.prems" ne letter he good None nf by (auto simp: eq)
          next
            case (Some rq)
            let ?k = "n + rq_length rq"
            show ?thesis
            proof (cases "RTSP_BUFFER_SIZE < ?k")
              case True
              then have nf: "\<not> fst (process_loop env (a @ b) c w)" using ne letter hb tb good Some
                by (simp add: eqb Let_def del: take_append)
              show ?thesis using "1.prems" ne letter he good Some True nf by (auto simp: eq Let_def)
            next
              case small: False
              show ?thesis
              proof (cases "length a < ?k")
                case True
                then show ?thesis using "1.prems" ne letter he good Some small by (simp add: eq Let_def)
              next
                case False
                obtain r c1 w1 where h: "handle env rq (c\<lparr>last_activity_us := net_now env (n_tick w)\<rparr>) (n_next w) = (r, c1, w1)"
                  by (metis prod_cases3)
                have db: "drop ?k (a @ b) = drop ?k a @ b" "\<not> length (a @ b) < ?k" using False by simp_all
                note hbuf = handle_buffer [OF h]
                show ?thesis
                proof (cases "r = 0")
                  case bad: False
                  then have nf: "\<not> fst (process_loop env (a @ b) c w)" using ne letter hb tb db good Some small h
                    by (simp add: eqb Let_def del: take_append drop_append)
                  show ?thesis using "1.prems" ne letter he good Some small False h hbuf bad nf
                    by (auto simp: eq Let_def)
                next
                  case True
                  have rr: "process_loop env (drop ?k a) c1 w1 = (ok, rest, c', w')"
                    using "1.prems" ne letter he good Some small False h True by (simp add: eq Let_def)
                  have bb: "process_loop env (a @ b) c w = process_loop env (drop ?k a @ b) c1 w1"
                    using ne letter he hb tb db good Some small False h True
                    by (simp add: eqb Let_def del: take_append drop_append)
                  have "\<not> r \<noteq> 0" using True by simp
                  from "1.IH"(2) [OF ne letter he good Some refl small False h [symmetric] refl this rr]
                  show ?thesis using bb hbuf by auto
                qed
              qed
            qed
          qed
        qed
      qed
    qed
  qed
qed

text \<open>The pieces as they come; the connection is over at the first one that ends it.\<close>

fun receive_all ::
  "'e rtsp_env_scheme \<Rightarrow> byte list list \<Rightarrow> rtsp_client \<Rightarrow> 'w rtsp_world_scheme \<Rightarrow> bool \<times> rtsp_client \<times> 'w rtsp_world_scheme" where
  "receive_all env [] c w = (True, c, w)"
| "receive_all env (d # ds) c w =
     (case client_input env d c w of
        (False, c, w) \<Rightarrow> (False, c, w)
      | (True, c, w) \<Rightarrow> receive_all env ds c w)"

lemma client_input_loop:
  assumes "length (input_buffer c) + length d \<le> RTSP_BUFFER_SIZE" "d \<noteq> []"
  shows "client_input env d c w =
    (case process_loop env (input_buffer c @ d) (c\<lparr>input_buffer := []\<rparr>) w of
       (ok, inp, c, w) \<Rightarrow> (ok, c\<lparr>input_buffer := inp\<rparr>, w))"
proof -
  have "length (input_buffer c) \<noteq> RTSP_BUFFER_SIZE" using assms by (cases d) auto
  then show ?thesis using assms by (simp add: client_input_def process_input_def)
qed

lemma receive_pieces:
  "ds \<noteq> [] \<Longrightarrow> [] \<notin> set ds \<Longrightarrow> length (input_buffer c) + length (concat ds) \<le> RTSP_BUFFER_SIZE \<Longrightarrow>
     fst (receive_all env ds c w) = fst (client_input env (concat ds) c w) \<and>
     (fst (receive_all env ds c w) \<longrightarrow> receive_all env ds c w = client_input env (concat ds) c w)"
proof (induction ds arbitrary: c w)
  case (Cons d ds)
  show ?case
  proof (cases "ds = []")
    case True
    then show ?thesis by (auto split: prod.splits bool.splits)
  next
    case False
    have d: "d \<noteq> []" "length (input_buffer c) + length d \<le> RTSP_BUFFER_SIZE" using Cons.prems by auto
    obtain ok rest c1 w1 where l: "process_loop env (input_buffer c @ d) (c\<lparr>input_buffer := []\<rparr>) w = (ok, rest, c1, w1)"
      by (metis prod_cases4)
    note app = process_loop_append [OF l, of "concat ds"]
    have b1: "input_buffer c1 = []" "length rest \<le> length (input_buffer c) + length d" using app by auto
    have r: "client_input env d c w = (ok, c1\<lparr>input_buffer := rest\<rparr>, w1)"
      by (simp add: client_input_loop [OF d(2,1)] l)
    have all: "client_input env (concat (d # ds)) c w =
        (case process_loop env ((input_buffer c @ d) @ concat ds) (c\<lparr>input_buffer := []\<rparr>) w of
           (ok, inp, c, w) \<Rightarrow> (ok, c\<lparr>input_buffer := inp\<rparr>, w))"
      using client_input_loop [of c "concat (d # ds)" env w] Cons.prems(3) d by simp
    show ?thesis
    proof (cases ok)
      case False
      have "\<not> fst (client_input env (concat (d # ds)) c w)"
        using app False unfolding all by (cases "process_loop env ((input_buffer c @ d) @ concat ds) (c\<lparr>input_buffer := []\<rparr>) w") auto
      then show ?thesis using r False by simp
    next
      case True
      have c1: "c1\<lparr>input_buffer := []\<rparr> = c1" using b1(1) by (cases c1) simp
      have lc: "length (input_buffer (c1\<lparr>input_buffer := rest\<rparr>)) + length (concat ds) \<le> RTSP_BUFFER_SIZE" "concat ds \<noteq> []"
        using Cons.prems b1(2) \<open>ds \<noteq> []\<close> by (auto, cases ds, auto)
      have e: "client_input env (concat (d # ds)) c w = client_input env (concat ds) (c1\<lparr>input_buffer := rest\<rparr>) w1"
        using app True unfolding all client_input_loop [OF lc] by (simp add: c1)
      have n: "[] \<notin> set ds" using Cons.prems(2) by simp
      have a: "receive_all env (d # ds) c w = receive_all env ds (c1\<lparr>input_buffer := rest\<rparr>) w1"
        by (simp add: r True)
      show ?thesis unfolding e a by (rule Cons.IH [OF False n lc(1)])
    qed
  qed
qed simp

text \<open>
  C18. Requests are framed the same however the network cuts them: receiving a text in any
  number of pieces, single bytes included, ends the connection exactly if receiving it at
  once does, and else leaves the same session, the same unread input and the same answers
  sent, as long as the pieces fit the buffer together.
\<close>

theorem framing_independent_of_pieces:
  assumes "ds \<noteq> []" "[] \<notin> set ds" "length (input_buffer c) + length (concat ds) \<le> RTSP_BUFFER_SIZE"
  shows "fst (receive_all env ds c w) = fst (client_input env (concat ds) c w) \<and>
    (fst (receive_all env ds c w) \<longrightarrow> receive_all env ds c w = client_input env (concat ds) c w)"
  by (rule receive_pieces [OF assms])

section \<open>Examples\<close>

definition sample_rtsp_env :: rtsp_env where
  "sample_rtsp_env = \<lparr> net_send = \<lambda>k n. Some n, net_udp = \<lambda>k fd n. Udp_sent n, net_stopped = \<lambda>k. False,
     net_now = \<lambda>k. of_nat k, net_wall = \<lambda>k. None, net_params = \<lambda>k c. Some ([0x67, 1, 2, 3], [0x68, 2]),
     net_read = \<lambda>k s c. (0, c, \<lparr> f_data = [], pts_us = 0, f_sequence = 0, keyframe = False, f_codec = H264 \<rparr>),
     net_config = \<lambda>k. \<lparr> cfg_username = ''a'', cfg_password = ''pw'', cfg_realm = ''r'', cfg_audio = True, cfg_sensors = 2 \<rparr>,
     net_random = \<lambda>k n. Some (replicate n 3), net_seed = \<lambda>k. Some (1, 2, 3), net_timeline = \<lambda>s. (5, 6),
     net_md5 = \<lambda>d. Some (replicate 16 0x11), net_base64 = \<lambda>d n. Some ''QUJD'', net_peer = Some ''10.0.0.7'',
     net_speaker = \<lambda>k. True, net_udp_pair = \<lambda>k a b. Some (7, 8, 9000), net_started_us = 1 \<rparr>"

definition sample_world :: rtsp_world where
  "sample_world = \<lparr> n_tick = 0, tcp_out = [], udp_out = [], idr_requests = [], auth_slots = replicate SLOTS no_slot,
     talk_log = [], talk_released = [] \<rparr>"

text \<open>A viewer that plays stream 0, and its request to pause.\<close>

definition sample_client :: rtsp_client where
  "sample_client = (new_client 0 1 ''n'' ''s'')\<lparr>channel := 0, playing := True\<rparr>"

definition sample_answer :: string where
  \<open>sample_answer = ''username="a",realm="r",nonce="n",uri="/stream0",response="11111111111111111111111111111111",qop=auth,nc=00000001,cnonce=x''\<close>

definition sample_request :: rtsp_request where
  "sample_request = no_request\<lparr>rq_method := ''PAUSE'', rq_uri := ''/stream0'', rq_cseq := 3, rq_session := ''s'',
     rq_authorization := ''Digest '' @ sample_answer\<rparr>"

lemmas item_defs = digest_item_def field_value_def key_char_def c_isalnum_def is_blank_def c_code_def

lemma sample_items:
  \<open>digest_item ''username="a",realm="r",nonce="n",uri="/stream0",response="11111111111111111111111111111111",qop=auth,nc=00000001,cnonce=x'' = Field ''username'' ''a'' '',realm="r",nonce="n",uri="/stream0",response="11111111111111111111111111111111",qop=auth,nc=00000001,cnonce=x''\<close>
  \<open>digest_item '',realm="r",nonce="n",uri="/stream0",response="11111111111111111111111111111111",qop=auth,nc=00000001,cnonce=x'' = Field ''realm'' ''r'' '',nonce="n",uri="/stream0",response="11111111111111111111111111111111",qop=auth,nc=00000001,cnonce=x''\<close>
  \<open>digest_item '',nonce="n",uri="/stream0",response="11111111111111111111111111111111",qop=auth,nc=00000001,cnonce=x'' = Field ''nonce'' ''n'' '',uri="/stream0",response="11111111111111111111111111111111",qop=auth,nc=00000001,cnonce=x''\<close>
  \<open>digest_item '',uri="/stream0",response="11111111111111111111111111111111",qop=auth,nc=00000001,cnonce=x'' = Field ''uri'' ''/stream0'' '',response="11111111111111111111111111111111",qop=auth,nc=00000001,cnonce=x''\<close>
  \<open>digest_item '',response="11111111111111111111111111111111",qop=auth,nc=00000001,cnonce=x'' = Field ''response'' ''11111111111111111111111111111111'' '',qop=auth,nc=00000001,cnonce=x''\<close>
  \<open>digest_item '',qop=auth,nc=00000001,cnonce=x'' = Field ''qop'' ''auth'' '',nc=00000001,cnonce=x''\<close>
  \<open>digest_item '',nc=00000001,cnonce=x'' = Field ''nc'' ''00000001'' '',cnonce=x''\<close>
  \<open>digest_item '',cnonce=x'' = Field ''cnonce'' ''x'' []\<close>
  \<open>digest_item [] = No_more\<close>
  by (simp_all add: item_defs)

lemma sample_fields:
  "digest_field sample_answer ''username'' 129 = Some (True, ''a'')"
  "digest_field sample_answer ''realm'' 129 = Some (True, ''r'')"
  "digest_field sample_answer ''nonce'' 129 = Some (True, ''n'')"
  "digest_field sample_answer ''uri'' 2048 = Some (True, ''/stream0'')"
  "digest_field sample_answer ''response'' 129 = Some (True, ''11111111111111111111111111111111'')"
  "digest_field sample_answer ''qop'' 32 = Some (True, ''auth'')"
  "digest_field sample_answer ''nc'' 32 = Some (True, ''00000001'')"
  "digest_field sample_answer ''cnonce'' 256 = Some (True, ''x'')"
  "digest_field sample_answer ''algorithm'' 64 = Some (False, [])"
  unfolding digest_field_def sample_answer_def
  by (simp_all add: sample_items digest_fields.simps [of _ _ "[]"] digest_fields.simps [of _ _ "_ # _"] lower_def c_tolower_def c_code_def)

lemma sample_parsed: "digest_answer_of (drop 7 (rq_authorization sample_request)) =
    Some \<lparr> d_username = ''a'', d_realm = ''r'', d_nonce = ''n'', d_uri = ''/stream0'',
      d_response = ''11111111111111111111111111111111'', d_qop = ''auth'', d_nc = ''00000001'', d_cnonce = ''x'', d_algorithm = [] \<rparr>"
proof -
  have "drop 7 (rq_authorization sample_request) = sample_answer" by (simp add: sample_request_def)
  then show ?thesis by (simp add: digest_answer_of_def sample_fields)
qed

lemma sample_md5: "jipc_md5 sample_rtsp_env s = ''11111111111111111111111111111111''"
proof -
  have "hex_of (replicate 16 0x11) = ''11111111111111111111111111111111''" by code_simp
  then show ?thesis by (simp add: jipc_md5_def sample_rtsp_env_def)
qed

lemma sample_expected:
  "d = \<lparr> d_username = ''a'', d_realm = ''r'', d_nonce = ''n'', d_uri = ''/stream0'',
      d_response = ''11111111111111111111111111111111'', d_qop = ''auth'', d_nc = ''00000001'', d_cnonce = ''x'', d_algorithm = [] \<rparr> \<Longrightarrow>
    expected_answer sample_rtsp_env cfg rq d 0 = Some (''11111111111111111111111111111111'', 1)"
  by (simp add: expected_answer_def sample_md5 all_xdigits_def hex_number_def xdigit_value_def c_code_def)

lemma sample_authenticated:
  "n_tick w \<le> 2 \<Longrightarrow> authenticated sample_rtsp_env sample_request (net_config sample_rtsp_env k) sample_client w =
    (True, sample_client\<lparr>nonce_count := 1\<rparr>, n_next w)"
proof -
  assume "n_tick w \<le> 2"
  then have t: "n_tick w = 0 \<or> n_tick w = 1 \<or> n_tick w = 2" by linarith
  have d: "lower (take 7 (rq_authorization sample_request)) = ''digest ''"
  proof -
    have "lower ''Digest '' = ''digest ''" by code_simp
    then show ?thesis by (simp add: sample_request_def)
  qed
  have l: "lower ''11111111111111111111111111111111'' = ''11111111111111111111111111111111''" by code_simp
  have n: "nonce_count sample_client = 0" "nonce sample_client = ''n''" "nonce_us sample_client = 0"
    "net_now sample_rtsp_env i = of_nat i" for i
    by (simp_all add: sample_client_def new_client_def sample_rtsp_env_def)
  have c: "net_config sample_rtsp_env k = \<lparr> cfg_username = ''a'', cfg_password = ''pw'', cfg_realm = ''r'', cfg_audio = True, cfg_sensors = 2 \<rparr>"
    "rq_uri sample_request = ''/stream0''"
    by (simp_all add: sample_rtsp_env_def sample_request_def)
  show ?thesis
    using t by (auto simp: authenticated_def d sample_parsed c n sample_expected jipc_equal_iff NONCE_LIFE_US_def
        all_xdigits_def xdigit_value_def c_code_def l)
qed

text \<open>The theorems on this request, and on an empty line cut in two.\<close>

lemma sample_not_blocked: "jipc_auth_blocked sample_rtsp_env (n_next sample_world) =
    (False, (n_next (n_next sample_world))\<lparr>auth_slots := replicate SLOTS no_slot\<rparr>)"
  by (simp add: jipc_auth_blocked_def sample_rtsp_env_def sample_world_def jipc_auth_blocked_at_def SLOTS_def n_next_def
     no_slot_def eval_nat_numeral Let_def)

lemma sample_session:
  assumes "cfg_sensors cfg = 2" "channel c = 0" "session_id c = ''s''"
  shows "playing (fst (snd (session_request sample_rtsp_env sample_request cfg False c w))) = False"
proof -
  have u: "uri_channel (rq_uri sample_request) 2048 = Some (0, None, ''/stream0/'')"
    by (simp add: sample_request_def uri_channel_def lower_def c_tolower_def c_code_def starts_with_def track_of_def stream_of_def)
  have m: "rq_method sample_request = ''PAUSE''" "session_matches c (rq_session sample_request)"
    using assms by (simp_all add: sample_request_def session_matches_def is_blank_def)
  show ?thesis by (simp add: session_request_def u m assms Let_def split: prod.split)
qed

lemma sample_handle:
  "session (fst (snd (handle sample_rtsp_env sample_request sample_client sample_world))) \<noteq> session sample_client"
proof -
  let ?cfg = "net_config sample_rtsp_env 0"
  have w: "n_tick sample_world = 0" "rq_require sample_request = []" "rq_method sample_request = ''PAUSE''"
    "cfg_username ?cfg = ''a''" "cfg_sensors ?cfg = 2"
    by (simp_all add: sample_world_def sample_request_def no_request_def sample_rtsp_env_def)
  have s: "channel sample_client = 0" "session_id sample_client = ''s''" by (simp_all add: sample_client_def new_client_def)
  obtain w1 where b: "jipc_auth_blocked sample_rtsp_env (n_next sample_world) = (False, w1)" "n_tick w1 = 2"
    using sample_not_blocked by (simp add: n_next_def w)
  have a: "authenticated sample_rtsp_env sample_request ?cfg sample_client w1 = (True, sample_client\<lparr>nonce_count := 1\<rparr>, n_next w1)"
    by (rule sample_authenticated) (simp add: b)
  have "playing (fst (snd (handle sample_rtsp_env sample_request sample_client sample_world))) = False"
    by (simp add: handle_def w b a Let_def sample_session s)
  then show ?thesis by (simp add: session_def sample_client_def new_client_def)
qed


lemma sample_nonce: "drawn_nonce sample_rtsp_env n \<Longrightarrow> \<not> jipc_equal ''n'' n"
proof -
  have "hex_of (replicate 16 3) = ''03030303030303030303030303030303''" by code_simp
  then show "drawn_nonce sample_rtsp_env n \<Longrightarrow> \<not> jipc_equal ''n'' n"
    by (auto simp: drawn_nonce_def sample_rtsp_env_def jipc_equal_iff)
qed

lemma digest_answer_is_good_once_witness:
  "fst (authenticated sample_rtsp_env sample_request (net_config sample_rtsp_env 0) sample_client sample_world) \<and>
   \<not> fst (authenticated sample_rtsp_env sample_request (net_config sample_rtsp_env 0)
       (fst (foldl (\<lambda>(c, w) q. snd (handle sample_rtsp_env q c w)) (sample_client\<lparr>nonce_count := 1\<rparr>, sample_world) [sample_request])) sample_world)"
proof -
  have t: "n_tick sample_world \<le> 2" by (simp add: sample_world_def)
  have u: "cfg_username (net_config sample_rtsp_env 0) \<noteq> []" by (simp add: sample_rtsp_env_def)
  show ?thesis
    using digest_answer_is_good_once [OF sample_authenticated [OF t] u sample_parsed, of "sample_client\<lparr>nonce_count := 1\<rparr>" sample_world "[sample_request]" sample_world]
      sample_authenticated [OF t, of 0] sample_nonce by simp
qed

lemma framing_independent_of_pieces_witness:
  "fst (receive_all sample_rtsp_env [[13], [10]] (new_client 0 1 ''n'' ''s'') sample_world) =
   fst (client_input sample_rtsp_env [13, 10] (new_client 0 1 ''n'' ''s'') sample_world)"
  using framing_independent_of_pieces [of "[[13], [10]]" "new_client 0 1 ''n'' ''s''" sample_rtsp_env sample_world]
  by (simp add: new_client_def RTSP_BUFFER_SIZE_def)

end
