(* ===== verification/Button.thy ===== *)
theory Button
  imports Prelude
begin

text \<open>
  The reset button of the admin daemon (\<open>src/daemon/button.c\<close>). The thread looks at the
  line four times a second; a look is one element of a list of levels, and a step says
  whether the camera is reset to its defaults.
\<close>

section \<open>The line and the thread\<close>

text \<open>
  \<open>button_level\<close>: what \<open>open\<close> and \<open>read\<close> gave of the value file. Nothing, an empty file or
  another character is an unreadable line.
\<close>

definition button_level :: "char option \<Rightarrow> int" where
  "button_level line =
     (case line of None \<Rightarrow> -1
      | Some c \<Rightarrow> if c = CHR ''0'' \<or> c = CHR ''1'' then int (c_code c) - 48 else -1)"

record button_state =
  armed :: bool
  held :: nat

definition HOLD_TICKS :: nat where "HOLD_TICKS = 20"

definition button_init :: button_state where
  "button_init = \<lparr> armed = False, held = 0 \<rparr>"

text \<open>
  A round of the loop of \<open>button_main\<close>: the level, whether the OEM application runs the
  media, and whether the helper \<open>factory-reset\<close> is run.
\<close>

definition button_tick :: "int \<Rightarrow> bool \<Rightarrow> button_state \<Rightarrow> bool \<times> button_state" where
  "button_tick level oem b =
     (if level \<noteq> 0 then (False, \<lparr> armed = (level = 1), held = 0 \<rparr>)
      else if \<not> armed b then (False, b)
      else
        let b = b\<lparr>held := held b + 1\<rparr>
        in if held b < HOLD_TICKS then (False, b)
           else
             let b = \<lparr> armed = False, held = 0 \<rparr>
             in if oem then (False, b) else (True, b))"

fun button_run :: "(int \<times> bool) list \<Rightarrow> button_state \<Rightarrow> bool list" where
  "button_run [] b = []"
| "button_run ((level, oem) # ls) b = (case button_tick level oem b of (fired, b) \<Rightarrow> fired # button_run ls b)"

section \<open>When the button resets\<close>

text \<open>The state after some looks.\<close>

definition button_after :: "(int \<times> bool) list \<Rightarrow> button_state" where
  "button_after ls = foldl (\<lambda>b (level, oem). snd (button_tick level oem b)) button_init ls"

lemma button_after_Nil [simp]: "button_after [] = button_init"
  by (simp add: button_after_def)

lemma button_after_snoc [simp]: "button_after (ls @ [(l, q)]) = snd (button_tick l q (button_after ls))"
  by (simp add: button_after_def)

lemma button_run_foldl: "button_run (ls @ [(l, q)]) b =
    button_run ls b @ [fst (button_tick l q (foldl (\<lambda>b (level, oem). snd (button_tick level oem b)) b ls))]"
  by (induction ls arbitrary: b) (auto split: prod.splits)

lemma button_run_snoc: "button_run (ls @ [(l, q)]) button_init =
    button_run ls button_init @ [fst (button_tick l q (button_after ls))]"
  by (simp add: button_run_foldl button_after_def)

lemma length_button_run [simp]: "length (button_run ls b) = length ls"
  by (induction ls arbitrary: b) (auto split: prod.splits)

lemma button_run_nth:
  "n < length ls \<Longrightarrow> button_run ls button_init ! n = fst (button_tick (fst (ls ! n)) (snd (ls ! n)) (button_after (take n ls)))"
proof (induction ls rule: rev_induct)
  case (snoc x ls)
  obtain l q where x: "x = (l, q)" by fastforce
  show ?case
  proof (cases "n = length ls")
    case False
    then show ?thesis using snoc by (simp add: x button_run_snoc nth_append)
  qed (simp add: x button_run_snoc nth_append)
qed simp

text \<open>
  A line that was seen released and then pressed \<open>k\<close> times in a row, fewer than it takes.
\<close>

definition pressed_since_release :: "(int \<times> bool) list \<Rightarrow> nat \<Rightarrow> bool" where
  "pressed_since_release ls k \<longleftrightarrow> k < length ls \<and> fst (ls ! (length ls - 1 - k)) = 1 \<and>
     (\<forall>i. length ls - 1 - k < i \<and> i < length ls \<longrightarrow> fst (ls ! i) = 0)"

lemma pressed_since_release_snoc:
  "pressed_since_release (ls @ [(l, q)]) k \<longleftrightarrow> (case k of 0 \<Rightarrow> l = 1 | Suc k \<Rightarrow> l = 0 \<and> pressed_since_release ls k)"
proof (cases k)
  case 0
  then show ?thesis by (auto simp: pressed_since_release_def nth_append)
next
  case (Suc j)
  let ?m = "length ls" and ?xs = "ls @ [(l, q)]"
  have nth: "?xs ! i = ls ! i" if "i < ?m" for i using that by (simp add: nth_append)
  have "(\<forall>i. ?m - Suc j < i \<and> i < Suc ?m \<longrightarrow> fst (?xs ! i) = 0) \<longleftrightarrow>
      l = 0 \<and> (\<forall>i. ?m - Suc j < i \<and> i < ?m \<longrightarrow> fst (ls ! i) = 0)" if "j < ?m"
    using nth that by (simp add: less_Suc_eq all_conj_distrib imp_conjR imp_disjL conj_disj_distribL) auto
  moreover have "fst (?xs ! (?m - Suc j)) = fst (ls ! (?m - Suc j))" if "j < ?m" using nth that by simp
  ultimately show ?thesis by (cases "j < ?m") (auto simp: pressed_since_release_def Suc)
qed

lemma pressed_since_release_Nil [simp]: "\<not> pressed_since_release [] k"
  by (simp add: pressed_since_release_def)

lemma button_after_armed:
  "(armed (button_after ls) \<and> held (button_after ls) = k \<longleftrightarrow> k < HOLD_TICKS \<and> pressed_since_release ls k) \<and>
   (\<not> armed (button_after ls) \<longrightarrow> held (button_after ls) = 0)"
proof (induction ls arbitrary: k rule: rev_induct)
  case (snoc x ls)
  obtain l q where x: "x = (l, q)" by fastforce
  let ?b = "button_after ls"
  have i: "armed ?b \<and> held ?b = j \<longleftrightarrow> j < HOLD_TICKS \<and> pressed_since_release ls j" for j using snoc [of j] by (rule conjunct1)
  have z: "\<not> armed ?b \<longrightarrow> held ?b = 0" using snoc [of 0] by (rule conjunct2)
  show ?case
  proof (cases "l = 0")
    case False
    then show ?thesis by (cases k) (auto simp: x button_tick_def pressed_since_release_snoc HOLD_TICKS_def)
  next
    case l: True
    show ?thesis
    proof (cases "armed ?b")
      case False
      then show ?thesis using l z i [of "k - 1"] by (cases k) (simp_all add: x button_tick_def pressed_since_release_snoc)
    next
      case True
      have h: "held ?b < HOLD_TICKS" using i [of "held ?b"] True by blast
      show ?thesis
        using l True h i [of "k - 1"] by (cases k; cases "held ?b + 1 < HOLD_TICKS") (auto simp: x button_tick_def Let_def pressed_since_release_snoc)
    qed
  qed
qed (simp add: button_init_def)

text \<open>
  C35. The reset button works and nothing else does: the camera is reset at a look if and
  only if the line was seen released, then pressed at each of the last twenty looks (five
  seconds), this one included, and the OEM application is not running the media. So held
  long enough after a release it always resets, once until it is released again, and a line
  that is stuck or unreadable never does.
\<close>

theorem button_resets_iff:
  assumes "n < length ls"
  shows "button_run ls button_init ! n \<longleftrightarrow>
    20 \<le> n \<and> fst (ls ! (n - 20)) = 1 \<and> (\<forall>i. n - 20 < i \<and> i \<le> n \<longrightarrow> fst (ls ! i) = 0) \<and> \<not> snd (ls ! n)"
proof -
  let ?ls = "take n ls" and ?b = "button_after (take n ls)"
  have "button_run ls button_init ! n \<longleftrightarrow>
      fst (ls ! n) = 0 \<and> armed ?b \<and> HOLD_TICKS \<le> held ?b + 1 \<and> \<not> snd (ls ! n)"
    using button_run_nth [OF assms] by (auto simp: button_tick_def Let_def)
  also have "\<dots> \<longleftrightarrow> fst (ls ! n) = 0 \<and> (armed ?b \<and> held ?b = 19) \<and> \<not> snd (ls ! n)"
  proof -
    have "armed ?b \<Longrightarrow> held ?b < HOLD_TICKS" using button_after_armed [of ?ls "held ?b"] by blast
    then have "armed ?b \<and> HOLD_TICKS \<le> held ?b + 1 \<longleftrightarrow> armed ?b \<and> held ?b = 19" unfolding HOLD_TICKS_def by linarith
    then show ?thesis by blast
  qed
  also have "\<dots> \<longleftrightarrow> fst (ls ! n) = 0 \<and> pressed_since_release ?ls 19 \<and> \<not> snd (ls ! n)"
  proof -
    have "19 < HOLD_TICKS" by (simp add: HOLD_TICKS_def)
    then show ?thesis using button_after_armed [of ?ls 19] by blast
  qed
  also have "\<dots> \<longleftrightarrow> 20 \<le> n \<and> fst (ls ! (n - 20)) = 1 \<and> (\<forall>i. n - 20 < i \<and> i \<le> n \<longrightarrow> fst (ls ! i) = 0) \<and> \<not> snd (ls ! n)"
    using assms by (auto simp: pressed_since_release_def le_less)
  finally show ?thesis .
qed

lemma button_resets_iff_witness:
  "button_run ((1, False) # replicate 20 (0, False)) button_init ! 20"
proof -
  have "20 < length ((1, False) # replicate 20 (0 :: int, False))" by simp
  from button_resets_iff [OF this] show ?thesis by (simp add: nth_Cons' del: button_run.simps) auto
qed

end
