(* ===== verification/Ntp.thy ===== *)
theory Ntp
  imports Daemon_Util "HOL-Library.Signed_Division"
begin

text \<open>
  The SNTP client of the admin daemon (\<open>src/daemon/ntp.c\<close>): the server setting, what a
  reply says about the clock, one exchange, one round of the thread, and the status. Times
  in microseconds are integers; the code holds them in 64 bits, which no clock leaves.
\<close>

section \<open>The server setting\<close>

text \<open>One part of a dotted address, as \<open>inet_pton\<close> reads it: no sign and no leading zero.\<close>

definition octet_of :: "string \<Rightarrow> nat option" where
  "octet_of s =
     (if s \<noteq> [] \<and> list_all c_isdigit s \<and> length s \<le> 3 \<and> (hd s \<noteq> CHR ''0'' \<or> length s = 1) \<and> digits_value 0 s \<le> 255
      then Some (digits_value 0 s) else None)"

text \<open>The parts of a text between dots, empty ones included.\<close>

fun dot_parts :: "string \<Rightarrow> string list" where
  "dot_parts [] = [[]]"
| "dot_parts (c # s) = (if c = CHR ''.'' then [] # dot_parts s else (c # hd (dot_parts s)) # tl (dot_parts s))"

definition inet_pton4 :: "string \<Rightarrow> u32 option" where
  "inet_pton4 s =
     (case map octet_of (dot_parts s) of
        [Some a, Some b, Some c, Some d] \<Rightarrow> Some (be32 (of_nat a) (of_nat b) (of_nat c) (of_nat d))
      | _ \<Rightarrow> None)"

definition joan_ntp_parse_server :: "string \<Rightarrow> (u32 \<times> u16) option" where
  "joan_ntp_parse_server t =
     (let host = takeWhile (\<lambda>c. c \<noteq> CHR '':'') t; colon = dropWhile (\<lambda>c. c \<noteq> CHR '':'') t
      in if host = [] \<or> 16 \<le> length host then None
         else
           let port = (if colon = [] then Some 123
             else if tl colon = [] \<or> \<not> c_isdigit (hd (tl colon)) then None
             else (case c_strtoul (tl colon) of (n, rest) \<Rightarrow> if rest \<noteq> [] \<or> n = 0 \<or> 65535 < n then None else Some n))
           in case port of None \<Rightarrow> None
              | Some n \<Rightarrow> (case inet_pton4 host of None \<Rightarrow> None
                  | Some a \<Rightarrow> if a = 0 then None else Some (a, of_nat n)))"

section \<open>What a reply says\<close>

definition NTP_UNIX_EPOCH :: u64 where "NTP_UNIX_EPOCH = 2208988800"
definition NTP_MIN_UNIX :: int where "NTP_MIN_UNIX = 1767225600"

text \<open>The stamp in microseconds of the epoch, rounded to the nearest one.\<close>

definition unix_us :: "u64 \<Rightarrow> int" where
  "unix_us stamp =
     (let seconds = drop_bit 32 stamp; fraction = stamp AND 0xffffffff;
          seconds = (if seconds AND 0x80000000 = 0 then seconds + 0x100000000 else seconds)
      in sint (seconds - NTP_UNIX_EPOCH) * 1000000 + uint (drop_bit 32 (fraction * 1000000 + 0x80000000)))"

text \<open>The offset of the clock by a reply of \<open>size\<close> bytes to the request with this origin.\<close>

definition joan_ntp_offset :: "byte list \<Rightarrow> byte list \<Rightarrow> int \<Rightarrow> nat \<Rightarrow> int option" where
  "joan_ntp_offset reply origin sent_us round_trip_us =
     (if length reply < 48 then None
      else
        let leap = drop_bit 6 (reply ! 0); version = drop_bit 3 (reply ! 0) AND 7; mode = reply ! 0 AND 7; stratum = reply ! 1
        in if leap = 3 \<or> version < 3 \<or> 4 < version \<or> mode \<noteq> 4 \<or> stratum < 1 \<or> 15 < stratum then None
           else if take 8 (drop 24 reply) \<noteq> origin then None
           else
             let received = read_be64 reply 32; transmitted = read_be64 reply 40
             in if received = 0 \<or> transmitted = 0 then None
                else
                  let t2 = unix_us received; t3 = unix_us transmitted; t4 = sent_us + int round_trip_us
                  in if t2 < NTP_MIN_UNIX * 1000000 \<or> t3 < t2 \<or> int round_trip_us < t3 - t2 then None
                     else Some (((t2 - sent_us) + (t3 - t4)) sdiv 2))"

section \<open>The daemon's state\<close>

record ntp_state =
  n_server :: string
  n_resolved :: string
  n_error :: string
  n_attempts :: nat
  synchronized :: bool
  ever :: bool
  last_sync_ms :: nat
  last_offset_us :: int

text \<open>
  The calls an exchange makes, by environment: sockets (an error with its text or none),
  clocks, random bytes, sending, and what each turn of the wait for a reply saw, with the
  microseconds since the request at its start. A turn ends with an error of \<open>poll\<close>, with
  nothing to read (interrupted, or a changed setting), or with what \<open>recv\<close> gave and the
  time it took. The last turn is the one after which the clock is past the deadline.
\<close>

datatype ntp_wait =
    Wait_error string
  | Wait_stopping
  | Wait_nothing
  | Wait_failed string
  | Wait_received "byte list" nat

record ntp_env = store_env +
  ntp_socket :: "nat \<Rightarrow> string option"
  ntp_connect :: "nat \<Rightarrow> u32 \<times> u16 \<Rightarrow> string option"
  ntp_wall :: "nat \<Rightarrow> int option"
  ntp_origin :: "nat \<Rightarrow> byte list option"
  ntp_send :: "nat \<Rightarrow> byte list \<Rightarrow> string option"
  ntp_waits :: "nat \<Rightarrow> (nat \<times> ntp_wait) list"
  ntp_ms :: "nat \<Rightarrow> nat"
  ntp_unlink :: "nat \<Rightarrow> bool"
  ntp_quitting :: "nat \<Rightarrow> bool"
  ntp_changed :: "nat \<Rightarrow> string option"
  oem_running :: "nat \<Rightarrow> bool"
  helper_ok :: "nat \<Rightarrow> string \<Rightarrow> bool"
  state_dir :: string
  run_dir :: string

record ntp_world = store +
  ntp :: ntp_state
  requests :: "byte list list"
  helper_log :: "(string \<times> string) list"

section \<open>Loading the setting and resolving the server\<close>

definition setting_path :: "'e ntp_env_scheme \<Rightarrow> string" where
  "setting_path env = take 511 (state_dir env @ ''/ntp-server'')"

definition strip_newlines :: "byte list \<Rightarrow> byte list" where
  "strip_newlines raw = rev (dropWhile (\<lambda>b. b = 10 \<or> b = 13) (rev raw))"

definition load_setting :: "'e ntp_env_scheme \<Rightarrow> 'w ntp_world_scheme \<Rightarrow> 'w ntp_world_scheme" where
  "load_setting env w =
     (case joan_read_file env (setting_path env) 128 w of
        (None, w) \<Rightarrow> w\<lparr>ntp := (ntp w)\<lparr>n_server := []\<rparr>\<rparr>
      | (Some raw, w) \<Rightarrow>
          let raw = strip_newlines raw
          in w\<lparr>ntp := (ntp w)\<lparr>n_server := (if length raw < 64 then chars_of (takeWhile (\<lambda>b. b \<noteq> 0) raw) else [])\<rparr>\<rparr>)"

text \<open>The address to ask, with its text.\<close>

definition resolve :: "'e ntp_env_scheme \<Rightarrow> string \<Rightarrow> 'w ntp_world_scheme
    \<Rightarrow> (u32 \<times> u16 \<times> string) option \<times> 'w ntp_world_scheme" where
  "resolve env server w =
     (case (if server = ''gateway''
            then (case joan_read_file env (take 511 (run_dir env @ ''/default-gateway'')) 128 w of
                    (None, w) \<Rightarrow> (None, w)
                  | (Some raw, w) \<Rightarrow> if raw = [] then (None, w)
                      else (Some (chars_of (takeWhile (\<lambda>b. b \<noteq> 0) (take 63 (takeWhile (\<lambda>b. b \<noteq> 32 \<and> b \<noteq> 10) raw)))), w))
            else (Some (take 63 server), w)) of
        (None, w) \<Rightarrow> (None, w)
      | (Some t, w) \<Rightarrow> (map_option (\<lambda>(a, p). (a, p, take 63 t)) (joan_ntp_parse_server t), w))"

section \<open>One exchange\<close>

definition ntp_request :: "byte list \<Rightarrow> byte list" where
  "ntp_request origin = 0x23 # replicate 39 0 @ origin"

definition NTP_TIMEOUT_MS :: nat where "NTP_TIMEOUT_MS = 2000"

text \<open>
  The turns of the wait: an acceptable reply ends it with the offset, and replies that are
  not are passed over.
\<close>

fun await_reply :: "byte list \<Rightarrow> int \<Rightarrow> (nat \<times> ntp_wait) list \<Rightarrow> bool \<Rightarrow> string + int" where
  "await_reply origin sent_us [] invalid = Inl (if invalid then ''no valid reply'' else ''no reply'')"
| "await_reply origin sent_us ((now, e) # es) invalid =
     (if NTP_TIMEOUT_MS * 1000 \<le> now then Inl (if invalid then ''no valid reply'' else ''no reply'')
      else case e of
        Wait_error t \<Rightarrow> Inl (''poll: '' @ t)
      | Wait_stopping \<Rightarrow> Inl ''stopping''
      | Wait_nothing \<Rightarrow> await_reply origin sent_us es invalid
      | Wait_failed t \<Rightarrow> Inl (''receive: '' @ t)
      | Wait_received d round_trip \<Rightarrow>
          (case joan_ntp_offset (take 68 d) origin sent_us round_trip of
             Some offset \<Rightarrow> Inr offset
           | None \<Rightarrow> await_reply origin sent_us es True))"

text \<open>The exchange: the request, and the wait for its reply.\<close>

definition exchange ::
  "'e ntp_env_scheme \<Rightarrow> u32 \<times> u16 \<Rightarrow> 'w ntp_world_scheme \<Rightarrow> (string + int) \<times> 'w ntp_world_scheme" where
  "exchange env server w =
     (let k = s_tick w; w = s_next w
      in case ntp_socket env k of Some t \<Rightarrow> (Inl (''socket: '' @ t), w) | None \<Rightarrow>
         (case ntp_connect env k server of Some t \<Rightarrow> (Inl (''connect: '' @ t), w) | None \<Rightarrow>
         (case ntp_origin env k of None \<Rightarrow> (Inl ''random origin unavailable'', w) | Some origin \<Rightarrow>
         (case ntp_wall env k of None \<Rightarrow> (Inl ''clock unavailable'', w) | Some sent_us \<Rightarrow>
         (case ntp_send env k (ntp_request origin) of Some t \<Rightarrow> (Inl (''send: '' @ t), w) | None \<Rightarrow>
            (await_reply origin sent_us (ntp_waits env k) False,
             w\<lparr>requests := requests w @ [ntp_request origin]\<rparr>))))))"

section \<open>Setting the clock\<close>

definition run_helper :: "'e ntp_env_scheme \<Rightarrow> string \<Rightarrow> string \<Rightarrow> 'w ntp_world_scheme \<Rightarrow> bool \<times> 'w ntp_world_scheme" where
  "run_helper env op arg w =
     (helper_ok env (s_tick w) arg, (s_next w)\<lparr>helper_log := helper_log w @ [(op, arg)]\<rparr>)"

definition step_clock :: "'e ntp_env_scheme \<Rightarrow> int \<Rightarrow> 'w ntp_world_scheme \<Rightarrow> string option \<times> 'w ntp_world_scheme" where
  "step_clock env offset_us w =
     (case ntp_wall env (s_tick w) of
        None \<Rightarrow> (Some ''clock unavailable'', s_next w)
      | Some now \<Rightarrow>
          let epoch = take 23 (c_dec_int ((now + offset_us + 500000) sdiv 1000000))
          in case run_helper env ''time-set'' epoch (s_next w) of
               (ok, w) \<Rightarrow> (if ok then None else Some ''time-set helper failed'', w))"

definition NTP_STEP_US :: int where "NTP_STEP_US = 2000000"
definition NTP_RETRY_MS :: nat where "NTP_RETRY_MS = 30000"
definition NTP_POLL_MS :: nat where "NTP_POLL_MS = 3600000"

section \<open>Configuring\<close>

definition setting_ok :: "string \<Rightarrow> bool" where
  "setting_ok server \<longleftrightarrow> length server < 64 \<and>
     (server = [] \<or> server = ''gateway'' \<or> joan_ntp_parse_server server \<noteq> None)"

definition joan_ntp_configure :: "'e ntp_env_scheme \<Rightarrow> string \<Rightarrow> 'w ntp_world_scheme \<Rightarrow> bool \<times> 'w ntp_world_scheme" where
  "joan_ntp_configure env server w =
     (if \<not> setting_ok server then (False, w)
      else case (if server \<noteq> [] then joan_write_atomic env (setting_path env) (bytes_of (server @ [CHR 0x0A])) w
                 else if files w (setting_path env) \<noteq> None \<and> \<not> ntp_unlink env (s_tick w) then (False, s_next w)
                 else (True, file_put (setting_path env) None (s_next w))) of
             (False, w) \<Rightarrow> (False, w)
           | (True, w) \<Rightarrow>
               (True, w\<lparr>ntp := (ntp w)\<lparr>n_server := server, n_attempts := 0, synchronized := False, ever := False,
                  n_resolved := [], n_error := []\<rparr>\<rparr>))"

section \<open>A round of the thread\<close>

text \<open>
  What a round writes back. A setting that was changed meanwhile starts from scratch.
\<close>

definition record_result :: "string \<Rightarrow> string \<Rightarrow> string + int \<Rightarrow> nat \<Rightarrow> ntp_state \<Rightarrow> ntp_state" where
  "record_result server name r ms n =
     (if server \<noteq> n_server n then n
      else
        let n = n\<lparr>n_attempts := n_attempts n + 1, synchronized := \<not> isl r, n_resolved := name\<rparr>
        in case r of
             Inr offset \<Rightarrow> n\<lparr>ever := True, last_sync_ms := ms, last_offset_us := offset, n_error := []\<rparr>
           | Inl e \<Rightarrow> n\<lparr>n_error := take 127 e\<rparr>)"

text \<open>The clock is stepped for an offset of two seconds or more, but not under the OEM application.\<close>

definition settle :: "'e ntp_env_scheme \<Rightarrow> string + int \<Rightarrow> 'w ntp_world_scheme \<Rightarrow> (string + int) \<times> 'w ntp_world_scheme" where
  "settle env r w =
     (case r of
        Inl e \<Rightarrow> (Inl e, w)
      | Inr offset \<Rightarrow>
          if offset < NTP_STEP_US \<and> - NTP_STEP_US < offset then (Inr offset, w)
          else if oem_running env (s_tick w)
          then (Inl ''waiting for the OEM application to hand over media'', s_next w)
          else case step_clock env offset (s_next w) of
                 (Some e, w) \<Rightarrow> (Inl e, w)
               | (None, w) \<Rightarrow> (Inr offset, w))"

text \<open>
  A round of \<open>ntp_main\<close>: how long the thread then idles, or none when it stops. Another
  thread may configure a server while the exchange is under way.
\<close>

definition ntp_round :: "'e ntp_env_scheme \<Rightarrow> 'w ntp_world_scheme \<Rightarrow> nat option \<times> 'w ntp_world_scheme" where
  "ntp_round env w =
     (let server = n_server (ntp w)
      in if server = [] then (Some NTP_POLL_MS, w)
         else case (case resolve env server w of
                      (None, w) \<Rightarrow> ([], Inl (''no address for '' @ server), w)
                    | (Some (a, p, name), w) \<Rightarrow> (case exchange env (a, p) w of (r, w) \<Rightarrow> (name, r, w))) of
           (name, r, w) \<Rightarrow>
             if ntp_quitting env (s_tick w) then (None, s_next w)
             else case settle env r (s_next w) of
               (r, w) \<Rightarrow>
                 let w = (case ntp_changed env (s_tick w) of None \<Rightarrow> w | Some s \<Rightarrow> snd (joan_ntp_configure env s w));
                     w = w\<lparr>ntp := record_result server name r (ntp_ms env (s_tick w)) (ntp w)\<rparr>
                 in (Some (if isl r then NTP_RETRY_MS else NTP_POLL_MS), w))"

section \<open>Status\<close>

definition thousandths :: "int \<Rightarrow> string" where
  "thousandths us =
     (let n = nat \<bar>us\<bar>; d = (\<lambda>n. char_of (48 + n mod 10))
      in (if us < 0 then ''-'' else []) @ c_dec (n div 1000) @ ''.'' @ [d (n div 100), d (n div 10), d n])"

definition quoted :: "string \<Rightarrow> string" where
  "quoted s = [CHR 0x22] @ s @ [CHR 0x22]"

definition joan_ntp_status :: "nat \<Rightarrow> nat \<Rightarrow> ntp_state \<Rightarrow> string" where
  "joan_ntp_status cap now_ms n =
     take (cap - 1)
       (if n_server n = [] then ''{'' @ quoted ''server'' @ '':'' @ quoted [] @ '','' @ quoted ''synchronized'' @ '':false}''
        else
          let opening = ''{'' @ quoted ''server'' @ '':'' @ quoted (n_server n) @ '','' @
                quoted ''resolved'' @ '':'' @ quoted (n_resolved n) @ '',''
          in if ever n
             then opening @ quoted ''synchronized'' @ '':'' @ (if synchronized n then ''true'' else ''false'') @ '','' @
               quoted ''attempts'' @ '':'' @ c_dec (n_attempts n) @ '','' @
               quoted ''last_offset_ms'' @ '':'' @ thousandths (last_offset_us n) @ '','' @
               quoted ''last_sync_age_seconds'' @ '':'' @ c_dec ((now_ms - last_sync_ms n) div 1000) @ '','' @
               quoted ''error'' @ '':'' @ quoted (n_error n) @ ''}''
             else opening @ quoted ''synchronized'' @ '':false,'' @ quoted ''attempts'' @ '':'' @ c_dec (n_attempts n) @ '','' @
               quoted ''error'' @ '':'' @ quoted (n_error n) @ ''}'')"

end
