(* ===== verification/Ntp_Correct.thy ===== *)
theory Ntp_Correct
  imports Ntp
begin

text \<open>
  What the SNTP client promises: the offset of an honest server is off by at most half the
  round trip, the clock is stepped only by an answer to the request just sent, and a
  configured server comes back after a restart.
\<close>

section \<open>Stamps\<close>

text \<open>The stamp of a time in microseconds of the epoch, as a server writes it: it counts modulo 2^32 seconds.\<close>

definition ntp_stamp :: "int \<Rightarrow> u64" where
  "ntp_stamp t = word_of_int (((t div 1000000 + 2208988800) mod 2 ^ 32) * 2 ^ 32 + (t mod 1000000) * 2 ^ 32 div 1000000)"

text \<open>From 20 January 1968 to 26 February 2104.\<close>

definition ntp_range :: "int \<Rightarrow> bool" where
  "ntp_range t \<longleftrightarrow> - 61505152 * 1000000 \<le> t \<and> t < 4233462144 * 1000000"

lemma fraction_rounds:
  fixes r :: int
  assumes "0 \<le> r" "r < 1000000"
  shows "(r * 2 ^ 32 div 1000000 * 1000000 + 2 ^ 31) div 2 ^ 32 = r"
proof -
  define e where "e = r * 2 ^ 32 mod 1000000"
  have e: "0 \<le> e" "e < 1000000" by (simp_all add: e_def)
  have "r * 2 ^ 32 div 1000000 * 1000000 + e = r * 2 ^ 32" unfolding e_def by (rule div_mult_mod_eq)
  then have "r * 2 ^ 32 div 1000000 * 1000000 + 2 ^ 31 = r * 2 ^ 32 + (2 ^ 31 - e)" by simp
  then show ?thesis using e by simp
qed

lemma uint_of_small: "0 \<le> k \<Longrightarrow> k < 2 ^ 64 \<Longrightarrow> uint (word_of_int k :: u64) = k"
  by (simp add: uint_word_of_int_eq take_bit_int_eq_self)

lemma stamp_halves:
  fixes s f :: int
  assumes "0 \<le> s" "s < 2 ^ 32" "0 \<le> f" "f < 2 ^ 32"
  shows "uint (drop_bit 32 (word_of_int (s * 2 ^ 32 + f) :: u64)) = s"
    "uint ((word_of_int (s * 2 ^ 32 + f) :: u64) AND 0xffffffff) = f"
proof -
  have l: "0 \<le> s * 2 ^ 32 + f" "s * 2 ^ 32 + f < 2 ^ 64"
    using assms by (auto intro: order_less_le_trans [of _ "s * 2 ^ 32 + 2 ^ 32"] simp: algebra_simps)
  then have u: "uint (word_of_int (s * 2 ^ 32 + f) :: u64) = s * 2 ^ 32 + f"
    by (rule uint_of_small)
  show "uint (drop_bit 32 (word_of_int (s * 2 ^ 32 + f) :: u64)) = s"
    using assms l unfolding unsigned_drop_bit_eq u by (simp add: drop_bit_eq_div take_bit_int_eq_self)
  have m: "(0xffffffff :: u64) = mask 32" by (simp add: mask_eq_exp_minus_1)
  show "uint ((word_of_int (s * 2 ^ 32 + f) :: u64) AND 0xffffffff) = f"
    using assms l unfolding m take_bit_eq_mask [symmetric] unsigned_take_bit_eq u
    by (simp add: take_bit_eq_mod)
qed

lemma unix_us_seconds:
  fixes w :: u64
  assumes "uint w < 2 ^ 32"
  shows "(w AND 0x80000000 = 0) \<longleftrightarrow> uint w < 2 ^ 31"
proof -
  have "(0x80000000 :: u64) = 2 ^ 31" by simp
  then have "(w AND 0x80000000 = 0) \<longleftrightarrow> \<not> bit w 31" by (simp only: and_exp_eq_0_iff_not_bit)
  also have "\<dots> \<longleftrightarrow> even (uint w div 2 ^ 31)" 
  proof -
    have "bit w 31 = bit (uint w) 31" by (simp add: bit_uint_iff)
    then show ?thesis by (simp only: bit_iff_odd [of "uint w"] not_not)
  qed
  also have "uint w div 2 ^ 31 = (if uint w < 2 ^ 31 then 0 else 1)"
  proof (cases "uint w < 2 ^ 31")
    case False
    have "uint w div 2 ^ 31 = (uint w - 2 ^ 31) div 2 ^ 31 + 1" by (rule div_pos_geq) (use False in simp_all)
    also have "(uint w - 2 ^ 31) div 2 ^ 31 = 0" by (rule div_pos_pos_trivial) (use False assms in simp_all)
    finally show ?thesis using False by simp
  qed simp
  finally show ?thesis by simp
qed

lemma unix_us_stamp:
  assumes "ntp_range t"
  shows "unix_us (ntp_stamp t) = t"
proof -
  define s where "s = (t div 1000000 + 2208988800) mod 2 ^ 32"
  define f where "f = (t mod 1000000) * 2 ^ 32 div 1000000"
  let ?w = "drop_bit 32 (ntp_stamp t)"
  have s: "0 \<le> s" "s < 2 ^ 32" by (simp_all add: s_def)
  have r: "0 \<le> t mod 1000000" "t mod 1000000 < 1000000" by simp_all
  have f: "0 \<le> f" "f < 2 ^ 32" using r by (auto simp: f_def)
  have st: "ntp_stamp t = word_of_int (s * 2 ^ 32 + f)" by (simp add: ntp_stamp_def s_def f_def)
  have w: "uint ?w = s" "uint (ntp_stamp t AND 0xffffffff) = f" unfolding st using stamp_halves [OF s f] by simp_all
  define d where "d = t div 1000000"
  have d: "- 61505152 \<le> d" "d < 4233462144" using assms by (auto simp: ntp_range_def d_def)
  have sec: "(if s < 2 ^ 31 then s + 2 ^ 32 else s) = d + 2208988800"
  proof (cases "d + 2208988800 < 2 ^ 32")
    case True
    then have "s = d + 2208988800" using d by (simp add: s_def d_def [symmetric])
    then show ?thesis using d by simp
  next
    case False
    have "s = (d + 2208988800) mod 2 ^ 32" by (simp add: s_def d_def)
    also have "\<dots> = (d + 2208988800 - 2 ^ 32) mod 2 ^ 32" by (rule mod_pos_geq) (use False in simp_all)
    also have "\<dots> = d + 2208988800 - 2 ^ 32" by (rule mod_pos_pos_trivial) (use False d in simp_all)
    finally show ?thesis using d by simp
  qed
  have "(if ?w AND 0x80000000 = 0 then ?w + 0x100000000 else ?w) - NTP_UNIX_EPOCH = word_of_int d"
  proof -
    have "?w = word_of_int s" using w(1) by (metis word_of_int_uint)
    moreover have "(?w AND 0x80000000 = 0) \<longleftrightarrow> s < 2 ^ 31" using unix_us_seconds [of ?w] w(1) s by simp
    ultimately have "(if ?w AND 0x80000000 = 0 then ?w + 0x100000000 else ?w) = word_of_int (if s < 2 ^ 31 then s + 2 ^ 32 else s)"
      by simp
    then show ?thesis unfolding sec by (simp add: NTP_UNIX_EPOCH_def)
  qed
  moreover have "sint (word_of_int d :: u64) = d"
    using d by (simp add: signed_of_int signed_take_bit_int_eq_self)
  moreover have "uint (drop_bit 32 ((ntp_stamp t AND 0xffffffff) * 1000000 + 0x80000000)) = t mod 1000000"
  proof -
    have "(ntp_stamp t AND 0xffffffff) = word_of_int f" using w(2) by (metis word_of_int_uint)
    then have "(ntp_stamp t AND 0xffffffff) * 1000000 + 0x80000000 = word_of_int (f * 1000000 + 2 ^ 31)" by simp
    moreover have "uint (word_of_int (f * 1000000 + 2 ^ 31) :: u64) = f * 1000000 + 2 ^ 31"
      by (rule uint_of_small) (use f in auto)
    ultimately have "uint (drop_bit 32 ((ntp_stamp t AND 0xffffffff) * 1000000 + 0x80000000)) = (f * 1000000 + 2 ^ 31) div 2 ^ 32"
      using f by (simp only: unsigned_drop_bit_eq) (simp add: drop_bit_eq_div take_bit_int_eq_self)
    then show ?thesis using fraction_rounds [OF r] by (simp add: f_def)
  qed
  ultimately show ?thesis unfolding unix_us_def Let_def by (simp add: d_def)
qed


lemma sdiv2: "\<bar>2 * (n sdiv 2) - n\<bar> \<le> (1 :: int)"
proof (cases "0 \<le> n")
  case True
  then have "n sdiv 2 = n div 2" by (cases "n = 0") (simp_all add: signed_divide_int_def)
  then show ?thesis by linarith
next
  case False
  then have "n sdiv 2 = - (- n div 2)" by (simp add: signed_divide_int_def)
  then show ?thesis by linarith
qed

text \<open>
  C33. The offset of an honest server is right to half the round trip. If the server's clock
  is ahead of the camera's by \<open>ahead\<close>, and it gets the request when the camera's clock reads
  \<open>a\<close> and sends its reply when that reads \<open>b\<close>, then a reply in the format, with the cookie of
  the request and these two stamps, is accepted, and the offset it gives differs from
  \<open>ahead\<close> by at most half of what the round trip took longer than the server. (A stamp of
  zero is NTP's "no time"; the one microsecond of 2036 that has it is left out.)
\<close>

theorem ntp_offset_within_half_round_trip:
  assumes "48 \<le> length reply" "drop_bit 6 (reply ! 0) \<noteq> 3" "drop_bit 3 (reply ! 0) AND 7 \<in> {3, 4}" "reply ! 0 AND 7 = 4"
    and "1 \<le> reply ! 1" "reply ! 1 \<le> 15" "take 8 (drop 24 reply) = origin"
    and "read_be64 reply 32 = ntp_stamp (a + ahead)" "read_be64 reply 40 = ntp_stamp (b + ahead)"
    and "sent_us \<le> a" "a \<le> b" "b \<le> sent_us + int round_trip"
    and "ntp_stamp (a + ahead) \<noteq> 0" "ntp_stamp (b + ahead) \<noteq> 0"
    and "1767225600000000 \<le> a + ahead" "b + ahead < 4233462144000000"
  shows "\<exists>offset. joan_ntp_offset reply origin sent_us round_trip = Some offset \<and>
    2 * \<bar>offset - ahead\<bar> \<le> int round_trip - (b - a) + 1"
proof -
  have r: "ntp_range (a + ahead)" "ntp_range (b + ahead)" using assms(11,15,16) by (auto simp: ntp_range_def)
  note us = unix_us_stamp [OF r(1)] unix_us_stamp [OF r(2)]
  define n where "n = (a + ahead - sent_us) + (b + ahead - (sent_us + int round_trip))"
  have "joan_ntp_offset reply origin sent_us round_trip = Some (n sdiv 2)"
    using assms by (auto simp: joan_ntp_offset_def us NTP_MIN_UNIX_def n_def Let_def)
  moreover have "2 * \<bar>n sdiv 2 - ahead\<bar> \<le> int round_trip - (b - a) + 1"
  proof -
    have "n = 2 * ahead + ((a - sent_us) + (b - sent_us - int round_trip))" by (simp add: n_def)
    moreover have "2 * x - n \<le> 1 \<Longrightarrow> - 1 \<le> 2 * x - n \<Longrightarrow> 2 * \<bar>x - ahead\<bar> \<le> int round_trip - (b - a) + 1" for x
      using assms(10-12) calculation by (cases "ahead \<le> x") simp_all
    ultimately show ?thesis using sdiv2 [of n] by (simp add: abs_le_iff)
  qed
  ultimately show ?thesis by blast
qed


section \<open>Stepping the clock\<close>

lemma await_reply_Inr:
  "await_reply origin sent_us es invalid = Inr offset \<Longrightarrow>
     \<exists>now d round_trip. (now, Wait_received d round_trip) \<in> set es \<and> now < NTP_TIMEOUT_MS * 1000 \<and>
       joan_ntp_offset (take 68 d) origin sent_us round_trip = Some offset"
proof (induction origin sent_us es invalid rule: await_reply.induct)
  case (2 origin sent_us now e es invalid)
  then have t: "now < NTP_TIMEOUT_MS * 1000" by (simp split: if_splits)
  show ?case
  proof (cases e)
    case Wait_nothing
    then show ?thesis using 2 t by auto
  next
    case (Wait_received d round_trip)
    show ?thesis
    proof (cases "joan_ntp_offset (take 68 d) origin sent_us round_trip")
      case None
      then show ?thesis using 2 t Wait_received by auto
    next
      case (Some x)
      then show ?thesis using "2.prems" t Wait_received by auto
    qed
  qed (use "2.prems" t in simp_all)
qed simp

lemma read_file_helper [simp]: "joan_read_file env p n w = (r, w') \<Longrightarrow> helper_log w' = helper_log w \<and> requests w' = requests w \<and> ntp w' = ntp w"
  by (auto simp: joan_read_file_def s_next_def split: option.splits if_splits)

lemma resolve_log: "resolve env server w = (r, w') \<Longrightarrow> helper_log w' = helper_log w \<and> requests w' = requests w"
  by (auto simp: resolve_def dest!: read_file_helper split: if_splits option.splits prod.splits)

lemma write_loop_log: "write_loop env tmp d w = (r, w') \<Longrightarrow> helper_log w' = helper_log (w :: 'w ntp_world_scheme) \<and> requests w' = requests w"
proof (induction env tmp d w arbitrary: r w' rule: write_loop.induct)
  case (1 env tmp p w)
  from "1.prems" show ?case
    by (subst (asm) write_loop.simps) (auto simp: s_next_def file_put_def dest!: "1.IH" split: if_splits option.splits)
qed

lemma write_log: "joan_write_atomic env p d w = (r, w') \<Longrightarrow> helper_log w' = helper_log (w :: 'w ntp_world_scheme) \<and> requests w' = requests w"
  by (auto simp: joan_write_atomic_def Let_def s_next_def file_put_def dest!: write_loop_log split: if_splits prod.splits bool.splits)

lemma configure_log: "helper_log (snd (joan_ntp_configure env s w)) = helper_log w \<and> requests (snd (joan_ntp_configure env s w)) = requests w"
  by (auto simp: joan_ntp_configure_def s_next_def file_put_def dest!: write_log split: if_splits prod.splits bool.splits)

lemma exchange_Inr:
  assumes "exchange env server w = (Inr offset, w')"
  obtains origin sent_us now d round_trip where "ntp_origin env (s_tick w) = Some origin" "ntp_wall env (s_tick w) = Some sent_us"
    "requests w' = requests w @ [ntp_request origin]" "(now, Wait_received d round_trip) \<in> set (ntp_waits env (s_tick w))"
    "now < NTP_TIMEOUT_MS * 1000" "joan_ntp_offset (take 68 d) origin sent_us round_trip = Some offset" "helper_log w' = helper_log w"
  using assms by (auto simp: exchange_def Let_def s_next_def dest!: await_reply_Inr split: option.splits)

lemma exchange_log: "exchange env server w = (r, w') \<Longrightarrow> helper_log w' = helper_log w"
  by (auto simp: exchange_def Let_def s_next_def split: option.splits)

lemma settle_log:
  "settle env r w = (r', w') \<Longrightarrow>
     (helper_log w' = helper_log w \<or>
      (\<exists>offset now. r = Inr offset \<and> (NTP_STEP_US \<le> offset \<or> offset \<le> - NTP_STEP_US) \<and> \<not> oem_running env (s_tick w) \<and>
        ntp_wall env (Suc (s_tick w)) = Some now \<and>
        helper_log w' = helper_log w @ [(''time-set'', take 23 (c_dec_int ((now + offset + 500000) sdiv 1000000)))])) \<and>
     requests w' = requests w"
proof -
  assume st: "settle env r w = (r', w')"
  show ?thesis
  proof (cases r)
    case (Inr offset)
    show ?thesis
    proof (cases "offset < NTP_STEP_US \<and> - NTP_STEP_US < offset \<or> oem_running env (s_tick w)")
      case True
      then show ?thesis using st Inr by (auto simp: settle_def s_next_def split: if_splits)
    next
      case False
      then show ?thesis using st Inr
        by (auto simp: settle_def step_clock_def run_helper_def Let_def s_next_def not_less split: option.splits if_splits)
    qed
  qed (use st in \<open>simp add: settle_def\<close>)
qed


text \<open>
  C11. The clock is stepped only by an answer to the request just sent. A round that runs a
  helper runs \<open>time-set\<close> once, with the time that the accepted reply says it is, in whole
  seconds; that reply came within two seconds of a request with a fresh random cookie and
  carries that cookie, the offset is at least two seconds, and the OEM application is not
  running the media. Every other round leaves the clock alone.
\<close>

theorem clock_follows_an_answer:
  fixes w :: "'w ntp_world_scheme"
  assumes "ntp_round env w = (idle_ms, w')" "helper_log w' \<noteq> helper_log w"
  shows "\<exists>k origin sent_us now d round_trip offset.
    ntp_origin env k = Some origin \<and> ntp_wall env k = Some sent_us \<and> requests w' = requests w @ [ntp_request origin] \<and>
    (now, Wait_received d round_trip) \<in> set (ntp_waits env k) \<and> now < 2000000 \<and>
    joan_ntp_offset (take 68 d) origin sent_us round_trip = Some offset \<and> take 8 (drop 24 d) = origin \<and>
    2000000 \<le> \<bar>offset\<bar> \<and> \<not> oem_running env (k + 2) \<and>
    (\<exists>clock. ntp_wall env (k + 3) = Some clock \<and>
      helper_log w' = helper_log w @ [(''time-set'', take 23 (c_dec_int ((clock + offset + 500000) sdiv 1000000)))])"
proof -
  let ?server = "n_server (ntp w)"
  have ne: "?server \<noteq> []" using assms by (auto simp: ntp_round_def)
  obtain ra w1 where ra: "resolve env ?server w = (ra, w1)" by fastforce
  note l1 = resolve_log [OF ra]
  obtain name r w2 where x: "(case ra of None \<Rightarrow> ([], Inl (''no address for '' @ ?server), w1)
      | Some (a, p, name) \<Rightarrow> (case exchange env (a, p) w1 of (r, w) \<Rightarrow> (name, r, w))) = (name, r, w2)"
    by (metis prod_cases3)
  have rd: "ntp_round env w = (if ntp_quitting env (s_tick w2) then (None, s_next w2)
      else case settle env r (s_next w2) of (r, w) \<Rightarrow>
        let w = (case ntp_changed env (s_tick w) of None \<Rightarrow> w | Some s \<Rightarrow> snd (joan_ntp_configure env s w));
            w = w\<lparr>ntp := record_result ?server name r (ntp_ms env (s_tick w)) (ntp w)\<rparr>
        in (Some (if isl r then NTP_RETRY_MS else NTP_POLL_MS), w))"
    using ne by (simp add: ntp_round_def Let_def ra x)
  have l2: "helper_log w2 = helper_log w"
    using x l1 by (auto dest: exchange_log split: option.splits prod.splits)
  have nq: "\<not> ntp_quitting env (s_tick w2)" using assms rd l2 by (auto simp: s_next_def)
  obtain r' w3 where st: "settle env r (s_next w2) = (r', w3)" by fastforce
  have l3: "helper_log w' = helper_log w3" "requests w' = requests w3"
    using assms(1) nq unfolding rd by (auto simp: st Let_def configure_log split: option.splits)
  obtain offset clock where o: "r = Inr offset" "2000000 \<le> \<bar>offset\<bar>" "\<not> oem_running env (Suc (s_tick w2))"
    "ntp_wall env (Suc (Suc (s_tick w2))) = Some clock" "requests w3 = requests w2"
    "helper_log w3 = helper_log w @ [(''time-set'', take 23 (c_dec_int ((clock + offset + 500000) sdiv 1000000)))]"
    using settle_log [OF st] l3 l2 assms(2) by (auto simp: s_next_def NTP_STEP_US_def)
  obtain a p where e: "exchange env (a, p) w1 = (Inr offset, w2)"
    using x o(1) by (auto split: option.splits prod.splits)
  from e show ?thesis
  proof (rule exchange_Inr)
    fix origin sent_us now d round_trip
    assume i: "ntp_origin env (s_tick w1) = Some origin" "ntp_wall env (s_tick w1) = Some sent_us"
      "requests w2 = requests w1 @ [ntp_request origin]" "(now, Wait_received d round_trip) \<in> set (ntp_waits env (s_tick w1))"
      "now < NTP_TIMEOUT_MS * 1000" and j: "joan_ntp_offset (take 68 d) origin sent_us round_trip = Some offset"
    have t: "s_tick w2 = Suc (s_tick w1)" using e by (auto simp: exchange_def Let_def s_next_def split: option.splits)
    have c: "take 8 (drop 24 d) = origin"
      using j by (auto simp: joan_ntp_offset_def Let_def drop_take min_def split: if_splits)
    show ?thesis
      by (rule exI [of _ "s_tick w1"], rule exI [of _ origin], rule exI [of _ sent_us], rule exI [of _ now], rule exI [of _ d],
          rule exI [of _ round_trip], rule exI [of _ offset])
        (use i j c o l1 l3 t in \<open>simp add: NTP_TIMEOUT_MS_def numeral_3_eq_3\<close>)
  qed
qed


section \<open>The setting comes back after a restart\<close>

definition server_char :: "char \<Rightarrow> bool" where
  "server_char c \<longleftrightarrow> c_isdigit c \<or> c = CHR ''.'' \<or> c = CHR '':''"

lemma dot_parts_chars: "\<forall>p\<in>set (dot_parts s). \<forall>c\<in>set p. P c \<Longrightarrow> c \<in> set s \<Longrightarrow> P c \<or> c = CHR ''.''"
proof (induction s)
  case (Cons x s)
  have ne: "dot_parts s \<noteq> []" by (cases s) (simp_all add: Let_def)
  then obtain p ps where d: "dot_parts s = p # ps" by (cases "dot_parts s") auto
  show ?case using Cons by (cases "x = CHR ''.''") (auto simp: d)
qed simp

lemma inet_pton4_chars:
  assumes "inet_pton4 s = Some a" "c \<in> set s"
  shows "c_isdigit c \<or> c = CHR ''.''"
proof -
  have "None \<notin> set (map octet_of (dot_parts s))"
    using assms(1) by (auto simp: inet_pton4_def split: list.splits option.splits)
  then have "\<forall>p\<in>set (dot_parts s). \<forall>c\<in>set p. c_isdigit c"
    by (force simp: octet_of_def list_all_iff split: if_splits)
  from dot_parts_chars [OF this assms(2)] show ?thesis .
qed

lemma strtoul_digits:
  assumes "c_strtoul s = (n, [])" "s \<noteq> []" "c_isdigit (hd s)" "c \<in> set s"
  shows "c_isdigit c"
proof -
  obtain d ds where s: "s = d # ds" using assms(2) by (cases s) auto
  have d: "c_isdigit d" "\<not> c_isspace d" "d \<noteq> CHR ''-''" "d \<noteq> CHR ''+''" using assms(3) digit_facts [of d] by (auto simp: s)
  then have "dropWhile c_isdigit s = []" using assms(1) by (auto simp: c_strtoul_def c_sign_def s Let_def split: if_splits)
  then show ?thesis using assms(4) by (simp add: dropWhile_eq_Nil_conv)
qed

lemma parse_server_chars:
  assumes "joan_ntp_parse_server t = Some x" "c \<in> set t"
  shows "server_char c"
proof -
  let ?host = "takeWhile (\<lambda>c. c \<noteq> CHR '':'') t" and ?colon = "dropWhile (\<lambda>c. c \<noteq> CHR '':'') t"
  have "c \<in> set ?host \<or> c \<in> set ?colon" using assms(2) by (metis Un_iff set_append takeWhile_dropWhile_id)
  then show ?thesis
  proof
    assume "c \<in> set ?host"
    moreover obtain a where "inet_pton4 ?host = Some a"
      using assms(1) by (auto simp: joan_ntp_parse_server_def Let_def split: if_splits option.splits prod.splits)
    ultimately show ?thesis using inet_pton4_chars by (auto simp: server_char_def)
  next
    assume c: "c \<in> set ?colon"
    then have ne: "?colon \<noteq> []" by (metis empty_iff empty_set)
    from hd_dropWhile [OF this] have "hd ?colon = CHR '':''" by simp
    then obtain ds where ds: "?colon = CHR '':'' # ds" using ne by (cases ?colon) auto
    then obtain n where "c_strtoul ds = (n, [])" "ds \<noteq> []" "c_isdigit (hd ds)"
      using assms(1) by (auto simp: joan_ntp_parse_server_def Let_def split: if_splits option.splits prod.splits)
    then have "\<forall>c\<in>set ds. c_isdigit c" using strtoul_digits by blast
    moreover have "c = CHR '':'' \<or> c \<in> set ds" using c unfolding ds by simp
    ultimately show ?thesis by (auto simp: server_char_def)
  qed
qed

lemma setting_chars:
  assumes "setting_ok s" "c \<in> set s"
  shows "c \<noteq> CHR 0x0A \<and> c \<noteq> CHR 0x0D \<and> c \<noteq> CHR 0x00"
proof (cases "s = ''gateway''")
  case False
  then obtain x where "joan_ntp_parse_server s = Some x" using assms by (cases s) (auto simp: setting_ok_def)
  from parse_server_chars [OF this assms(2)] show ?thesis by (auto simp: server_char_def c_isdigit_def c_code_def)
qed (use assms(2) in auto)

lemma bytes_of_newlines: "b \<in> set (bytes_of s) \<Longrightarrow> \<forall>c\<in>set s. c \<noteq> CHR 0x0A \<and> c \<noteq> CHR 0x0D \<Longrightarrow> b \<noteq> 10 \<and> b \<noteq> 13"
proof -
  assume "b \<in> set (bytes_of s)" and s: "\<forall>c\<in>set s. c \<noteq> CHR 0x0A \<and> c \<noteq> CHR 0x0D"
  then obtain c where c: "c \<in> set s" "b = of_nat (c_code c)" by (auto simp: bytes_of_def)
  then have e: "char_of (unat b) = c" using chars_of_bytes_of [of "[c]"] by (simp add: chars_of_def bytes_of_def)
  have "char_of (unat (10 :: byte)) = CHR 0x0A" "char_of (unat (13 :: byte)) = CHR 0x0D" by code_simp+
  then show ?thesis using e s c(1) by metis
qed

text \<open>
  C34. A configured server comes back after a restart: once \<open>joan_ntp_configure\<close> has accepted
  a setting, the daemon uses it, with the status of the one before gone, and a daemon that
  starts later reads the same setting from flash, the empty one included.
\<close>

theorem configured_server_survives_restart:
  assumes "joan_ntp_configure env server w = (True, w')"
    and "files v (setting_path env) = files w' (setting_path env)" "env_read env (s_tick v)"
  shows "n_server (ntp w') = server \<and> \<not> ever (ntp w') \<and> n_attempts (ntp w') = 0 \<and> n_server (ntp (load_setting env v)) = server"
proof -
  have ok: "setting_ok server" using assms(1) by (auto simp: joan_ntp_configure_def split: if_splits)
  have n: "n_server (ntp w') = server \<and> \<not> ever (ntp w') \<and> n_attempts (ntp w') = 0"
    using assms(1) by (auto simp: joan_ntp_configure_def split: if_splits prod.splits bool.splits)
  show ?thesis
  proof (cases "server = []")
    case True
    then have "files w' (setting_path env) = None"
      using assms(1) by (auto simp: joan_ntp_configure_def s_next_def file_put_def split: if_splits)
    then show ?thesis using n True assms(2) by (simp add: load_setting_def joan_read_file_def)
  next
    case False
    let ?raw = "bytes_of (server @ [CHR 0x0A])"
    obtain w1 where wr: "joan_write_atomic env (setting_path env) ?raw w = (True, w1)" "files w' = files w1"
      using assms(1) False ok by (auto simp: joan_ntp_configure_def split: prod.splits bool.splits)
    have f: "files v (setting_path env) = Some ?raw" using write_atomic_files [OF wr(1)] wr(2) assms(2) by simp
    have l: "length server < 64" using ok by (simp add: setting_ok_def)
    have nl: "bytes_of [CHR 0x0A] = [10]" by code_simp
    have "b \<noteq> 10 \<and> b \<noteq> 13" if "b \<in> set (rev (bytes_of server))" for b
      using bytes_of_newlines [of b server] setting_chars [OF ok] that by auto
    then have "dropWhile (\<lambda>b. b = 10 \<or> b = 13) (rev (bytes_of server)) = rev (bytes_of server)"
      by (cases "rev (bytes_of server)") simp_all
    then have st: "strip_newlines ?raw = bytes_of server" by (simp add: strip_newlines_def nl)
    have z: "takeWhile (\<lambda>b. b \<noteq> 0) (bytes_of server) = bytes_of server"
      using bytes_of_nonzero [of server] setting_chars [OF ok] by (auto simp: takeWhile_eq_all_conv)
    have "joan_read_file env (setting_path env) 128 v = (Some ?raw, s_next v)"
      using f l assms(3) by (simp add: joan_read_file_def)
    then show ?thesis using n l by (simp add: load_setting_def Let_def st z del: bytes_of_append)
  qed
qed


section \<open>Examples\<close>

definition sample_reply :: "byte list" where
  "sample_reply = [0x24, 2] @ replicate 22 0 @ [1, 2, 3, 4, 5, 6, 7, 8] @ write_be64 (ntp_stamp 1800000005000000) @
     write_be64 (ntp_stamp 1800000005001000)"

definition sample_ntp_env :: ntp_env where
  "sample_ntp_env = \<lparr> env_tmp_suffix = ''1.1'', env_open = \<lambda>k. True, env_write = \<lambda>k n. Some n, env_fsync = \<lambda>k. True,
     env_rename = \<lambda>k. True, env_read = \<lambda>k. True, env_mkdir = \<lambda>k. True, env_random = \<lambda>k n. None,
     ntp_socket = \<lambda>k. None, ntp_connect = \<lambda>k s. None, ntp_wall = \<lambda>k. Some 1800000000000000,
     ntp_origin = \<lambda>k. Some [1, 2, 3, 4, 5, 6, 7, 8], ntp_send = \<lambda>k d. None,
     ntp_waits = \<lambda>k. [(0, Wait_nothing), (10, Wait_received [1] 20), (30, Wait_received sample_reply 4000)],
     ntp_ms = \<lambda>k. k, ntp_unlink = \<lambda>k. True, ntp_quitting = \<lambda>k. False, ntp_changed = \<lambda>k. None,
     oem_running = \<lambda>k. False, helper_ok = \<lambda>k s. True, state_dir = ''/s'', run_dir = ''/r'' \<rparr>"

definition sample_ntp_world :: ntp_world where
  "sample_ntp_world = \<lparr> s_tick = 0, files = (\<lambda>p. None), ntp = \<lparr> n_server = ''10.0.0.1'', n_resolved = [], n_error = [],
     n_attempts = 0, synchronized = False, ever = False, last_sync_ms = 0, last_offset_us = 0 \<rparr>, requests = [], helper_log = [] \<rparr>"

lemma read_be64_at: "length xs = n \<Longrightarrow> read_be64 (xs @ write_be64 v @ r) n = v"
  by (auto simp: read_be64_def read_be32_def write_be64_def write_be32_def nth_append)

lemma sample_reply_fields:
  "length sample_reply = 48" "sample_reply ! 0 = 0x24" "sample_reply ! 1 = 2" "take 8 (drop 24 sample_reply) = [1, 2, 3, 4, 5, 6, 7, 8]"
  "read_be64 sample_reply 32 = ntp_stamp 1800000005000000" "read_be64 sample_reply 40 = ntp_stamp 1800000005001000"
proof -
  have e: "sample_reply = ([0x24, 2] @ replicate 22 0 @ [1, 2, 3, 4, 5, 6, 7, 8]) @ write_be64 (ntp_stamp 1800000005000000) @
      write_be64 (ntp_stamp 1800000005001000) @ []" by (simp add: sample_reply_def)
  have f: "sample_reply = ([0x24, 2] @ replicate 22 0 @ [1, 2, 3, 4, 5, 6, 7, 8] @ write_be64 (ntp_stamp 1800000005000000)) @
      write_be64 (ntp_stamp 1800000005001000) @ []" by (simp add: sample_reply_def)
  show "read_be64 sample_reply 32 = ntp_stamp 1800000005000000" unfolding e by (rule read_be64_at) simp
  show "read_be64 sample_reply 40 = ntp_stamp 1800000005001000" unfolding f by (rule read_be64_at) simp
qed (simp_all add: sample_reply_def)

lemmas sample_reply_facts = sample_reply_fields sample_reply_fields(3) [unfolded One_nat_def]

lemma sample_stamps: "ntp_stamp 1800000005000000 \<noteq> 0" "ntp_stamp 1800000005001000 \<noteq> 0"
  by (simp_all add: ntp_stamp_def)

text \<open>A server that is a second ahead, asked through a round trip of 4 ms.\<close>

lemma ntp_offset_within_half_round_trip_witness:
  "\<exists>offset. joan_ntp_offset sample_reply [1, 2, 3, 4, 5, 6, 7, 8] 1800000003998000 4000 = Some offset \<and>
    \<bar>offset - 1000000\<bar> \<le> 1500"
proof -
  note f = sample_reply_facts
  have "\<exists>offset. joan_ntp_offset sample_reply [1, 2, 3, 4, 5, 6, 7, 8] 1800000003998000 4000 = Some offset \<and>
      2 * \<bar>offset - 1000000\<bar> \<le> int 4000 - (1800000004001000 - 1800000004000000) + 1"
    by (rule ntp_offset_within_half_round_trip) (simp_all add: f sample_stamps)
  then show ?thesis by auto
qed

lemma sample_offset: "joan_ntp_offset sample_reply [1, 2, 3, 4, 5, 6, 7, 8] 1800000000000000 4000 = Some 4998500"
proof -
  have r: "ntp_range 1800000005000000" "ntp_range 1800000005001000" by (simp_all add: ntp_range_def)
  show ?thesis
    by (simp add: joan_ntp_offset_def sample_reply_facts sample_stamps Let_def unix_us_stamp r NTP_MIN_UNIX_def signed_divide_int_def)
qed

lemma clock_follows_an_answer_witness:
  "helper_log (snd (ntp_round sample_ntp_env sample_ntp_world)) \<noteq> [] \<and>
   (\<exists>d. take 8 (drop 24 d) = [1, 2, 3, 4, 5, 6, 7, 8] \<and> (\<exists>now rt. (now, Wait_received d rt) \<in> set (ntp_waits sample_ntp_env 0)))"
proof -
  let ?w = sample_ntp_world
  have p: "joan_ntp_parse_server ''10.0.0.1'' = Some (0x0A000001, 123)" by code_simp
  have rs: "resolve sample_ntp_env ''10.0.0.1'' ?w = (Some (0x0A000001, 123, ''10.0.0.1''), ?w)"
    by (simp add: resolve_def p)
  have t68: "take 68 sample_reply = sample_reply" by (simp add: sample_reply_fields)
  have bad: "joan_ntp_offset [1] x y z = None" for x y z by (simp add: joan_ntp_offset_def)
  have aw: "await_reply [1, 2, 3, 4, 5, 6, 7, 8] 1800000000000000 (ntp_waits sample_ntp_env 0) False = Inr 4998500"
    by (simp add: sample_ntp_env_def NTP_TIMEOUT_MS_def t68 sample_offset bad)
  have ex: "exchange sample_ntp_env (0x0A000001, 123) ?w = (Inr 4998500, (s_next ?w)\<lparr>requests := [ntp_request [1, 2, 3, 4, 5, 6, 7, 8]]\<rparr>)"
    using aw by (simp add: exchange_def Let_def sample_ntp_env_def sample_ntp_world_def s_next_def)
  have n: "n_server (ntp ?w) = ''10.0.0.1''" "helper_log ?w = []" by (simp_all add: sample_ntp_world_def)
  have q: "ntp_quitting sample_ntp_env k = False" "oem_running sample_ntp_env k = False" "ntp_changed sample_ntp_env k = None"
    "ntp_wall sample_ntp_env k = Some 1800000000000000" "helper_ok sample_ntp_env k s = True" for k s
    by (simp_all add: sample_ntp_env_def)
  have lg: "helper_log (snd (ntp_round sample_ntp_env ?w)) \<noteq> helper_log ?w"
    by (simp add: ntp_round_def Let_def n rs ex q settle_def NTP_STEP_US_def step_clock_def run_helper_def)
  obtain i w' where r: "ntp_round sample_ntp_env ?w = (i, w')" by fastforce
  have h: "helper_log w' \<noteq> helper_log ?w" using lg r by simp
  from clock_follows_an_answer [OF r h] obtain k origin d now rt where o: "ntp_origin sample_ntp_env k = Some origin"
    "(now, Wait_received d rt) \<in> set (ntp_waits sample_ntp_env k)" "take 8 (drop 24 d) = origin"
    by (elim exE conjE) (rule that)
  then have "take 8 (drop 24 d) = [1, 2, 3, 4, 5, 6, 7, 8]" by (simp add: sample_ntp_env_def)
  moreover have "ntp_waits sample_ntp_env k = ntp_waits sample_ntp_env 0" by (simp add: sample_ntp_env_def)
  ultimately show ?thesis using o(2) lg n(2) by auto
qed

lemma configured_server_survives_restart_witness:
  "n_server (ntp (load_setting sample_ntp_env (snd (joan_ntp_configure sample_ntp_env ''gateway'' sample_ntp_world)))) = ''gateway''"
proof -
  have "fst (joan_ntp_configure sample_ntp_env ''gateway'' sample_ntp_world)"
    by (simp add: joan_ntp_configure_def setting_ok_def joan_write_atomic_def write_loop.simps sample_ntp_env_def sample_ntp_world_def
        setting_path_def s_next_def file_put_def Let_def bytes_of_def)
  then have c: "joan_ntp_configure sample_ntp_env ''gateway'' sample_ntp_world =
      (True, snd (joan_ntp_configure sample_ntp_env ''gateway'' sample_ntp_world))" by (simp add: prod_eq_iff)
  have r: "env_read sample_ntp_env k" for k by (simp add: sample_ntp_env_def)
  from configured_server_survives_restart [OF c refl r] show ?thesis by simp
qed

end
