(* ===== verification/Media_Update.thy ===== *)
theory Media_Update
  imports C_Strings
begin

text \<open>
  Media updates from the browser (\<open>media/src/update.c\<close>): receiving a package into RAM,
  checking it, applying it, and the clean-up. The package's files are a map from names to
  contents. What the upload delivers, what the system calls answer, and what the two
  programs that are run (the platform's verifier and the package's own script) do come from
  an environment that is indexed by the number of the call; every run of a program is
  logged with the parts of the package as they were.
\<close>

section \<open>Limits and names\<close>

definition HEADER :: nat where "HEADER = 96"
definition IMAGE_BYTES :: nat where "IMAGE_BYTES = 3211264"
definition MANIFEST_MAX :: nat where "MANIFEST_MAX = 8192"
definition SIGNATURE_MAX :: nat where "SIGNATURE_MAX = 256"
definition SCRIPT_MAX :: nat where "SCRIPT_MAX = 32768"
definition STAGED_US :: u64 where "STAGED_US = 900000000"

definition parts :: "string list" where
  "parts = [''release.manifest'', ''release.manifest.sig'', ''upgrade-appfs.sh'', ''apply-media-update.sh'', ''appfs.img'']"

abbreviation MANIFEST :: string where "MANIFEST \<equiv> ''release.manifest''"
abbreviation APPLY :: string where "APPLY \<equiv> ''apply-media-update.sh''"
abbreviation CHECK_OUT :: string where "CHECK_OUT \<equiv> ''check.out''"

section \<open>State\<close>

type_synonym package = "string \<Rightarrow> byte list option"

text \<open>A program that was run, the parts of the package then, and its status or that it goes on.\<close>

datatype run =
    Verifier "byte list option list" int
  | Script string "byte list option list"

record update_env =
  up_pull :: "nat \<Rightarrow> nat \<Rightarrow> byte list"
  up_mkdir :: "nat \<Rightarrow> bool"
  up_open :: "nat \<Rightarrow> bool"
  up_write :: "nat \<Rightarrow> nat \<Rightarrow> nat"
  up_verify :: "nat \<Rightarrow> package \<Rightarrow> int \<times> byte list"
  up_check :: "nat \<Rightarrow> package \<Rightarrow> int \<times> package"
  up_spawn :: "nat \<Rightarrow> int"
  up_ended :: "nat \<Rightarrow> int option"
  up_log :: "nat \<Rightarrow> byte list option"
  up_now :: "nat \<Rightarrow> u64"
  up_errno :: "nat \<Rightarrow> string"

record update_world =
  u_tick :: nat
  pkg :: package
  receiving :: bool
  applying :: int
  staged_at :: u64
  release :: string
  failed :: string
  runs :: "run list"

definition u_next :: "'w update_world_scheme \<Rightarrow> 'w update_world_scheme" where
  "u_next w = w\<lparr>u_tick := Suc (u_tick w)\<rparr>"

definition contents :: "package \<Rightarrow> byte list option list" where
  "contents p = map p parts"

definition wipe :: "'w update_world_scheme \<Rightarrow> 'w update_world_scheme" where
  "wipe w = w\<lparr>pkg := (\<lambda>n. if n \<in> set (CHECK_OUT # parts) then None else pkg w n), release := [], staged_at := 0\<rparr>"

section \<open>Running programs\<close>

text \<open>\<open>verify\<close>: the platform's verifier on the manifest, its signature and the directory.\<close>

definition verify_update :: "update_env \<Rightarrow> 'w update_world_scheme \<Rightarrow> int \<times> 'w update_world_scheme" where
  "verify_update env w =
     (case up_verify env (u_tick w) (pkg w) of (status, out) \<Rightarrow>
        (status, (u_next w)\<lparr>pkg := (pkg w)(CHECK_OUT := Some out), runs := runs w @ [Verifier (contents (pkg w)) status]\<rparr>))"

text \<open>The package's own script with \<open>check\<close>; it may change any file, its output included.\<close>

definition run_check :: "update_env \<Rightarrow> 'w update_world_scheme \<Rightarrow> int \<times> 'w update_world_scheme" where
  "run_check env w =
     (case up_check env (u_tick w) (pkg w) of (status, p) \<Rightarrow>
        (status, (u_next w)\<lparr>pkg := p, runs := runs w @ [Script ''check'' (contents (pkg w))]\<rparr>))"

section \<open>The manifest\<close>

text \<open>A field of the manifest, before its list of files.\<close>

function manifest_field :: "string \<Rightarrow> string \<Rightarrow> nat \<Rightarrow> string option" where
  "manifest_field s key capacity =
     (if s = [] then None
      else
        let line = takeWhile (\<lambda>c. c \<noteq> CHR 0x0A) s; rest = dropWhile (\<lambda>c. c \<noteq> CHR 0x0A) s
        in if take 11 s = ''files-begin'' then None
           else if rest \<noteq> [] \<and> take (length key + 1) line = key @ ''='' then
             (let value = drop (length key + 1) line in if capacity \<le> length value then None else Some value)
           else if rest = [] then None else manifest_field (tl rest) key capacity)"
  by pat_completeness auto
termination
proof (relation "measure (\<lambda>(s, key, capacity). length s)", goal_cases)
  case (2 s key capacity line rest)
  have "length (tl rest) < length rest" using 2 by (cases rest) auto
  also have "length rest \<le> length s" using 2 by (simp add: length_dropWhile_le)
  finally show ?case by simp
qed simp

declare manifest_field.simps [simp del]

definition plain_release :: "string \<Rightarrow> bool" where
  "plain_release t \<longleftrightarrow> length t = 17 \<and> t ! 8 = CHR ''-'' \<and>
     (\<forall>i\<in>{0..<17}. i \<noteq> 8 \<longrightarrow> t ! i \<in> set ''0123456789abcdef'')"

fun contains :: "string \<Rightarrow> string \<Rightarrow> bool" where
  "contains p [] = (p = [])"
| "contains p (c # s) = (take (length p) (c # s) = p \<or> contains p s)"

definition manifest_ok :: "string \<Rightarrow> bool" where
  "manifest_ok m \<longleftrightarrow> manifest_field m ''artifact_kind'' 64 = Some ''media'' \<and>
     manifest_field m ''target_id'' 64 = Some ''jooan-ja-a12-t23n-dual-cv2005-skw6316'' \<and>
     manifest_field m ''device_model'' 64 = Some ''JA-A12'' \<and>
     (\<exists>v\<in>set_option (manifest_field m ''release_version'' 64). plain_release v)"

definition lists_files :: "string \<Rightarrow> bool" where
  "lists_files m \<longleftrightarrow> list_all (\<lambda>p. contains (''  '' @ p @ [CHR 0x0A]) m) (drop 2 parts)"

section \<open>Receiving\<close>

text \<open>What is written of a piece: \<open>write\<close> may take less, and nothing at all when the space is out.\<close>

function write_piece :: "update_env \<Rightarrow> string \<Rightarrow> byte list \<Rightarrow> 'w update_world_scheme \<Rightarrow> bool \<times> 'w update_world_scheme" where
  "write_piece env name d w =
     (if d = [] then (True, w)
      else
        let n = up_write env (u_tick w) (length d)
        in if n = 0 then (False, u_next w)
           else write_piece env name (drop n d)
             ((u_next w)\<lparr>pkg := (pkg w)(name := Some (the (pkg w name) @ take n d))\<rparr>))"
  by pat_completeness auto
termination by (relation "measure (\<lambda>(env, name, d, w). length d)") auto

declare write_piece.simps [simp del]

text \<open>
  The loop of \<open>write_part\<close>: what came with the request first, then what is pulled, in
  pieces of at most 4096 bytes. It returns the status, what is left of the first bytes and
  the world; the message is by the status.
\<close>

function part_loop :: "update_env \<Rightarrow> string \<Rightarrow> nat \<Rightarrow> byte list \<Rightarrow> 'w update_world_scheme
    \<Rightarrow> nat \<times> byte list \<times> 'w update_world_scheme" where
  "part_loop env name todo first w =
     (if todo = 0 then (0, first, w)
      else if first \<noteq> [] then
        (case write_piece env name (take todo first) w of
           (True, w) \<Rightarrow> part_loop env name (todo - length (take todo first)) (drop todo first) w
         | (False, w) \<Rightarrow> (507, drop todo first, w))
      else
        let d = take (min todo 4096) (up_pull env (u_tick w) (min todo 4096))
        in if d = [] then (400, [], u_next w)
           else (case write_piece env name d (u_next w) of
                   (True, w) \<Rightarrow> part_loop env name (todo - length d) [] w
                 | (False, w) \<Rightarrow> (507, [], w)))"
  by pat_completeness auto
termination by (relation "measure (\<lambda>(env, name, todo, first, w). todo)") (auto simp: min_def neq_Nil_conv)

declare part_loop.simps [simp del]

definition write_part :: "update_env \<Rightarrow> string \<Rightarrow> nat \<Rightarrow> byte list \<Rightarrow> 'w update_world_scheme
    \<Rightarrow> nat \<times> byte list \<times> 'w update_world_scheme" where
  "write_part env name todo first w =
     (if \<not> up_open env (u_tick w) then (500, first, u_next w)
      else part_loop env name todo first ((u_next w)\<lparr>pkg := (pkg w)(name := Some [])\<rparr>))"

fun write_parts :: "update_env \<Rightarrow> (string \<times> nat) list \<Rightarrow> byte list \<Rightarrow> 'w update_world_scheme \<Rightarrow> nat \<times> 'w update_world_scheme" where
  "write_parts env [] first w = (0, w)"
| "write_parts env ((name, todo) # ps) first w =
     (case write_part env name todo first w of
        (status, first, w) \<Rightarrow> if status \<noteq> 0 then (status, w) else write_parts env ps first w)"

text \<open>The header: the first bytes of the request, and pulled ones as long as it is short.\<close>

function read_header :: "update_env \<Rightarrow> byte list \<Rightarrow> byte list \<Rightarrow> 'w update_world_scheme
    \<Rightarrow> (byte list \<times> byte list) option \<times> 'w update_world_scheme" where
  "read_header env got first w =
     (if HEADER \<le> length got then (Some (got, first), w)
      else if first \<noteq> [] then
        read_header env (got @ take (HEADER - length got) first) (drop (HEADER - length got) first) w
      else
        let d = take (HEADER - length got) (up_pull env (u_tick w) (HEADER - length got))
        in if d = [] then (None, u_next w) else read_header env (got @ d) [] (u_next w))"
  by pat_completeness auto
termination by (relation "measure (\<lambda>(env, got, first, w). HEADER - length got)") (auto simp: neq_Nil_conv min_def)

declare read_header.simps [simp del]

text \<open>One \<open>%u\<close> of \<open>sscanf\<close>.\<close>

definition scan_unsigned :: "string \<Rightarrow> (nat \<times> string) option" where
  "scan_unsigned s = (case c_strtoul s of (n, r) \<Rightarrow> if r = s then None else Some (n, r))"

fun scan_sizes :: "nat \<Rightarrow> string \<Rightarrow> nat list option" where
  "scan_sizes 0 s = Some []"
| "scan_sizes (Suc k) s =
     (case scan_unsigned s of None \<Rightarrow> None | Some (n, r) \<Rightarrow> map_option ((#) n) (scan_sizes k r))"

definition header_sizes :: "byte list \<Rightarrow> nat list option" where
  "header_sizes header =
     (let s = c_string header
      in if take 10 s = ''JIPCMEDIA1'' \<and> header ! (HEADER - 1) = 10 then scan_sizes 5 (drop 10 s) else None)"

definition sizes_ok :: "nat list \<Rightarrow> nat \<Rightarrow> bool" where
  "sizes_ok ss whole \<longleftrightarrow> length ss = 5 \<and> 0 < ss ! 0 \<and> ss ! 0 \<le> MANIFEST_MAX \<and> 0 < ss ! 1 \<and> ss ! 1 \<le> SIGNATURE_MAX \<and>
     0 < ss ! 2 \<and> ss ! 2 \<le> SCRIPT_MAX \<and> 0 < ss ! 3 \<and> ss ! 3 \<le> SCRIPT_MAX \<and> ss ! 4 = IMAGE_BYTES \<and>
     whole = HEADER + sum_list ss"

text \<open>
  \<open>receive_package\<close>: the status and its message. What comes after the files are written is
  \<open>check_package\<close>: the signature first, then the manifest and the package's own script.
\<close>

definition NOT_MEDIA :: string where "NOT_MEDIA = ''This signed package is not a media release for this camera''"

definition check_package :: "update_env \<Rightarrow> 'w update_world_scheme \<Rightarrow> (nat \<times> string) \<times> 'w update_world_scheme" where
  "check_package env w =
     (case verify_update env w of
        (v, w) \<Rightarrow>
          if v \<noteq> 0 then ((400, ''The signature does not match: this package was not signed for this camera''), w)
          else case pkg w MANIFEST of
            None \<Rightarrow> ((400, NOT_MEDIA), w)
          | Some raw \<Rightarrow>
              let m = c_string (take MANIFEST_MAX raw)
              in if \<not> manifest_ok m then ((400, NOT_MEDIA), w)
                 else if \<not> lists_files m then ((400, ''This signed package does not cover all its files''), w)
                 else case run_check env w of
                   (c, w) \<Rightarrow>
                     if c \<noteq> 0 then
                       (let why = takeWhile (\<lambda>c. c \<noteq> CHR 0x0A) (case pkg w CHECK_OUT of None \<Rightarrow> [] | Some t \<Rightarrow> c_string (take 127 t))
                        in ((409, if why \<noteq> [] then why else ''The package cannot be installed on this camera''), w))
                     else ((200, []),
                       (u_next w)\<lparr>release := take 31 (the (manifest_field m ''release_version'' 64)), staged_at := up_now env (u_tick w)\<rparr>))"

definition receive_package :: "update_env \<Rightarrow> byte list \<Rightarrow> nat \<Rightarrow> 'w update_world_scheme
    \<Rightarrow> (nat \<times> string) \<times> 'w update_world_scheme" where
  "receive_package env first whole w =
     (if whole < HEADER then ((400, ''This is not a media package''), w)
      else case read_header env [] first w of
        (None, w) \<Rightarrow> ((400, ''The upload stopped before the whole package arrived''), w)
      | (Some (header, first), w) \<Rightarrow>
      (case header_sizes header of
         None \<Rightarrow> ((400, ''This is not a media package''), w)
       | Some ss \<Rightarrow>
          if \<not> sizes_ok ss whole then ((400, ''This is not a media package for this camera''), w)
          else if \<not> up_mkdir env (u_tick w) then ((500, ''Cannot keep the package: '' @ up_errno env (u_tick w)), u_next w)
          else case write_parts env (zip parts ss) first (u_next w) of
            (status, w) \<Rightarrow>
              if status \<noteq> 0 then
                ((status, if status = 400 then ''The upload stopped before the whole package arrived''
                          else ''Cannot keep the package: '' @ up_errno env (u_tick w)), w)
              else check_package env w))"

text \<open>
  \<open>jipc_update_receive\<close> in the three pieces that the lock cuts it into: its begin, the upload
  and its checks, without the lock, and its end.
\<close>

definition update_begin :: "'w update_world_scheme \<Rightarrow> (nat \<times> string) option \<times> 'w update_world_scheme" where
  "update_begin w =
     (if receiving w \<or> applying w \<noteq> 0
      then (Some (409, if receiving w then ''Another upload is in progress'' else ''An update is being installed''), w)
      else (None, (wipe (w\<lparr>receiving := True\<rparr>))\<lparr>failed := []\<rparr>))"

definition update_end :: "nat \<Rightarrow> 'w update_world_scheme \<Rightarrow> string \<times> 'w update_world_scheme" where
  "update_end status w =
     (let w = w\<lparr>receiving := False\<rparr>
      in if status \<noteq> 200 then ([], wipe w)
         else (''{'' @ [CHR 0x22] @ ''release'' @ [CHR 0x22] @ '':'' @ [CHR 0x22] @ release w @ [CHR 0x22] @ ''}'' @ [CHR 0x0A], w))"

section \<open>Applying, discarding and cleaning up\<close>

definition jipc_update_apply :: "update_env \<Rightarrow> string \<Rightarrow> 'w update_world_scheme \<Rightarrow> (nat \<times> string) \<times> 'w update_world_scheme" where
  "jipc_update_apply env wanted w =
     (if applying w \<noteq> 0 then ((409, ''An update is being installed''), w)
      else if receiving w then ((409, ''Another upload is in progress''), w)
      else if release w = [] \<or> wanted \<noteq> release w then ((409, ''That package is no longer here: upload it again''), w)
      else case verify_update env w of
        (v, w) \<Rightarrow>
          if v \<noteq> 0 then ((400, ''The package changed since it was checked: upload it again''), wipe w)
          else
            let pid = up_spawn env (u_tick w)
            in if pid < 0
               then ((500, ''Cannot start the update: '' @ up_errno env (u_tick w)), (u_next w)\<lparr>failed := [], applying := 0\<rparr>)
               else ((200, []), (u_next w)\<lparr>failed := [], applying := pid, runs := runs w @ [Script ''apply'' (contents (pkg w))]\<rparr>))"

definition jipc_update_discard :: "'w update_world_scheme \<Rightarrow> 'w update_world_scheme" where
  "jipc_update_discard w = (if \<not> receiving w \<and> applying w = 0 then (wipe w)\<lparr>failed := []\<rparr> else w)"

text \<open>The last place of a text in another, and what follows from there.\<close>

fun last_from :: "string \<Rightarrow> string \<Rightarrow> string option" where
  "last_from p [] = None"
| "last_from p (c # s) =
     (case last_from p s of Some r \<Rightarrow> Some r | None \<Rightarrow> if take (length p) (c # s) = p then Some (c # s) else None)"

text \<open>The script's outcome, if it ended without the camera restarting; 0 is success.\<close>

definition reap :: "update_env \<Rightarrow> 'w update_world_scheme \<Rightarrow> 'w update_world_scheme" where
  "reap env w =
     (if applying w = 0 then w
      else case up_ended env (u_tick w) of
        None \<Rightarrow> u_next w
      | Some status \<Rightarrow>
          let v = (u_next w)\<lparr>applying := 0\<rparr>
          in if status = 0 then v
             else
               let log = (case up_log env (u_tick w) of None \<Rightarrow> [] | Some t \<Rightarrow> c_string (take 4095 t));
                   why = (case last_from ''ABORT'' log of None \<Rightarrow> ''the update script failed'' | Some r \<Rightarrow> r)
               in v\<lparr>failed := takeWhile (\<lambda>c. c \<noteq> CHR 0x0A) (take 150 why)\<rparr>)"

definition jipc_update_tick :: "update_env \<Rightarrow> 'w update_world_scheme \<Rightarrow> 'w update_world_scheme" where
  "jipc_update_tick env w =
     (let w = reap env w
      in if release w \<noteq> [] \<and> applying w = 0 \<and> \<not> receiving w then
           (if STAGED_US < up_now env (u_tick w) - staged_at w then wipe (u_next w) else u_next w)
         else w)"

definition update_state_name :: "'w update_world_scheme \<Rightarrow> string" where
  "update_state_name w =
     (if receiving w then ''receiving'' else if applying w \<noteq> 0 then ''installing''
      else if release w \<noteq> [] then ''staged'' else ''idle'')"

section \<open>The threads together\<close>

text \<open>
  What the threads of the daemon do to the update state, each under the lock: an upload's
  three pieces (\<open>upload\<close> says how far one is), and the other operations at any time between.
\<close>

record update_system = update_world +
  upload :: "nat option option"

inductive update_step :: "update_env \<Rightarrow> update_system \<Rightarrow> update_system \<Rightarrow> bool" for env where
  begin_upload: "update_begin w = (None, w') \<Longrightarrow> update_step env w (w'\<lparr>upload := Some None\<rparr>)"
| run_upload: "upload w = Some None \<Longrightarrow> receive_package env first whole w = ((status, e), w') \<Longrightarrow>
    update_step env w (w'\<lparr>upload := Some (Some status)\<rparr>)"
| end_upload: "upload w = Some (Some status) \<Longrightarrow> update_end status w = (r, w') \<Longrightarrow> update_step env w (w'\<lparr>upload := None\<rparr>)"
| apply_it: "jipc_update_apply env wanted w = (r, w') \<Longrightarrow> update_step env w w'"
| discard_it: "update_step env w (jipc_update_discard w)"
| tick_it: "update_step env w (jipc_update_tick env w)"
| state_asked: "update_step env w (reap env w)"

inductive_cases update_stepE: "update_step env w w'"

inductive update_reachable :: "update_env \<Rightarrow> update_system \<Rightarrow> bool" for env where
  started: "update_reachable env \<lparr> u_tick = 0, pkg = (\<lambda>n. None), receiving = False, applying = 0, staged_at = 0,
     release = [], failed = [], runs = [], upload = None \<rparr>"
| stepped: "update_reachable env w \<Longrightarrow> update_step env w w' \<Longrightarrow> update_reachable env w'"

end
