(* ===== verification/Update_Safety.thy ===== *)
theory Update_Safety
  imports Media_Update
begin

text \<open>
  What media updates promise: no script of a package runs before the verifier accepted the
  same files, and nothing of a package stays in RAM when none is staged.
\<close>

section \<open>What the parts of an upload touch\<close>

lemma u_next_simps [simp]:
  "pkg (u_next w) = pkg w" "receiving (u_next w) = receiving w" "applying (u_next w) = applying w" "release (u_next w) = release w"
  "runs (u_next w) = runs w" "staged_at (u_next w) = staged_at w" "update_world.more (u_next w) = update_world.more w"
  by (simp_all add: u_next_def)

text \<open>Everything but the files and the number of the next call.\<close>

definition rest_of :: "'w update_world_scheme \<Rightarrow> bool \<times> int \<times> u64 \<times> string \<times> string \<times> run list \<times> 'w" where
  "rest_of w = (receiving w, applying w, staged_at w, release w, failed w, runs w, update_world.more w)"

lemma rest_of_update [simp]:
  "rest_of (u_next w) = rest_of w" "rest_of (w\<lparr>pkg := p\<rparr>) = rest_of w"
  by (simp_all add: rest_of_def u_next_def)

lemma write_piece_rest: "write_piece env name d w = (r, w') \<Longrightarrow> rest_of w' = rest_of w"
proof (induction env name d w arbitrary: r w' rule: write_piece.induct)
  case (1 env name d w)
  show ?case
  proof (cases "d = [] \<or> up_write env (u_tick w) (length d) = 0")
    case True
    then show ?thesis using "1.prems" by (auto simp: write_piece.simps [of env name d w] Let_def split: if_splits)
  next
    case False
    with "1.prems" have "write_piece env name (drop (up_write env (u_tick w) (length d)) d)
        ((u_next w)\<lparr>pkg := (pkg w)(name := Some (the (pkg w name) @ take (up_write env (u_tick w) (length d)) d))\<rparr>) = (r, w')"
      by (simp add: write_piece.simps [of env name d w] Let_def)
    from "1.IH" [OF _ refl _ this] False show ?thesis by simp
  qed
qed

lemma part_loop_rest: "part_loop env name n first w = (r, f, w') \<Longrightarrow> rest_of w' = rest_of w \<and> r \<noteq> 200"
proof (induction env name n first w arbitrary: r f w' rule: part_loop.induct)
  case (1 env name n first w)
  note e = part_loop.simps [of env name n first w]
  show ?case
  proof (cases "n = 0")
    case True
    then show ?thesis using "1.prems" unfolding e by simp
  next
    case n: False
    show ?thesis
    proof (cases "first = []")
      case False
      obtain ok w1 where p: "write_piece env name (take n first) w = (ok, w1)" by fastforce
      show ?thesis
      proof (cases ok)
        case True
        then have l: "part_loop env name (n - length (take n first)) (drop n first) w1 = (r, f, w')"
          using "1.prems" n False p by (simp add: e)
        from "1.IH"(1) [OF n False p [symmetric] _ l] True write_piece_rest [OF p] show ?thesis by simp
      next
        case no: False
        then show ?thesis using "1.prems" n False p write_piece_rest [OF p] by (simp add: e)
      qed
    next
      case first: True
      define d where "d = take (min n 4096) (up_pull env (u_tick w) (min n 4096))"
      obtain ok w1 where p: "write_piece env name d (u_next w) = (ok, w1)" by fastforce
      show ?thesis
      proof (cases "d = [] \<or> \<not> ok")
        case True
        then show ?thesis using "1.prems" n first p write_piece_rest [OF p]
          unfolding e by (auto simp: d_def [symmetric] Let_def split: if_splits)
      next
        case False
        then have l: "part_loop env name (n - length d) [] w1 = (r, f, w')"
          using "1.prems" n first p unfolding e by (simp add: d_def [symmetric] Let_def)
        from "1.IH"(2) [OF n _ d_def _ p [symmetric] _ l] first False write_piece_rest [OF p] show ?thesis by simp
      qed
    qed
  qed
qed

lemma write_parts_rest: "write_parts env ps first w = (r, w') \<Longrightarrow> rest_of w' = rest_of w \<and> r \<noteq> 200"
proof (induction env ps first w arbitrary: r w' rule: write_parts.induct)
  case (2 env name n ps first w)
  obtain s f w1 where p: "write_part env name n first w = (s, f, w1)" by (metis prod_cases3)
  have "rest_of w1 = rest_of w \<and> s \<noteq> 200"
    using p by (auto simp: write_part_def dest: part_loop_rest split: if_splits)
  with 2 show ?case by (cases "s = 0") (auto simp: p)
qed simp

lemma read_header_rest: "read_header env got first w = (r, w') \<Longrightarrow> rest_of w' = rest_of w"
proof (induction env got first w arbitrary: r w' rule: read_header.induct)
  case (1 env got first w)
  note e = read_header.simps [of env got first w]
  show ?case
  proof (cases "HEADER \<le> length got")
    case True
    then show ?thesis using "1.prems" by (simp add: e)
  next
    case h: False
    show ?thesis
    proof (cases "first = []")
      case False
      with h "1.prems" have "read_header env (got @ take (HEADER - length got) first) (drop (HEADER - length got) first) w = (r, w')"
        by (simp add: e)
      from "1.IH"(1) [OF h False this] show ?thesis .
    next
      case first: True
      define d where "d = take (HEADER - length got) (up_pull env (u_tick w) (HEADER - length got))"
      show ?thesis
      proof (cases "d = []")
        case True
        then show ?thesis using "1.prems" h first unfolding e by (auto simp: d_def [symmetric] Let_def)
      next
        case False
        then have "read_header env (got @ d) [] (u_next w) = (r, w')"
          using "1.prems" h first unfolding e by (simp add: d_def [symmetric] Let_def)
        from "1.IH"(2) [OF h _ d_def False this] first show ?thesis by simp
      qed
    qed
  qed
qed

section \<open>The log of programs\<close>

text \<open>Every script comes right after the verifier accepted the same parts.\<close>

definition log_ok :: "run list \<Rightarrow> bool" where
  "log_ok l \<longleftrightarrow> (\<forall>i a p. i < length l \<and> l ! i = Script a p \<longrightarrow> 0 < i \<and> l ! (i - 1) = Verifier p 0)"

lemma log_ok_Nil [simp]: "log_ok []"
  by (simp add: log_ok_def)

lemma log_ok_verifier: "log_ok l \<Longrightarrow> log_ok (l @ [Verifier p s])"
  by (auto simp: log_ok_def nth_append less_Suc_eq)

lemma log_ok_script: "log_ok (l @ [Verifier p 0]) \<Longrightarrow> log_ok (l @ [Verifier p 0, Script a p])"
proof -
  let ?l = "l @ [Verifier p 0]"
  assume ok: "log_ok ?l"
  have "0 < i \<and> (?l @ [Script a p]) ! (i - 1) = Verifier q 0"
    if i: "i < length (?l @ [Script a p])" "(?l @ [Script a p]) ! i = Script b q" for i b q
  proof (cases "i < length ?l")
    case True
    then have "?l ! i = Script b q" using i(2) by (simp only: nth_append if_True)
    with ok True have "0 < i" "?l ! (i - 1) = Verifier q 0" unfolding log_ok_def by blast+
    moreover have "i - 1 < length ?l" using True by simp
    ultimately show ?thesis by (simp only: nth_append if_True)
  next
    case False
    then have "i = length ?l" using i(1) by simp
    then show ?thesis using i(2) by (simp add: nth_append)
  qed
  then have "log_ok (?l @ [Script a p])" unfolding log_ok_def by blast
  then show ?thesis by simp
qed

lemma contents_out [simp]: "contents (p(CHECK_OUT := v)) = contents p"
  by (simp add: contents_def parts_def)

lemma verify_update_cases:
  assumes "verify_update env w = (v, w')"
  obtains out where "w' = (u_next w)\<lparr>pkg := (pkg w)(CHECK_OUT := Some out), runs := runs w @ [Verifier (contents (pkg w)) v]\<rparr>"
  using assms by (auto simp: verify_update_def split: prod.splits)


section \<open>A whole upload\<close>

lemma check_package_effect:
  assumes "check_package env w = ((status, e), w')"
  shows "receiving w' = receiving w \<and> applying w' = applying w \<and> update_world.more w' = update_world.more w \<and>
    (log_ok (runs w) \<longrightarrow> log_ok (runs w')) \<and>
    (if status = 200 then plain_release (release w') else release w' = release w)"
proof -
  obtain v w1 where v: "verify_update env w = (v, w1)" by fastforce
  then obtain out where w1: "w1 = (u_next w)\<lparr>pkg := (pkg w)(CHECK_OUT := Some out), runs := runs w @ [Verifier (contents (pkg w)) v]\<rparr>"
    by (rule verify_update_cases)
  have one: "receiving w1 = receiving w \<and> applying w1 = applying w \<and> update_world.more w1 = update_world.more w \<and>
    (log_ok (runs w) \<longrightarrow> log_ok (runs w1)) \<and> release w1 = release w" by (simp add: w1 log_ok_verifier)
  note eq = assms [unfolded check_package_def v prod.case]
  show ?thesis
  proof (cases "\<exists>raw. v = 0 \<and> pkg w1 MANIFEST = Some raw \<and> manifest_ok (c_string (take MANIFEST_MAX raw)) \<and>
      lists_files (c_string (take MANIFEST_MAX raw))")
    case False
    then have "w' = w1 \<and> status \<noteq> 200" using eq by (auto simp: Let_def split: if_splits option.splits)
    then show ?thesis using one by simp
  next
    case True
    then obtain raw where raw: "v = 0" "pkg w1 MANIFEST = Some raw" "manifest_ok (c_string (take MANIFEST_MAX raw))"
      "lists_files (c_string (take MANIFEST_MAX raw))" by blast
    obtain c w2 where c: "run_check env w1 = (c, w2)" by fastforce
    then obtain p where w2: "w2 = (u_next w1)\<lparr>pkg := p, runs := runs w1 @ [Script ''check'' (contents (pkg w1))]\<rparr>"
      by (auto simp: run_check_def split: prod.splits)
    have two: "receiving w2 = receiving w \<and> applying w2 = applying w \<and> update_world.more w2 = update_world.more w \<and>
      (log_ok (runs w) \<longrightarrow> log_ok (runs w2)) \<and> release w2 = release w"
      using log_ok_script [OF log_ok_verifier] by (simp add: w2 w1 raw(1))
    obtain r where r: "manifest_field (c_string (take MANIFEST_MAX raw)) ''release_version'' 64 = Some r" "plain_release r"
      using raw(3) by (auto simp: manifest_ok_def)
    have "length r = 17" using r(2) by (simp add: plain_release_def)
    then show ?thesis using eq two r raw by (auto simp: c Let_def split: if_splits)
  qed
qed

text \<open>
  An upload changes the files, the log (which stays in order) and, if it succeeds, the
  staged release; otherwise the release is what it was.
\<close>

lemma receive_package_effect:
  assumes "receive_package env first whole w = ((status, e), w')"
  shows "receiving w' = receiving w \<and> applying w' = applying w \<and> update_world.more w' = update_world.more w \<and>
    (log_ok (runs w) \<longrightarrow> log_ok (runs w')) \<and>
    (if status = 200 then plain_release (release w') else release w' = release w)"
proof -
  have keep: ?thesis if "rest_of w' = rest_of w" "status \<noteq> 200"
    using that by (simp add: rest_of_def)
  have later: ?thesis if "rest_of v = rest_of w" "check_package env v = ((status, e), w')" for v
    using check_package_effect [OF that(2)] that(1) by (auto simp: rest_of_def)
  obtain hd1 w1 where h: "read_header env [] first w = (hd1, w1)" by fastforce
  have r1: "rest_of w1 = rest_of w" by (rule read_header_rest [OF h])
  note eq = assms [unfolded receive_package_def h prod.case]
  show ?thesis
  proof (cases "\<exists>hdr f1 ss. hd1 = Some (hdr, f1) \<and> header_sizes hdr = Some ss \<and> HEADER \<le> whole \<and> sizes_ok ss whole \<and> up_mkdir env (u_tick w1)")
    case False
    then have "rest_of w' = rest_of w \<and> status \<noteq> 200" using eq r1 by (auto split: if_splits option.splits)
    then show ?thesis using keep by blast
  next
    case True
    then obtain hdr f1 ss where c: "hd1 = Some (hdr, f1)" "header_sizes hdr = Some ss" "\<not> whole < HEADER" "sizes_ok ss whole"
      "up_mkdir env (u_tick w1)" by (auto simp: not_less)
    obtain st w2 where p: "write_parts env (zip parts ss) f1 (u_next w1) = (st, w2)" by fastforce
    have r2: "rest_of w2 = rest_of w" using write_parts_rest [OF p] r1 by simp
    show ?thesis
    proof (cases "st = 0")
      case True
      then have "check_package env w2 = ((status, e), w')" using eq c p by simp
      then show ?thesis by (rule later [OF r2])
    next
      case False
      then have "w' = w2" "status = st" using eq c p by auto
      moreover have "st \<noteq> 200" using write_parts_rest [OF p] by simp
      ultimately show ?thesis using keep r2 by simp
    qed
  qed
qed


section \<open>What the threads keep\<close>

definition clean :: "package \<Rightarrow> bool" where
  "clean p \<longleftrightarrow> (\<forall>n\<in>set (CHECK_OUT # parts). p n = None)"

lemma wipe_simps [simp]:
  "clean (pkg (wipe w))" "release (wipe w) = []" "receiving (wipe w) = receiving w" "applying (wipe w) = applying w"
  "runs (wipe w) = runs w" "update_world.more (wipe w) = update_world.more w"
  by (simp_all add: wipe_def clean_def)

text \<open>
  The flag says whether an upload is under way, nothing is applied during one, a release is
  staged only by a whole upload, and without a staged release no file is left.
\<close>

definition update_ok :: "update_system \<Rightarrow> bool" where
  "update_ok w \<longleftrightarrow> (receiving w \<longleftrightarrow> upload w \<noteq> None) \<and> (receiving w \<longrightarrow> applying w = 0) \<and> log_ok (runs w) \<and>
     (release w \<noteq> [] \<longrightarrow> plain_release (release w) \<and> upload w \<in> {None, Some (Some 200)}) \<and>
     (upload w = Some (Some 200) \<longrightarrow> release w \<noteq> []) \<and>
     (release w = [] \<and> upload w = None \<longrightarrow> clean (pkg w))"

lemma more_upload: "update_world.more v = update_world.more (w :: update_system) \<Longrightarrow> upload v = upload (w :: update_system)"
  by (cases v; cases w) simp

lemma reap_fields [simp]:
  "receiving (reap env w) = receiving w" "release (reap env w) = release w" "runs (reap env w) = runs w" "pkg (reap env w) = pkg w"
  "update_world.more (reap env w) = update_world.more w" "applying w = 0 \<Longrightarrow> applying (reap env w) = 0"
  by (simp_all add: reap_def Let_def split: option.splits)

lemma upload_fields [simp]:
  "upload (u_next w) = upload w" "upload (wipe w) = upload w" "upload (reap env w) = upload w"
  by (simp_all add: u_next_def wipe_def reap_def Let_def split: option.splits)

lemma plain_release_nonempty: "plain_release r \<Longrightarrow> r \<noteq> []"
  by (auto simp: plain_release_def)

lemma update_ok_reap: "update_ok w \<Longrightarrow> update_ok (reap env w)"
  by (auto simp: update_ok_def)

lemma apply_effect:
  assumes "jipc_update_apply env wanted w = ((status, e), w')"
  shows "w' = w \<or> (release w \<noteq> [] \<and> \<not> receiving w \<and> applying w = 0 \<and> wanted = release w \<and>
    receiving w' = receiving w \<and> update_world.more w' = update_world.more w \<and> (log_ok (runs w) \<longrightarrow> log_ok (runs w')) \<and>
    (release w' = [] \<and> clean (pkg w') \<or> release w' = release w))"
proof -
  obtain v w1 where v: "verify_update env w = (v, w1)" by fastforce
  then obtain out where w1: "w1 = (u_next w)\<lparr>pkg := (pkg w)(CHECK_OUT := Some out), runs := runs w @ [Verifier (contents (pkg w)) v]\<rparr>"
    by (rule verify_update_cases)
  have lo: "log_ok (runs w) \<Longrightarrow> log_ok (runs w1)" by (simp add: w1 log_ok_verifier)
  have ls: "log_ok (runs w) \<Longrightarrow> v = 0 \<Longrightarrow> log_ok (runs w1 @ [Script ''apply'' (contents (pkg w1))])"
    using log_ok_script [OF log_ok_verifier, of "runs w" "contents (pkg w)"] by (simp add: w1)
  note eq = assms [unfolded jipc_update_apply_def v prod.case]
  show ?thesis
  proof (cases "applying w \<noteq> 0 \<or> receiving w \<or> release w = [] \<or> wanted \<noteq> release w")
    case True
    then show ?thesis using eq by (auto split: if_splits)
  next
    case False
    then show ?thesis
      using eq lo ls by (cases "v = 0"; cases "up_spawn env (u_tick w1) < 0") (auto simp: w1 Let_def)
  qed
qed

lemma update_ok_step: "update_step env w w' \<Longrightarrow> update_ok w \<Longrightarrow> update_ok w'"
proof (induction rule: update_step.induct)
  case (begin_upload w w')
  then have "\<not> receiving w" "applying w = 0" "w' = (wipe (w\<lparr>receiving := True\<rparr>))\<lparr>failed := []\<rparr>"
    by (auto simp: update_begin_def split: if_splits)
  then show ?case using begin_upload.prems by (auto simp: update_ok_def)
next
  case (run_upload w first whole status e w')
  from receive_package_effect [OF run_upload.hyps(2)] run_upload.hyps(1) run_upload.prems more_upload [of w' w]
  show ?case by (auto simp: update_ok_def dest: plain_release_nonempty split: if_splits)
next
  case (end_upload w status r w')
  then show ?case by (auto simp: update_end_def Let_def update_ok_def split: if_splits)
next
  case (apply_it wanted w r w')
  obtain status e where "r = (status, e)" by fastforce
  with apply_effect [of env wanted w status e w'] apply_it more_upload [of w' w] show ?case by (auto simp: update_ok_def)
next
  case (discard_it w)
  then show ?case by (auto simp: jipc_update_discard_def update_ok_def)
next
  case (tick_it w)
  then have "update_ok (reap env w)" by (rule update_ok_reap)
  moreover have "update_ok (u_next v)" "\<not> receiving v \<Longrightarrow> applying v = 0 \<Longrightarrow> update_ok (wipe (u_next v))" if "update_ok v" for v
    using that by (auto simp: update_ok_def)
  ultimately show ?case by (simp add: jipc_update_tick_def Let_def)
next
  case (state_asked w)
  then show ?case by (rule update_ok_reap)
qed


lemma update_ok_reachable: "update_reachable env w \<Longrightarrow> update_ok w"
proof (induction rule: update_reachable.induct)
  case started
  then show ?case by (simp add: update_ok_def clean_def)
qed (blast intro: update_ok_step)

text \<open>
  C2. Nothing of a package runs before its signature has been checked. However uploads,
  requests to apply or discard, and the clean-up come, every script that was run came right
  after the verifier had accepted the very same manifest, signature, scripts and image; and
  a request to apply that is granted names the staged release, while no package is coming in
  and no other one is being installed.
\<close>

theorem nothing_runs_unverified:
  assumes "update_reachable env w"
  shows "(\<forall>i < length (runs w). \<forall>a p. runs w ! i = Script a p \<longrightarrow> 0 < i \<and> runs w ! (i - 1) = Verifier p 0) \<and>
    (\<forall>wanted. fst (fst (jipc_update_apply env wanted w)) = 200 \<longrightarrow>
       wanted = release w \<and> plain_release wanted \<and> \<not> receiving w \<and> applying w = 0)"
proof -
  have ok: "update_ok w" using assms by (rule update_ok_reachable)
  have "wanted = release w \<and> plain_release wanted \<and> \<not> receiving w \<and> applying w = 0"
    if "fst (fst (jipc_update_apply env wanted w)) = 200" for wanted
    using that ok by (auto simp: jipc_update_apply_def update_ok_def split: if_splits)
  moreover have "log_ok (runs w)" using ok by (simp add: update_ok_def)
  ultimately show ?thesis unfolding log_ok_def by blast
qed



section \<open>Examples\<close>

definition sample_manifest :: string where
  "sample_manifest = ''artifact_kind=media'' @ [CHR 0x0A] @ ''target_id=jooan-ja-a12-t23n-dual-cv2005-skw6316'' @ [CHR 0x0A] @ ''device_model=JA-A12'' @ [CHR 0x0A] @ ''release_version=20260101-0123abcd'' @ [CHR 0x0A] @ ''files-begin'' @ [CHR 0x0A] @ ''  upgrade-appfs.sh'' @ [CHR 0x0A] @ ''  apply-media-update.sh'' @ [CHR 0x0A] @ ''  appfs.img'' @ [CHR 0x0A]"

definition sample_header :: "byte list" where
  "sample_header = bytes_of (''JIPCMEDIA1 189 1 1 1 3211264'' @ replicate 67 (CHR '' '') @ [CHR 0x0A])"

definition sample_update_env :: update_env where
  "sample_update_env = \<lparr> up_pull = \<lambda>k n. if k = 0 then sample_header
       else if k = 3 then bytes_of sample_manifest else replicate n 0,
     up_mkdir = \<lambda>k. True, up_open = \<lambda>k. True, up_write = \<lambda>k n. n, up_verify = \<lambda>k p. (0, []), up_check = \<lambda>k p. (0, p),
     up_spawn = \<lambda>k. 77, up_ended = \<lambda>k. None, up_log = \<lambda>k. None, up_now = \<lambda>k. 0, up_errno = \<lambda>k. [] \<rparr>"

definition sample_update :: update_system where
  "sample_update = \<lparr> u_tick = 0, pkg = (\<lambda>n. None), receiving = False, applying = 0, staged_at = 0,
     release = [], failed = [], runs = [], upload = None \<rparr>"

lemma sample_calls [simp]:
  "up_write sample_update_env k n = n" "up_open sample_update_env k" "up_mkdir sample_update_env k"
  "up_verify sample_update_env k p = (0, [])" "up_check sample_update_env k p = (0, p)" "up_spawn sample_update_env k = 77"
  by (simp_all add: sample_update_env_def)

lemma sample_manifest_length: "length sample_manifest = 189"
  by (simp add: sample_manifest_def)

lemma sample_manifest_ok: "manifest_ok sample_manifest" "manifest_field sample_manifest ''release_version'' 64 = Some ''20260101-0123abcd''"
  "lists_files sample_manifest"
proof -
  have f: "manifest_field sample_manifest ''artifact_kind'' 64 = Some ''media''"
    "manifest_field sample_manifest ''target_id'' 64 = Some ''jooan-ja-a12-t23n-dual-cv2005-skw6316''"
    "manifest_field sample_manifest ''device_model'' 64 = Some ''JA-A12''"
    "manifest_field sample_manifest ''release_version'' 64 = Some ''20260101-0123abcd''"
    unfolding sample_manifest_def by (simp_all add: manifest_field.simps)
  have "plain_release ''20260101-0123abcd''" by code_simp
  then show "manifest_ok sample_manifest" "manifest_field sample_manifest ''release_version'' 64 = Some ''20260101-0123abcd''"
    by (simp_all add: manifest_ok_def f)
  show "lists_files sample_manifest" unfolding sample_manifest_def by (simp add: lists_files_def parts_def)
qed

lemma sample_write_piece: "write_piece sample_update_env name d w =
    (True, if d = [] then w else (u_next w)\<lparr>pkg := (pkg w)(name := Some (the (pkg w name) @ d))\<rparr>)"
  by (simp add: write_piece.simps [of _ _ d] write_piece.simps [of _ _ "[]"] Let_def)

text \<open>After the fourth call every pull gives as many zeros as are asked for.\<close>

lemma sample_part_loop: "3 < u_tick w \<Longrightarrow> \<exists>w'. part_loop sample_update_env name n [] w = (0, [], w') \<and> 3 < u_tick w' \<and>
    (\<forall>m. m \<noteq> name \<longrightarrow> pkg w' m = pkg w m)"
proof (induction n arbitrary: w rule: less_induct)
  case (less n)
  show ?case
  proof (cases "n = 0")
    case True
    then show ?thesis using less.prems by (simp add: part_loop.simps [of _ _ 0])
  next
    case False
    have d: "take (min n 4096) (up_pull sample_update_env (u_tick w) (min n 4096)) = replicate (min n 4096) 0"
      using less.prems by (simp add: sample_update_env_def)
    let ?d = "replicate (min n 4096) (0 :: byte)"
    let ?w = "(u_next (u_next w))\<lparr>pkg := (pkg w)(name := Some (the (pkg w name) @ ?d))\<rparr>"
    have "n - length ?d < n" "3 < u_tick ?w" using False less.prems by (auto simp: u_next_def)
    from less.IH [OF this] obtain w' where w': "part_loop sample_update_env name (n - length ?d) [] ?w = (0, [], w')" "3 < u_tick w'"
      "\<forall>m. m \<noteq> name \<longrightarrow> pkg w' m = pkg ?w m" by blast
    have z: "(min n 4096 = 0) = False" using False by simp
    then have "part_loop sample_update_env name n [] w = part_loop sample_update_env name (n - length ?d) [] ?w"
      using False unfolding part_loop.simps [of _ _ n] d by (simp add: Let_def sample_write_piece z)
    then show ?thesis using w' by auto
  qed
qed

lemma sample_write_part: "3 < u_tick w \<Longrightarrow> \<exists>w'. write_part sample_update_env name n [] w = (0, [], w') \<and> 3 < u_tick w' \<and>
    (\<forall>m. m \<noteq> name \<longrightarrow> pkg w' m = pkg w m)"
  using sample_part_loop [of "(u_next w)\<lparr>pkg := (pkg w)(name := Some [])\<rparr>" name n]
  by (force simp: write_part_def u_next_def)

lemma sample_write_parts: "3 < u_tick w \<Longrightarrow> MANIFEST \<notin> fst ` set ps \<Longrightarrow>
    \<exists>w'. write_parts sample_update_env ps [] w = (0, w') \<and> pkg w' MANIFEST = pkg w MANIFEST"
proof (induction ps arbitrary: w)
  case (Cons p ps)
  obtain name n where p: "p = (name, n)" by fastforce
  obtain v where v: "write_part sample_update_env name n [] w = (0, [], v)" "3 < u_tick v" "pkg v MANIFEST = pkg w MANIFEST"
    using sample_write_part [OF Cons.prems(1), of name n] Cons.prems(2) by (auto simp: p)
  from Cons.IH [OF v(2)] Cons.prems(2) obtain w' where "write_parts sample_update_env ps [] v = (0, w')" "pkg w' MANIFEST = pkg v MANIFEST"
    by auto
  then show ?case using v by (simp add: p)
qed simp


lemma sample_header_sizes: "length sample_header = 96" "header_sizes sample_header = Some [189, 1, 1, 1, 3211264]"
proof -
  let ?t = "''JIPCMEDIA1 189 1 1 1 3211264'' @ replicate 67 (CHR '' '') @ [CHR 0x0A]"
  have c: "c_string sample_header = ?t" unfolding sample_header_def by (rule c_string_bytes_of) auto
  have n: "sample_header ! 95 = 10" by (simp add: sample_header_def bytes_of_def c_code_def nth_append)
  note d = scan_unsigned_def c_strtoul_def c_sign_def c_isspace_def c_isdigit_def c_code_def Let_def
  have s1: "scan_unsigned ('' 189 1 1 1 3211264'' @ r) = Some (189, '' 1 1 1 3211264'' @ r)" for r by (simp add: d)
  have s2: "scan_unsigned ('' 1 1 1 3211264'' @ r) = Some (1, '' 1 1 3211264'' @ r)" for r by (simp add: d)
  have s3: "scan_unsigned ('' 1 1 3211264'' @ r) = Some (1, '' 1 3211264'' @ r)" for r by (simp add: d)
  have s4: "scan_unsigned ('' 1 3211264'' @ r) = Some (1, '' 3211264'' @ r)" for r by (simp add: d)
  have s5: "scan_unsigned ('' 3211264'' @ replicate 67 (CHR '' '') @ [CHR 0x0A]) = Some (3211264, replicate 67 (CHR '' '') @ [CHR 0x0A])"
    by (simp add: d takeWhile_append dropWhile_append replicate.simps(2) [of 66] flip: Suc_numeral)
  have five: "5 = Suc (Suc (Suc (Suc (Suc 0))))" by simp
  have sc: "scan_sizes 5 ('' 189 1 1 1 3211264'' @ replicate 67 (CHR '' '') @ [CHR 0x0A]) = Some [189, 1, 1, 1, 3211264]"
    by (simp only: five scan_sizes.simps s1 s2 s3 s4 s5 option.case prod.case option.map)
  show "length sample_header = 96" by (simp add: sample_header_def)
  show "header_sizes sample_header = Some [189, 1, 1, 1, 3211264]" unfolding header_sizes_def c using n sc by (simp add: HEADER_def)
qed

lemma sample_received:
  assumes "u_tick w = 0"
  shows "\<exists>w'. receive_package sample_update_env [] 3211552 w = ((200, []), w') \<and> release w' = ''20260101-0123abcd'' \<and>
    runs w' \<noteq> [] \<and> receiving w' = receiving w \<and> applying w' = applying w"
proof -
  let ?env = sample_update_env
  have "up_pull ?env 0 96 = sample_header" by (simp add: sample_update_env_def)
  moreover have "sample_header \<noteq> []" using sample_header_sizes(1) by auto
  ultimately have h: "read_header ?env [] [] w = (Some (sample_header, []), u_next w)"
    using assms sample_header_sizes(1) by (simp add: read_header.simps [of _ "[]"] read_header.simps [of _ sample_header] HEADER_def Let_def)
  have m: "\<exists>v. write_part ?env MANIFEST 189 [] (u_next (u_next w)) = (0, [], v) \<and> 3 < u_tick v \<and> pkg v MANIFEST = Some (bytes_of sample_manifest)"
  proof -
    have "up_pull ?env (Suc (Suc (Suc 0))) 189 = bytes_of sample_manifest" "sample_manifest \<noteq> []" by (simp_all add: sample_update_env_def sample_manifest_def)
    then show ?thesis using assms sample_manifest_length
      by (simp add: write_part_def part_loop.simps [of _ _ 189] part_loop.simps [of _ _ 0] sample_write_piece Let_def u_next_def bytes_of_def)
  qed
  then obtain v where v: "write_part ?env MANIFEST 189 [] (u_next (u_next w)) = (0, [], v)" "3 < u_tick v"
    "pkg v MANIFEST = Some (bytes_of sample_manifest)" by blast
  obtain w2 where w2: "write_parts ?env (zip (tl parts) [1, 1, 1, 3211264]) [] v = (0, w2)" "pkg w2 MANIFEST = Some (bytes_of sample_manifest)"
    using sample_write_parts [OF v(2), of "zip (tl parts) [1, 1, 1, 3211264]"] v(3) by (auto simp: parts_def)
  have z: "zip parts [189, 1, 1, 1, 3211264] = (MANIFEST, 189) # zip (tl parts) [1, 1, 1, 3211264]" by (simp add: parts_def)
  have wp: "write_parts ?env (zip parts [189, 1, 1, 1, 3211264]) [] (u_next (u_next w)) = (0, w2)" unfolding z using v(1) w2(1) by simp
  have so: "sizes_ok [189, 1, 1, 1, 3211264] 3211552"
    by (simp add: sizes_ok_def MANIFEST_MAX_def SIGNATURE_MAX_def SCRIPT_MAX_def IMAGE_BYTES_def HEADER_def)
  have rp: "receive_package ?env [] 3211552 w = check_package ?env w2"
    using so wp by (simp add: receive_package_def h sample_header_sizes HEADER_def)
  have cs: "c_string (take MANIFEST_MAX (bytes_of sample_manifest)) = sample_manifest"
    using c_string_bytes_of [of sample_manifest] sample_manifest_length
    by (simp add: MANIFEST_MAX_def) (simp add: sample_manifest_def)
  have "\<exists>w'. check_package ?env w2 = ((200, []), w') \<and> release w' = ''20260101-0123abcd'' \<and> runs w' \<noteq> []"
    by (simp add: check_package_def verify_update_def run_check_def w2(2) cs sample_manifest_ok Let_def)
  then obtain w' where w': "check_package ?env w2 = ((200, []), w')" "release w' = ''20260101-0123abcd''" "runs w' \<noteq> []" by blast
  from receive_package_effect [of ?env "[]" 3211552 w 200 "[]" w'] w' rp show ?thesis by auto
qed

text \<open>A signed package that is uploaded whole and applied: both its runs follow an accepted check.\<close>

lemma sample_applied:
  "\<exists>w. update_reachable sample_update_env w \<and> release w = ''20260101-0123abcd'' \<and> runs w \<noteq> [] \<and> upload w = None \<and> applying w = 0"
proof -
  let ?env = sample_update_env
  define w0 where "w0 = (wipe (sample_update\<lparr>receiving := True\<rparr>))\<lparr>failed := [], upload := Some None\<rparr>"
  have "update_reachable ?env sample_update" unfolding sample_update_def by (rule update_reachable.started)
  moreover have "update_begin sample_update = (None, (wipe (sample_update\<lparr>receiving := True\<rparr>))\<lparr>failed := []\<rparr>)"
    by (simp add: update_begin_def sample_update_def)
  ultimately have r0: "update_reachable ?env w0"
    unfolding w0_def using update_reachable.stepped update_step.begin_upload by fastforce
  have "u_tick w0 = 0" "receiving w0" "applying w0 = 0" "upload w0 = Some None" by (simp_all add: w0_def wipe_def sample_update_def)
  with sample_received [of w0] obtain w1 where w1: "receive_package ?env [] 3211552 w0 = ((200, []), w1)" "release w1 = ''20260101-0123abcd''"
    "runs w1 \<noteq> []" "applying w1 = 0" by auto
  have r1: "update_reachable ?env (w1\<lparr>upload := Some (Some 200)\<rparr>)"
    using update_reachable.stepped [OF r0 update_step.run_upload [OF \<open>upload w0 = Some None\<close> w1(1)]] .
  obtain t w2 where e: "update_end 200 (w1\<lparr>upload := Some (Some 200)\<rparr>) = (t, w2)" by fastforce
  have "update_reachable ?env (w2\<lparr>upload := None\<rparr>)"
    by (rule update_reachable.stepped [OF r1]) (rule update_step.end_upload [OF _ e], simp)
  then show ?thesis using e w1 by (intro exI [of _ "w2\<lparr>upload := None\<rparr>"]) (auto simp: update_end_def Let_def)
qed

lemma nothing_runs_unverified_witness:
  "\<exists>w p. update_reachable sample_update_env w \<and> fst (fst (jipc_update_apply sample_update_env ''20260101-0123abcd'' w)) = 200 \<and>
    plain_release ''20260101-0123abcd'' \<and>
    (\<forall>a p. last (runs w) = Script a p \<longrightarrow> runs w ! (length (runs w) - 2) = Verifier p 0)"
proof -
  obtain w where w: "update_reachable sample_update_env w" "release w = ''20260101-0123abcd''" "runs w \<noteq> []" "upload w = None" "applying w = 0"
    using sample_applied by blast
  have "\<not> receiving w" using update_ok_reachable [OF w(1)] w(4) by (simp add: update_ok_def)
  then have a: "fst (fst (jipc_update_apply sample_update_env ''20260101-0123abcd'' w)) = 200"
    using w by (simp add: jipc_update_apply_def verify_update_def Let_def)
  from nothing_runs_unverified [OF w(1)] have t: "\<forall>i < length (runs w). \<forall>a p. runs w ! i = Script a p \<longrightarrow> 0 < i \<and> runs w ! (i - 1) = Verifier p 0"
    and q: "plain_release ''20260101-0123abcd''" using a by blast+
  have "runs w ! (length (runs w) - 2) = Verifier p 0" if "last (runs w) = Script b p" for b p
    using t [rule_format, of "length (runs w) - 1" b p] that w(3) by (simp add: last_conv_nth numeral_2_eq_2 diff_diff_eq)
  then show ?thesis using w(1) a q by blast
qed


end
