(* ===== verification/Media_Streams.thy ===== *)
theory Media_Streams
  imports Rtp
begin

text \<open>
  The frame rings of the media daemon (\<open>media/src/media.c\<close>): publishing a frame, holding
  the pictures back while the lens is covered for privacy, reading with a cursor, the
  parameter sets of a stream, and the check that pictures keep coming. A mutex makes each
  operation one step; the condition a reader waits for is a list of the states it wakes in.
  The level meter that a published audio frame feeds is a statistic that nothing here reads.
\<close>

section \<open>State\<close>

definition JIPC_VIDEO_STREAMS :: nat where "JIPC_VIDEO_STREAMS = 4"
definition JIPC_AUDIO_STREAM :: nat where "JIPC_AUDIO_STREAM = 4"
definition JIPC_STREAMS :: nat where "JIPC_STREAMS = 5"
definition JIPC_RING_MAX :: nat where "JIPC_RING_MAX = 32"
definition JIPC_VIDEO_RING :: nat where "JIPC_VIDEO_RING = 4"
definition JIPC_AUDIO_RING :: nat where "JIPC_AUDIO_RING = 32"
definition JIPC_MAX_FRAME :: nat where "JIPC_MAX_FRAME = 1024 * 1024"
definition PARAMETER_SET_MAX :: nat where "PARAMETER_SET_MAX = 512"

lemmas jipc_numbers = JIPC_VIDEO_STREAMS_def JIPC_AUDIO_STREAM_def JIPC_STREAMS_def JIPC_RING_MAX_def
  JIPC_VIDEO_RING_def JIPC_AUDIO_RING_def

text \<open>A slot that nothing has been published to is \<open>None\<close>: its data is the null pointer.\<close>

record stream =
  slots :: "frame option list"
  ring_capacity :: nat
  st_sequence :: u64
  sps :: "byte list"
  pps :: "byte list"

record media =
  streams :: "stream list"
  produced :: "u64 list"
  privacy_hold :: bool
  privacy_wait_key :: u32
  video_grace_until :: u64
  app_stop :: bool
  backend_ready :: bool

definition stream_init :: "nat \<Rightarrow> stream" where
  "stream_init i =
     \<lparr> slots = replicate JIPC_RING_MAX None,
       ring_capacity = (if i = JIPC_AUDIO_STREAM then JIPC_AUDIO_RING else JIPC_VIDEO_RING),
       st_sequence = 0, sps = [], pps = [] \<rparr>"

definition jipc_streams_init :: "media" where
  "jipc_streams_init =
     \<lparr> streams = map stream_init [0..<JIPC_STREAMS], produced = replicate JIPC_STREAMS 0,
       privacy_hold = False, privacy_wait_key = 0, video_grace_until = 0, app_stop = False,
       backend_ready = True \<rparr>"

section \<open>Access units\<close>

text \<open>Where the next start code begins and where its unit does; the end of the data for none.\<close>

function annexb_next :: "byte list \<Rightarrow> nat \<Rightarrow> nat \<times> nat" where
  "annexb_next d i =
     (if length d < i + 3 then (length d, length d)
      else if d ! i \<noteq> 0 \<or> d ! (i + 1) \<noteq> 0 then annexb_next d (i + 1)
      else if d ! (i + 2) = 1 then (i, i + 3)
      else if i + 4 \<le> length d \<and> d ! (i + 2) = 0 \<and> d ! (i + 3) = 1 then (i, i + 4)
      else annexb_next d (i + 1))"
  by pat_completeness auto
termination by (relation "measure (\<lambda>(d, i). length d + 3 - i)") auto

declare annexb_next.simps [simp del]

text \<open>The start code search of the RTSP server finds the same places.\<close>

lemma annexb_next_start_code: "annexb_next d i = (let (j, p) = start_code d i in (j, j + p))"
proof (induction d i rule: annexb_next.induct)
  case (1 d i)
  show ?case
    using "1.IH" by (subst annexb_next.simps, subst start_code.simps) (simp add: Let_def)
qed

lemma annexb_next_after: "annexb_next d i = (j, k) \<Longrightarrow> i < length d \<Longrightarrow> i < k \<and> i \<le> j \<and> j \<le> length d \<and> k \<le> length d"
  using start_code_range [of d i]
  by (cases "start_code d i"; cases "snd (start_code d i) = 0") (auto simp: annexb_next_start_code)

definition keep_parameters :: "byte \<Rightarrow> byte list \<Rightarrow> stream \<Rightarrow> stream" where
  "keep_parameters type nal s =
     (if type = 7 \<and> length nal \<le> PARAMETER_SET_MAX then s\<lparr>sps := nal\<rparr>
      else if type = 8 \<and> length nal \<le> PARAMETER_SET_MAX then s\<lparr>pps := nal\<rparr>
      else s)"

definition trim_nal :: "byte list \<Rightarrow> byte list" where
  "trim_nal n = rev (dropWhile (\<lambda>b. b = 0) (rev n))"

function parameter_units ::
  "byte list \<Rightarrow> nat \<Rightarrow> nat \<Rightarrow> bool \<Rightarrow> stream option \<Rightarrow> bool \<times> stream option" where
  "parameter_units d start payload idr s =
     (if start < length d \<and> payload < length d then
        let (next, next_payload) = annexb_next d payload;
            nal = trim_nal (take (next - payload) (drop payload d));
            type = d ! payload AND 31
        in parameter_units d next next_payload (type = 5 \<or> idr) (map_option (keep_parameters type nal) s)
      else (idr, s))"
  by pat_completeness auto
termination
  by (relation "measure (\<lambda>(d, start, payload, idr, s). length d - payload)")
    (auto dest!: annexb_next_after [OF sym])

declare parameter_units.simps [simp del]

definition stream_parameters :: "stream option \<Rightarrow> byte list \<Rightarrow> bool \<times> stream option" where
  "stream_parameters s d = (let (start, payload) = annexb_next d 0 in parameter_units d start payload False s)"

section \<open>Publishing\<close>

text \<open>The stream whose encoder makes the pictures of a channel (\<open>config.c\<close>).\<close>

definition jipc_video_owner :: "bool \<Rightarrow> nat \<Rightarrow> nat" where
  "jipc_video_owner main_only ch = (if main_only \<and> ch < JIPC_VIDEO_STREAMS then ch - ch mod 2 else ch)"

text \<open>\<open>memory\<close> says whether the copy of the frame could be allocated.\<close>

definition put_frame :: "byte list \<Rightarrow> u64 \<Rightarrow> bool \<Rightarrow> codec \<Rightarrow> stream \<Rightarrow> stream" where
  "put_frame d pts key codec s =
     (let number = st_sequence s + 1
      in s\<lparr>st_sequence := number,
           slots := (slots s)[unat (number - 1) mod ring_capacity s :=
             Some \<lparr>f_data = d, pts_us = pts, f_sequence = number, keyframe = key, f_codec = codec\<rparr>]\<rparr>)"

definition jipc_publish ::
  "bool \<Rightarrow> nat \<Rightarrow> byte list \<Rightarrow> u64 \<Rightarrow> bool \<Rightarrow> codec \<Rightarrow> media \<Rightarrow> bool \<times> media" where
  "jipc_publish memory chan d pts key codec m =
     (if JIPC_STREAMS \<le> chan \<or> d = [] \<or> JIPC_MAX_FRAME < length d \<or> \<not> memory \<or>
         ring_capacity (streams m ! chan) = 0 then (False, m)
      else
        let s = streams m ! chan;
            (idr, kept) = (if codec = H264 then stream_parameters (Some s) d else (False, Some s));
            s = put_frame d pts (idr \<or> key) codec (the kept)
        in (True, m\<lparr>streams := (streams m)[chan := s], produced := (produced m)[chan := st_sequence s]\<rparr>))"

text \<open>A picture that is held back still leaves its parameter sets.\<close>

definition held_parameters :: "byte list \<Rightarrow> nat \<Rightarrow> stream list \<Rightarrow> stream list" where
  "held_parameters d ch ss =
     (if ring_capacity (ss ! ch) = 0 then ss
      else ss[ch := the (snd (stream_parameters (Some (ss ! ch)) d))])"

definition jipc_publish_video ::
  "bool \<times> bool \<Rightarrow> nat \<Rightarrow> bool \<Rightarrow> byte list \<Rightarrow> u64 \<Rightarrow> bool \<Rightarrow> media \<Rightarrow> bool \<times> media" where
  "jipc_publish_video memory source main_only d pts key m =
     (if JIPC_VIDEO_STREAMS \<le> source \<or> (main_only \<and> odd source) then (False, m)
      else if privacy_hold m then
        (True, m\<lparr>privacy_wait_key := set_bit source (privacy_wait_key m),
                  streams := (if main_only then held_parameters d (source + 1) else id)
                    (held_parameters d source (streams m))\<rparr>)
      else if bit (privacy_wait_key m) source \<and> \<not> fst (stream_parameters None d) then (True, m)
      else
        let m = m\<lparr>privacy_wait_key := unset_bit source (privacy_wait_key m)\<rparr>
        in case jipc_publish (fst memory) source d pts key H264 m of
             (False, m) \<Rightarrow> (False, m)
           | (True, m) \<Rightarrow>
               if main_only then jipc_publish (snd memory) (source + 1) d pts key H264 m else (True, m))"

text \<open>The pictures of the first \<open>n\<close> streams are at most fifteen seconds old.\<close>

definition fresh_picture :: "u64 \<Rightarrow> stream \<Rightarrow> bool" where
  "fresh_picture now s =
     (let stamp = (if st_sequence s = 0 then 0
                   else case slots s ! (unat (st_sequence s - 1) mod ring_capacity s) of
                          None \<Rightarrow> 0 | Some f \<Rightarrow> pts_us f)
      in \<not> (stamp = 0 \<or> now < stamp \<or> 15000000 < now - stamp))"

definition jipc_video_healthy :: "nat \<Rightarrow> u64 \<Rightarrow> media \<Rightarrow> bool \<times> media" where
  "jipc_video_healthy n now m =
     (if privacy_hold m then (True, m\<lparr>video_grace_until := now + 15000000\<rparr>)
      else (list_all (\<lambda>i. fresh_picture now (streams m ! i)) [0..<n] \<or> now < video_grace_until m, m))"

section \<open>Reading\<close>

datatype wait_end = Timed_out | Wait_failed

text \<open>The frame after the cursor, or the oldest one kept, once there is something to read.\<close>

definition take_frame :: "bool \<Rightarrow> nat \<Rightarrow> u64 \<Rightarrow> media \<Rightarrow> int \<times> u64 \<times> frame option" where
  "take_frame memory chan cur m =
     (let s = streams m ! chan
      in if st_sequence s = 0 \<or> st_sequence s \<le> cur then (0, cur, None)
         else
           let oldest = (if of_nat (ring_capacity s) < st_sequence s
                         then st_sequence s - of_nat (ring_capacity s) + 1 else 1);
               wanted = (if cur \<noteq> 0 then cur + 1 else st_sequence s);
               wanted = (if wanted < oldest then oldest else wanted)
           in if \<not> memory then (-1, cur, None)
              else (1, wanted, slots s ! (unat (wanted - 1) mod ring_capacity s)))"

fun jipc_read ::
  "bool \<Rightarrow> nat \<Rightarrow> u64 \<Rightarrow> nat \<Rightarrow> wait_end \<Rightarrow> media list \<Rightarrow> media \<Rightarrow> int \<times> u64 \<times> frame option" where
  "jipc_read memory chan cur timeout_ms ending wakes m =
     (if JIPC_STREAMS \<le> chan then (-1, cur, None)
      else if st_sequence (streams m ! chan) \<le> cur \<and> \<not> app_stop m then
        if timeout_ms = 0 then (0, cur, None)
        else case wakes of
               [] \<Rightarrow> (if ending = Timed_out then 0 else -1, cur, None)
             | m' # wakes \<Rightarrow> jipc_read memory chan cur timeout_ms ending wakes m'
      else take_frame memory chan cur m)"

declare jipc_read.simps [simp del]

text \<open>The sizes are told in either case.\<close>

definition jipc_codec_parameters ::
  "nat \<Rightarrow> nat \<Rightarrow> nat \<Rightarrow> media \<Rightarrow> (byte list \<times> byte list) option \<times> nat \<times> nat" where
  "jipc_codec_parameters chan sps_max pps_max m =
     (if JIPC_VIDEO_STREAMS \<le> chan then (None, sps_max, pps_max)
      else
        let s = streams m ! chan
        in (if sps s = [] \<or> pps s = [] \<or> sps_max < length (sps s) \<or> pps_max < length (pps s) then None
            else Some (sps s, pps s), length (sps s), length (pps s)))"

section \<open>The daemon's threads on the rings\<close>

text \<open>
  The backend publishes video until a publication fails, which stops it; the microphone
  thread publishes audio; the controls cover and uncover; the watchdog asks for health.
\<close>

datatype media_event =
    Video_in "bool \<times> bool" nat bool "byte list" u64 bool
  | Audio_in bool "byte list" u64
  | Privacy bool
  | Watchdog nat u64
  | App_stop

definition media_step :: "media \<Rightarrow> media_event \<Rightarrow> media" where
  "media_step m e =
     (case e of
        Video_in memory source main_only d pts key \<Rightarrow>
          if \<not> backend_ready m then m
          else case jipc_publish_video memory source main_only d pts key m of
                 (ok, m) \<Rightarrow> if ok then m else m\<lparr>backend_ready := False\<rparr>
      | Audio_in memory d pts \<Rightarrow> snd (jipc_publish memory JIPC_AUDIO_STREAM d pts True PCMA m)
      | Privacy hold \<Rightarrow> m\<lparr>privacy_hold := hold\<rparr>
      | Watchdog n now \<Rightarrow> snd (jipc_video_healthy n now m)
      | App_stop \<Rightarrow> m\<lparr>app_stop := True\<rparr>)"

end
