(* ===== verification/Media_Rings.thy ===== *)
theory Media_Rings
  imports Media_Streams
begin

text \<open>
  What the operations on the frame rings do: which access units count as an IDR picture,
  the frames a ring holds of its history, what a reader is given, and the streams each
  publication touches.
\<close>

section \<open>Which access units hold an IDR picture\<close>

definition code_at :: "byte list \<Rightarrow> nat \<Rightarrow> bool" where
  "code_at d i = (i + 3 \<le> length d \<and> d ! i = 0 \<and> d ! (i + 1) = 0 \<and> d ! (i + 2) = 1)"

definition shows_idr :: "byte list \<Rightarrow> bool" where
  "shows_idr d = list_ex (\<lambda>i. code_at d i \<and> i + 3 < length d \<and> d ! (i + 3) AND 31 = 5) [0..<length d]"

lemma code_at_apart: "code_at d i \<Longrightarrow> \<not> code_at d (i + 1) \<and> \<not> code_at d (i + 2)"
  by (auto simp: code_at_def)

lemma from_next: "\<not> code_at d p \<Longrightarrow> (\<forall>i\<ge>p. code_at d i \<longrightarrow> P i) = (\<forall>i\<ge>p + 1. code_at d i \<longrightarrow> P i)" for p :: nat
  by (metis Suc_eq_plus1 Suc_leD not_less_eq_eq le_antisym)

lemma annexb_next_code:
  "annexb_next d p = (j, k) \<Longrightarrow>
     (j = length d \<and> k = length d \<and> (\<forall>i\<ge>p. code_at d i \<longrightarrow> False)) \<or>
     (j < length d \<and> p + 3 \<le> k \<and> k \<le> length d \<and> code_at d (k - 3) \<and> (\<forall>i\<ge>p. code_at d i \<longrightarrow> i = k - 3 \<or> k \<le> i))"
proof (induction d p arbitrary: j k rule: annexb_next.induct)
  case (1 d p)
  note s = "1.prems" [unfolded annexb_next.simps [of d p]]
  consider (short) "length d < p + 3" | (other) "\<not> length d < p + 3" "d ! p \<noteq> 0 \<or> d ! (p + 1) \<noteq> 0"
    | (three) "\<not> length d < p + 3" "\<not> (d ! p \<noteq> 0 \<or> d ! (p + 1) \<noteq> 0)" "d ! (p + 2) = 1"
    | (four) "\<not> length d < p + 3" "\<not> (d ! p \<noteq> 0 \<or> d ! (p + 1) \<noteq> 0)" "d ! (p + 2) \<noteq> 1"
      "p + 4 \<le> length d \<and> d ! (p + 2) = 0 \<and> d ! (p + 3) = 1"
    | (none) "\<not> length d < p + 3" "\<not> (d ! p \<noteq> 0 \<or> d ! (p + 1) \<noteq> 0)" "d ! (p + 2) \<noteq> 1"
      "\<not> (p + 4 \<le> length d \<and> d ! (p + 2) = 0 \<and> d ! (p + 3) = 1)" by blast
  then show ?case
  proof cases
    case short
    then show ?thesis using s by (auto simp: code_at_def)
  next
    case other
    have not: "\<not> code_at d p" using other by (auto simp: code_at_def)
    have "annexb_next d (p + 1) = (j, k)" using s other by (simp only: if_False if_True simp_thms)
    from "1.IH"(1) [OF other this] show ?thesis unfolding from_next [OF not] by auto
  next
    case three
    have jk: "j = p" "k = p + 3" using s three by auto
    have c: "code_at d p" using three by (simp add: code_at_def)
    have "i = p \<or> p + 3 \<le> i" if "p \<le> i" "code_at d i" for i
      using code_at_apart [OF c] that by (cases "i = p + 1 \<or> i = p + 2") auto
    then show ?thesis using jk c three by auto
  next
    case four
    have jk: "j = p" "k = p + 4" using s four by auto
    have c: "code_at d (p + 1)" using four by (simp add: code_at_def numeral_eq_Suc)
    have "\<not> code_at d p" using four by (simp add: code_at_def)
    then have "i = p + 1 \<or> p + 4 \<le> i" if "p \<le> i" "code_at d i" for i
      using code_at_apart [OF c] that by (cases "i = p + 2 \<or> i = p + 3 \<or> i = p") (auto simp: numeral_eq_Suc)
    then show ?thesis using jk c four by auto
  next
    case none
    have not: "\<not> code_at d p" using none by (simp add: code_at_def)
    have "annexb_next d (p + 1) = (j, k)" using s none by (simp only: if_False if_True simp_thms)
    from "1.IH"(2) [OF none this] show ?thesis unfolding from_next [OF not] by auto
  qed
qed

definition idr_from :: "byte list \<Rightarrow> nat \<Rightarrow> bool" where
  "idr_from d p = (\<exists>i\<ge>p. code_at d i \<and> i + 3 < length d \<and> d ! (i + 3) AND 31 = 5)"

lemma idr_from_next:
  assumes "annexb_next d p = (j, k)"
  shows "idr_from d p = (j < length d \<and> k < length d \<and> (d ! k AND 31 = 5 \<or> idr_from d k))"
proof -
  consider (none) "j = length d" "k = length d" "\<forall>i\<ge>p. code_at d i \<longrightarrow> False"
    | (code) "j < length d" "p + 3 \<le> k" "k \<le> length d" "code_at d (k - 3)" "\<forall>i\<ge>p. code_at d i \<longrightarrow> i = k - 3 \<or> k \<le> i"
    using annexb_next_code [OF assms] by blast
  then show ?thesis
  proof cases
    case none
    then show ?thesis by (auto simp: idr_from_def)
  next
    case code
    have k: "k - 3 + 3 = k" "p \<le> k - 3" using code(2) by auto
    have "idr_from d p \<longleftrightarrow> (k < length d \<and> d ! k AND 31 = 5) \<or> idr_from d k" (is "?l \<longleftrightarrow> ?r")
    proof
      assume ?l
      then obtain i where "p \<le> i" "code_at d i" "i + 3 < length d" "d ! (i + 3) AND 31 = 5"
        by (auto simp: idr_from_def)
      with code(5) k show ?r by (auto simp: idr_from_def)
    next
      assume ?r
      then show ?l
      proof
        assume "k < length d \<and> d ! k AND 31 = 5"
        then show ?l unfolding idr_from_def using code(4) k by (intro exI [of _ "k - 3"]) auto
      next
        assume "idr_from d k"
        then obtain i where "k \<le> i" "code_at d i" "i + 3 < length d" "d ! (i + 3) AND 31 = 5"
          by (auto simp: idr_from_def)
        then show ?l unfolding idr_from_def using code(2) by (intro exI [of _ i]) auto
      qed
    qed
    moreover have "idr_from d k \<Longrightarrow> k < length d" by (auto simp: idr_from_def)
    ultimately show ?thesis using code(1) by blast
  qed
qed

definition same_ring :: "stream \<Rightarrow> stream \<Rightarrow> bool" where
  "same_ring s s' = (slots s' = slots s \<and> ring_capacity s' = ring_capacity s \<and> st_sequence s' = st_sequence s)"

lemma same_ring_refl [simp]: "same_ring s s"
  by (simp add: same_ring_def)

lemma same_ring_keep: "same_ring s s' \<Longrightarrow> same_ring s (keep_parameters type nal s')"
  by (simp add: same_ring_def keep_parameters_def)

lemma parameter_units_idr:
  "fst (parameter_units d start payload idr s) =
     (idr \<or> (start < length d \<and> payload < length d \<and> (d ! payload AND 31 = 5 \<or> idr_from d payload)))"
proof (induction d start payload idr s rule: parameter_units.induct)
  case (1 d start payload idr s)
  obtain j k where n: "annexb_next d payload = (j, k)" by fastforce
  show ?case
  proof (cases "start < length d \<and> payload < length d")
    case True
    from "1.IH" [OF True n [symmetric] refl refl refl]
    show ?thesis using True n idr_from_next [OF n] by (subst parameter_units.simps) (auto simp: Let_def)
  qed (subst parameter_units.simps, auto)
qed

lemma parameter_units_ring:
  "same_ring s0 s \<Longrightarrow> \<exists>s'. snd (parameter_units d start payload idr (Some s)) = Some s' \<and> same_ring s0 s'"
proof (induction d start payload idr "Some s" arbitrary: s rule: parameter_units.induct)
  case (1 d start payload idr)
  show ?case
  proof (cases "start < length d \<and> payload < length d")
    case True
    obtain j k where n: "annexb_next d payload = (j, k)" by fastforce
    from "1.hyps" [OF True n [symmetric] refl refl refl _ same_ring_keep [OF "1.prems"]]
    show ?thesis using True n by (subst parameter_units.simps) (simp add: Let_def)
  next
    case False
    then show ?thesis using "1.prems" by (subst parameter_units.simps) auto
  qed
qed

lemma shows_idr_from: "shows_idr d = idr_from d 0"
  by (auto simp: shows_idr_def idr_from_def list_ex_iff Bex_def) (metis add_lessD1)

lemma stream_parameters_idr: "fst (stream_parameters s d) = shows_idr d"
  by (cases "annexb_next d 0")
    (simp add: stream_parameters_def parameter_units_idr shows_idr_from idr_from_next)

lemma stream_parameters_ring:
  "\<exists>s'. stream_parameters (Some s) d = (shows_idr d, Some s') \<and> same_ring s s'"
  using parameter_units_ring [of s s d] stream_parameters_idr [of "Some s" d]
  by (cases "annexb_next d 0"; cases "stream_parameters (Some s) d")
    (simp add: stream_parameters_def, metis snd_conv)


section \<open>The ring keeps the last frames of its history\<close>

definition ring :: "stream \<Rightarrow> frame list \<Rightarrow> bool" where
  "ring s h = (0 < ring_capacity s \<and> ring_capacity s \<le> length (slots s) \<and> ring_capacity s < 2 ^ 64 \<and>
     length h < 2 ^ 64 \<and> st_sequence s = of_nat (length h) \<and>
     (\<forall>i<length h. f_sequence (h ! i) = of_nat (Suc i)) \<and>
     (\<forall>i<length h. length h \<le> i + ring_capacity s \<longrightarrow> slots s ! (i mod ring_capacity s) = Some (h ! i)))"

lemma unat_length: "n < 2 ^ 64 \<Longrightarrow> unat (of_nat n :: u64) = n"
  by (simp add: unat_of_nat take_bit_nat_eq_self)

lemma ring_unat: "ring s h \<Longrightarrow> unat (st_sequence s) = length h"
  by (simp add: ring_def unat_length)

lemma ring_init: "i < JIPC_STREAMS \<Longrightarrow> ring (stream_init i) []"
  by (simp add: ring_def stream_init_def jipc_numbers)

lemma ring_same: "same_ring s s' \<Longrightarrow> ring s h \<Longrightarrow> ring s' h"
  by (simp add: same_ring_def ring_def)

lemma other_slot:
  fixes i n c :: nat
  assumes "i < n" "n < i + c"
  shows "i mod c \<noteq> n mod c"
proof
  assume "i mod c = n mod c"
  then have "c dvd n - i" using assms(1) mod_eq_dvd_iff_nat [of i n c] by simp
  then show False using assms by (simp add: nat_dvd_not_less)
qed

lemma ring_put:
  assumes r: "ring s h" and n: "Suc (length h) < 2 ^ 64"
  shows "ring (put_frame d pts key codec s)
     (h @ [\<lparr>f_data = d, pts_us = pts, f_sequence = of_nat (Suc (length h)), keyframe = key, f_codec = codec\<rparr>])"
    (is "ring ?s (h @ [?f])")
proof -
  let ?c = "ring_capacity s"
  have seq: "st_sequence s = of_nat (length h)" using r by (simp add: ring_def)
  have s: "slots ?s = (slots s)[length h mod ?c := Some ?f]" "ring_capacity ?s = ?c"
    "st_sequence ?s = of_nat (Suc (length h))"
    using n by (simp_all add: put_frame_def Let_def seq unat_length add.commute)
  have c: "0 < ?c" "?c \<le> length (slots s)" "?c < 2 ^ 64" using r by (simp_all add: ring_def)
  have at: "length h mod ?c < length (slots s)" using c by (meson mod_less_divisor order_less_le_trans)
  have "slots ?s ! (i mod ?c) = Some ((h @ [?f]) ! i)"
    if i: "i < Suc (length h)" "Suc (length h) \<le> i + ?c" for i
  proof (cases "i = length h")
    case True
    then show ?thesis using at s by simp
  next
    case False
    then have "i < length h" "length h < i + ?c" using i by auto
    with other_slot [of i "length h" ?c] r show ?thesis by (simp add: s nth_append ring_def)
  qed
  moreover have "f_sequence ((h @ [?f]) ! i) = of_nat (Suc i)" if "i < Suc (length h)" for i
    using r that by (cases "i = length h") (auto simp: nth_append ring_def)
  ultimately show ?thesis using n c by (simp add: ring_def s)
qed

text \<open>What a reader is given: the frame after its cursor, or the oldest the ring still has.\<close>

lemma take_frame_none: "st_sequence (streams m ! ch) \<le> cur \<Longrightarrow> take_frame ok ch cur m = (0, cur, None)"
  by (simp add: take_frame_def)

definition next_index :: "nat \<Rightarrow> nat \<Rightarrow> nat \<Rightarrow> nat" where
  "next_index cap n cur = (if cur = 0 then n - 1 else max cur (n - cap))"

lemma take_frame_ring:
  assumes r: "ring (streams m ! ch) h" and cur: "unat cur < length h"
  defines "i \<equiv> next_index (ring_capacity (streams m ! ch)) (length h) (unat cur)"
  shows "take_frame True ch cur m = (1, of_nat (Suc i), Some (h ! i))"
    and "take_frame False ch cur m = (-1, cur, None)" and "i < length h" and "unat cur \<le> i"
proof -
  let ?s = "streams m ! ch"
  have c: "0 < ring_capacity ?s" "ring_capacity ?s < 2 ^ 64" and n: "length h < 2 ^ 64"
    and seq: "st_sequence ?s = of_nat (length h)"
    using r by (simp_all add: ring_def)
  show i: "i < length h" "unat cur \<le> i"
    using cur c by (auto simp: i_def next_index_def)
  have some: "\<not> (st_sequence ?s = 0 \<or> st_sequence ?s \<le> cur)"
  proof -
    have "length h \<noteq> 0" using cur by linarith
    then show ?thesis using cur n by (simp add: seq word_le_nat_alt unat_length flip: unat_eq_zero)
  qed
  show "take_frame False ch cur m = (-1, cur, None)"
    using some by (simp add: take_frame_def Let_def)
  define oldest :: u64 where "oldest = (if of_nat (ring_capacity ?s) < st_sequence ?s
    then st_sequence ?s - of_nat (ring_capacity ?s) + 1 else 1)"
  define wanted where "wanted = (if cur \<noteq> 0 then cur + 1 else st_sequence ?s)"
  have o: "unat oldest = Suc (length h - ring_capacity ?s)"
  proof (cases "ring_capacity ?s < length h")
    case True
    have "oldest = of_nat (Suc (length h - ring_capacity ?s))"
      using True c n by (simp add: oldest_def seq word_less_nat_alt unat_length of_nat_diff)
    then show ?thesis using n True c by (simp add: unat_length del: of_nat_Suc)
  next
    case False
    then show ?thesis using c n by (simp add: oldest_def seq word_less_nat_alt unat_length)
  qed
  have w: "unat wanted = (if unat cur = 0 then length h else Suc (unat cur))"
  proof (cases "cur = 0")
    case False
    have "cur + 1 = of_nat (Suc (unat cur))" by simp
    then have "unat (cur + 1) = Suc (unat cur)" using cur n by (simp add: unat_length del: of_nat_Suc)
    with False show ?thesis by (simp add: wanted_def unat_eq_zero)
  next
    case True
    then show ?thesis using unat_length [OF n] by (simp add: wanted_def seq)
  qed
  have "unat (if wanted < oldest then oldest else wanted) = Suc i"
    using cur c by (auto simp: word_less_nat_alt o w i_def next_index_def)
  from arg_cong [OF this, where f = "of_nat :: nat \<Rightarrow> u64"]
  have wd: "(if wanted < oldest then oldest else wanted) = of_nat (Suc i)"
    by (simp del: of_nat_Suc)
  have slot: "slots ?s ! (i mod ring_capacity ?s) = Some (h ! i)"
    using r i cur by (auto simp: ring_def i_def next_index_def)
  show "take_frame True ch cur m = (1, of_nat (Suc i), Some (h ! i))"
    unfolding take_frame_def Let_def if_not_P [OF some] oldest_def [symmetric] wanted_def [symmetric] wd
    using slot i n by (simp add: unat_length)
qed


section \<open>What each operation does to a stream\<close>

text \<open>What an event hands to a channel: the data, its stamp, and whether it is a keyframe.\<close>

definition offered :: "nat \<Rightarrow> media_event \<Rightarrow> (byte list \<times> u64 \<times> bool) list" where
  "offered ch e =
     (case e of
        Video_in memory source main_only d pts key \<Rightarrow>
          if source < 4 \<and> (ch = source \<or> main_only \<and> ch = source + 1) then [(d, pts, shows_idr d \<or> key)] else []
      | Audio_in memory d pts \<Rightarrow> if ch = 4 then [(d, pts, True)] else []
      | _ \<Rightarrow> [])"

definition channel_codec :: "nat \<Rightarrow> codec" where
  "channel_codec ch = (if ch = JIPC_AUDIO_STREAM then PCMA else H264)"

definition put_on :: "byte list \<Rightarrow> u64 \<Rightarrow> bool \<Rightarrow> codec \<Rightarrow> stream \<Rightarrow> stream \<Rightarrow> bool" where
  "put_on d pts key codec s s' = (\<exists>s0. same_ring s s0 \<and> s' = put_frame d pts key codec s0)"

lemma put_onI: "same_ring s s0 \<Longrightarrow> put_on d pts key codec s (put_frame d pts key codec s0)"
  by (auto simp: put_on_def)

lemma ring_put_on:
  "put_on d pts key codec s s' \<Longrightarrow> ring s h \<Longrightarrow> Suc (length h) < 2 ^ 64 \<Longrightarrow>
     ring s' (h @ [\<lparr>f_data = d, pts_us = pts, f_sequence = of_nat (Suc (length h)), keyframe = key, f_codec = codec\<rparr>])"
  unfolding put_on_def by (elim exE conjE, hypsubst, rule ring_put [OF ring_same], auto simp: same_ring_def)

lemma publish_fails: "jipc_publish memory c d pts key codec m = (False, m') \<Longrightarrow> m' = m"
  by (auto simp: jipc_publish_def Let_def split: if_splits prod.splits)

lemma publish_puts:
  assumes "jipc_publish memory c d pts key codec m = (True, m')" "c < length (streams m)"
  shows "streams m' = (streams m)[c := streams m' ! c]"
    and "put_on d pts ((codec = H264 \<and> shows_idr d) \<or> key) codec (streams m ! c) (streams m' ! c)"
    and "privacy_wait_key m' = privacy_wait_key m" "privacy_hold m' = privacy_hold m"
    and "backend_ready m' = backend_ready m"
proof -
  obtain s' where s': "stream_parameters (Some (streams m ! c)) d = (shows_idr d, Some s')" "same_ring (streams m ! c) s'"
    using stream_parameters_ring by blast
  have m': "m' = m\<lparr>streams := (streams m)[c := put_frame d pts ((codec = H264 \<and> shows_idr d) \<or> key) codec
        (if codec = H264 then s' else streams m ! c)], produced := produced m'\<rparr>"
    using assms(1) s'(1) by (auto simp: jipc_publish_def Let_def split: if_splits)
  have st: "streams m' = (streams m)[c := put_frame d pts ((codec = H264 \<and> shows_idr d) \<or> key) codec
        (if codec = H264 then s' else streams m ! c)]"
    using arg_cong [OF m', where f = streams] by simp
  then show "streams m' = (streams m)[c := streams m' ! c]"
    using assms(2) by simp
  show "put_on d pts ((codec = H264 \<and> shows_idr d) \<or> key) codec (streams m ! c) (streams m' ! c)"
    using assms(2) by (simp add: st s'(2) put_onI)
  show "privacy_wait_key m' = privacy_wait_key m" "privacy_hold m' = privacy_hold m"
    "backend_ready m' = backend_ready m"
    by (subst m', simp)+
qed

text \<open>Publishing on one stream, or keeping its parameter sets, leaves the others alone.\<close>

definition touches :: "nat set \<Rightarrow> (stream \<Rightarrow> stream \<Rightarrow> bool) \<Rightarrow> media \<Rightarrow> media \<Rightarrow> bool" where
  "touches C R m m' = (length (streams m') = length (streams m) \<and>
     (\<forall>ch<length (streams m). streams m' ! ch = streams m ! ch \<or> (ch \<in> C \<and> R (streams m ! ch) (streams m' ! ch))))"

lemma touches_refl [simp]: "streams m' = streams m \<Longrightarrow> touches C R m m'"
  by (simp add: touches_def)

lemma publish_touches:
  assumes "jipc_publish memory c d pts key codec m = (ok, m')" "c < length (streams m)"
  shows "touches {c} (put_on d pts ((codec = H264 \<and> shows_idr d) \<or> key) codec) m m'"
proof (cases ok)
  case True
  then have p: "jipc_publish memory c d pts key codec m = (True, m')" using assms(1) by simp
  note f = publish_puts [OF p assms(2)]
  have "length (streams m') = length (streams m)" using arg_cong [OF f(1), where f = length] by simp
  moreover have "streams m' ! ch = streams m ! ch \<or> ch = c \<and>
      put_on d pts ((codec = H264 \<and> shows_idr d) \<or> key) codec (streams m ! ch) (streams m' ! ch)" for ch
    using f(2) by (cases "ch = c") (simp_all, subst f(1), simp)
  ultimately show ?thesis by (simp add: touches_def)
next
  case False
  then show ?thesis using assms publish_fails [of memory c d pts key codec m m'] by (cases ok) auto
qed

lemma touches_trans:
  "touches C R m m1 \<Longrightarrow> touches D R m1 m2 \<Longrightarrow> C \<inter> D = {} \<Longrightarrow> touches (C \<union> D) R m m2"
  unfolding touches_def by (intro conjI) (simp, fastforce)

lemma touches_other: "touches C R m m' \<Longrightarrow> ch \<notin> C \<Longrightarrow> ch < length (streams m) \<Longrightarrow> streams m' ! ch = streams m ! ch"
  by (auto simp: touches_def)

lemma publish_video_cases:
  assumes "jipc_publish_video memory source main_only d pts key m = (ok, m')" "length (streams m) = JIPC_STREAMS"
  obtains (refused) "\<not> ok" "m' = m"
  | (held) "ok" "source < 4" "privacy_hold m" "privacy_hold m'" "privacy_wait_key m' = set_bit source (privacy_wait_key m)"
      "touches {source, source + 1} same_ring m m'"
  | (dropped) "ok" "\<not> privacy_hold m" "bit (privacy_wait_key m) source" "\<not> shows_idr d" "m' = m"
  | (published) "source < 4" "\<not> privacy_hold m" "\<not> privacy_hold m'" "bit (privacy_wait_key m) source \<longrightarrow> shows_idr d"
      "privacy_wait_key m' = unset_bit source (privacy_wait_key m)"
      "touches ({source} \<union> (if main_only then {source + 1} else {})) (put_on d pts (shows_idr d \<or> key) H264) m m'"
      "ok \<longrightarrow> put_on d pts (shows_idr d \<or> key) H264 (streams m ! source) (streams m' ! source)"
      "ok \<longrightarrow> main_only \<longrightarrow> put_on d pts (shows_idr d \<or> key) H264 (streams m ! (source + 1)) (streams m' ! (source + 1))"
      "\<not> (main_only \<and> odd source)"
proof -
  consider (r) "JIPC_VIDEO_STREAMS \<le> source \<or> (main_only \<and> odd source)"
    | (h) "\<not> (JIPC_VIDEO_STREAMS \<le> source \<or> (main_only \<and> odd source))" "privacy_hold m"
    | (d) "\<not> (JIPC_VIDEO_STREAMS \<le> source \<or> (main_only \<and> odd source))" "\<not> privacy_hold m"
        "bit (privacy_wait_key m) source \<and> \<not> shows_idr d"
    | (p) "\<not> (JIPC_VIDEO_STREAMS \<le> source \<or> (main_only \<and> odd source))" "\<not> privacy_hold m"
        "\<not> (bit (privacy_wait_key m) source \<and> \<not> shows_idr d)" by blast
  then show ?thesis
  proof cases
    case r
    then show ?thesis using assms(1) refused by (simp add: jipc_publish_video_def)
  next
    case h
    have keep: "length (held_parameters d ch ss) = length ss \<and> (\<forall>i<length ss. held_parameters d ch ss ! i = ss ! i \<or> i = ch \<and> same_ring (ss ! i) (held_parameters d ch ss ! i))"
      for ch ss
    proof -
      obtain s' where s': "stream_parameters (Some (ss ! ch)) d = (shows_idr d, Some s')" "same_ring (ss ! ch) s'"
        using stream_parameters_ring by blast
      have "held_parameters d ch ss ! i = ss ! i \<or> i = ch \<and> same_ring (ss ! i) (held_parameters d ch ss ! i)" if "i < length ss" for i
        using that s' by (cases "i = ch") (auto simp: held_parameters_def)
      then show ?thesis by (simp add: held_parameters_def)
    qed
    have m': "m' = m\<lparr>privacy_wait_key := set_bit source (privacy_wait_key m),
        streams := (if main_only then held_parameters d (source + 1) else id) (held_parameters d source (streams m))\<rparr>" "ok"
      using assms(1) h by (simp_all add: jipc_publish_video_def)
    have "touches {source, source + 1} same_ring m m'"
      using keep [of source "streams m"] keep [of "source + 1" "held_parameters d source (streams m)"]
      by (auto simp: touches_def m' same_ring_def) metis+
    then show ?thesis using h held m' by (simp add: JIPC_VIDEO_STREAMS_def)
  next
    case d
    then show ?thesis using assms(1) dropped by (auto simp: jipc_publish_video_def stream_parameters_idr split: if_splits)
  next
    case p
    define m1 where "m1 = m\<lparr>privacy_wait_key := unset_bit source (privacy_wait_key m)\<rparr>"
    obtain ok1 m2 where r1: "jipc_publish (fst memory) source d pts key H264 m1 = (ok1, m2)" by fastforce
    have all: "(ok, m') = (if \<not> ok1 then (False, m2) else if main_only then
        jipc_publish (snd memory) (source + 1) d pts key H264 m2 else (True, m2))"
      using assms(1) p r1 by (auto simp: jipc_publish_video_def stream_parameters_idr m1_def Let_def split: bool.splits)
    have m1: "streams m1 = streams m" "privacy_hold m1 = privacy_hold m"
      "privacy_wait_key m1 = unset_bit source (privacy_wait_key m)" by (simp_all add: m1_def)
    have l: "source < length (streams m1)" "source + 1 < length (streams m1)" "source < 4"
      using p(1) assms(2) by (simp_all add: m1 jipc_numbers)
    note t1 = publish_touches [OF r1 l(1), simplified]
    show ?thesis
    proof (cases ok1)
      case False
      then have "m2 = m1" "m' = m1" "\<not> ok" using r1 all publish_fails by auto
      then show ?thesis using published l(3) p m1 by simp
    next
      case True
      note f1 = publish_puts [OF r1 [unfolded True [THEN eqTrueI]] l(1), simplified]
      show ?thesis
      proof (cases main_only)
        case False
        then have "m' = m2" "ok" using True all by auto
        then show ?thesis using published l(3) p f1 m1 False t1 by (simp add: touches_def)
      next
        case main: True
        then have r2: "jipc_publish (snd memory) (source + 1) d pts key H264 m2 = (ok, m')" using True all by simp
        have l2: "source + 1 < length (streams m2)" using l(2) t1 by (simp add: touches_def)
        note t2 = publish_touches [OF r2 l2, simplified]
        have same: "streams m2 ! (source + 1) = streams m ! (source + 1)"
          using touches_other [OF t1] l(2) m1 by simp
        have last: "streams m' ! source = streams m2 ! source"
          using touches_other [OF t2] l(1) t1 by (simp add: touches_def)
        have flags: "privacy_wait_key m' = privacy_wait_key m2 \<and> privacy_hold m' = privacy_hold m2 \<and>
            (ok \<longrightarrow> put_on d pts (shows_idr d \<or> key) H264 (streams m2 ! (source + 1)) (streams m' ! (source + 1)))"
          using publish_fails [of "snd memory" "source + 1" d pts key H264 m2 m']
            publish_puts [of "snd memory" "source + 1" d pts key H264 m2 m', OF _ l2] r2 by (cases ok) auto
        have "touches ({source} \<union> {source + 1}) (put_on d pts (shows_idr d \<or> key) H264) m m'"
          using touches_trans [OF t1 t2] by (simp add: touches_def m1)
        then show ?thesis using published l(3) p f1 m1 main flags same last by simp
      qed
    qed
  qed
qed

end
