(* ===== verification/Media_Correct.thy ===== *)
theory Media_Correct
  imports Media_Rings "HOL-Library.Sublist"
begin

text \<open>
  The media daemon as a whole: what a reader of a stream gets, what is shown while the lens
  is covered and afterwards, and that a viewer of the RTSP server only gets pictures it can
  decode.
\<close>

section \<open>The daemon's threads\<close>

lemma step_streams:
  assumes "length (streams m) = JIPC_STREAMS" "ch < JIPC_STREAMS"
  shows "length (streams (media_step m e)) = JIPC_STREAMS" (is ?len)
    and "same_ring (streams m ! ch) (streams (media_step m e) ! ch) \<or>
     (\<exists>d pts key. offered ch e = [(d, pts, key)] \<and>
        put_on d pts key (channel_codec ch) (streams m ! ch) (streams (media_step m e) ! ch))" (is ?ring)
proof -
  have "?len \<and> ?ring"
  proof (cases e)
    case (Video_in memory source main_only d pts key)
    show ?thesis
    proof (cases "backend_ready m")
      case True
      obtain ok m' where r: "jipc_publish_video memory source main_only d pts key m = (ok, m')" by fastforce
      have s: "streams (media_step m e) = streams m'" using True Video_in r by (simp add: media_step_def)
      from r assms(1) show ?thesis
      proof (cases rule: publish_video_cases)
        case refused
        then show ?thesis using s assms by simp
      next
        case held
        then show ?thesis using s assms by (auto simp: touches_def)
      next
        case dropped
        then show ?thesis using s assms by simp
      next
        case published
        have "channel_codec ch = H264" if "ch = source \<or> main_only \<and> ch = source + 1"
        proof -
          have "\<not> (main_only \<and> odd source)" by (rule published(9))
          then show ?thesis using that published(1) by (auto simp: channel_codec_def JIPC_AUDIO_STREAM_def)
        qed
        then show ?thesis using s assms published(1,6)
          by (auto simp: touches_def offered_def Video_in split: if_splits)
      qed
    qed (use Video_in assms in \<open>simp add: media_step_def\<close>)
  next
    case (Audio_in memory d pts)
    obtain ok m' where r: "jipc_publish memory JIPC_AUDIO_STREAM d pts True PCMA m = (ok, m')" by fastforce
    then show ?thesis using publish_touches [OF r] assms Audio_in
      by (auto simp: touches_def media_step_def offered_def channel_codec_def jipc_numbers)
  qed (use assms in \<open>auto simp: media_step_def jipc_video_healthy_def\<close>)
  then show ?len ?ring by auto
qed

lemma foldl_length: "length (streams (foldl media_step jipc_streams_init es)) = JIPC_STREAMS"
proof (induction es rule: rev_induct)
  case Nil
  then show ?case by (simp add: jipc_streams_init_def)
next
  case (snoc e es)
  then show ?case using step_streams(1) [OF snoc, of 0 e] by (simp add: JIPC_STREAMS_def)
qed

text \<open>A channel's ring with its whole history.\<close>

definition channel_holds :: "nat \<Rightarrow> media \<Rightarrow> frame list \<Rightarrow> bool" where
  "channel_holds ch m h = (ch < JIPC_STREAMS \<and> length (streams m) = JIPC_STREAMS \<and> ring (streams m ! ch) h \<and>
     (\<forall>f\<in>set h. f_codec f = channel_codec ch))"

lemma channel_holds_init: "ch < JIPC_STREAMS \<Longrightarrow> channel_holds ch jipc_streams_init []"
  using ring_init [of ch] by (simp add: channel_holds_def jipc_streams_init_def del: upt.simps)

definition content :: "frame \<Rightarrow> byte list \<times> u64 \<times> bool" where
  "content f = (f_data f, pts_us f, keyframe f)"

lemma step_holds:
  assumes "channel_holds ch m h" "Suc (length h) < 2 ^ 64"
  obtains fs where "channel_holds ch (media_step m e) (h @ fs)" "subseq (map content fs) (offered ch e)" "length fs \<le> 1"
proof -
  have c: "ch < JIPC_STREAMS" "length (streams m) = JIPC_STREAMS" "ring (streams m ! ch) h"
    "\<forall>f\<in>set h. f_codec f = channel_codec ch" using assms(1) by (simp_all add: channel_holds_def)
  note l = step_streams(1) [OF c(2,1), of e]
  from step_streams(2) [OF c(2,1), of e] show ?thesis
  proof
    assume "same_ring (streams m ! ch) (streams (media_step m e) ! ch)"
    then show ?thesis using that [of "[]"] c l ring_same by (auto simp: channel_holds_def)
  next
    assume "\<exists>d pts key. offered ch e = [(d, pts, key)] \<and>
        put_on d pts key (channel_codec ch) (streams m ! ch) (streams (media_step m e) ! ch)"
    then obtain d pts key where o: "offered ch e = [(d, pts, key)]"
      and p: "put_on d pts key (channel_codec ch) (streams m ! ch) (streams (media_step m e) ! ch)" by blast
    let ?f = "\<lparr>f_data = d, pts_us = pts, f_sequence = of_nat (Suc (length h)), keyframe = key, f_codec = channel_codec ch\<rparr>"
    have "channel_holds ch (media_step m e) (h @ [?f])"
      using ring_put_on [OF p c(3) assms(2)] c l by (auto simp: channel_holds_def simp del: of_nat_Suc)
    then show ?thesis using that [of "[?f]"] o by (simp add: content_def)
  qed
qed

lemma run_holds:
  "channel_holds ch m h \<Longrightarrow> length h + length es < 2 ^ 64 \<Longrightarrow>
     \<exists>fs. channel_holds ch (foldl media_step m es) (h @ fs) \<and> length fs \<le> length es"
proof (induction es arbitrary: m h)
  case Nil
  then show ?case by (intro exI [of _ "[]"]) simp
next
  case (Cons e es)
  obtain f where f: "channel_holds ch (media_step m e) (h @ f)" "length f \<le> 1"
    using step_holds [OF Cons.prems(1), of e] Cons.prems(2) by auto
  have "length (h @ f) + length es < 2 ^ 64" using f(2) Cons.prems(2) by simp
  from Cons.IH [OF f(1) this] obtain fs where
    "channel_holds ch (foldl media_step (media_step m e) es) ((h @ f) @ fs)" "length fs \<le> length es" by blast
  then show ?case using f(2) by (intro exI [of _ "f @ fs"]) simp
qed

lemma capacity_of:
  assumes "ch < JIPC_STREAMS"
  shows "ring_capacity (streams (foldl media_step jipc_streams_init es) ! ch) = (if ch = JIPC_AUDIO_STREAM then 32 else 4)"
proof (induction es rule: rev_induct)
  case Nil
  then show ?case using assms
    by (simp add: jipc_streams_init_def stream_init_def JIPC_AUDIO_RING_def JIPC_VIDEO_RING_def del: upt.simps)
next
  case (snoc e es)
  have l: "length (streams (foldl media_step jipc_streams_init es)) = JIPC_STREAMS"
    by (rule foldl_length)
  show ?case
    using snoc step_streams(2) [OF l assms, of e]
    by (auto simp: same_ring_def put_on_def put_frame_def Let_def)
qed

section \<open>What a reader gets\<close>

definition read_now :: "bool \<Rightarrow> nat \<Rightarrow> u64 \<Rightarrow> media \<Rightarrow> int \<times> u64 \<times> frame option" where
  "read_now memory ch cur m = jipc_read memory ch cur 0 Timed_out [] m"

lemma read_now_cases:
  assumes h: "channel_holds ch m h"
  obtains (quiet) r where "read_now memory ch cur m = (r, cur, None)" "r \<le> 0" "memory \<longrightarrow> length h \<le> unat cur"
  | (frame) i where "unat cur < length h" "i = next_index (ring_capacity (streams m ! ch)) (length h) (unat cur)"
      "i < length h" "unat cur \<le> i" "memory" "read_now memory ch cur m = (1, of_nat (Suc i), Some (h ! i))"
proof -
  have c: "ch < JIPC_STREAMS" "ring (streams m ! ch) h" using h by (simp_all add: channel_holds_def)
  have u: "unat (st_sequence (streams m ! ch)) = length h" using ring_unat [OF c(2)] .
  show ?thesis
  proof (cases "unat cur < length h")
    case False
    then have le: "st_sequence (streams m ! ch) \<le> cur" using u by (simp add: word_le_nat_alt)
    show ?thesis
      by (rule quiet [of 0]) (use c(1) le take_frame_none [OF le] False in \<open>auto simp: read_now_def jipc_read.simps\<close>)
  next
    case True
    then have "read_now memory ch cur m = take_frame memory ch cur m"
      using u c(1) by (simp add: read_now_def jipc_read.simps word_le_nat_alt)
    moreover note take_frame_ring [OF c(2) True]
    ultimately show ?thesis using frame [OF True refl] quiet [of "-1"] by (cases memory) simp_all
  qed
qed

text \<open>A reader of one channel, looking now and then; \<open>Inr\<close> says whether there is memory.\<close>

fun reader_run :: "nat \<Rightarrow> media \<Rightarrow> u64 \<Rightarrow> (media_event + bool) list \<Rightarrow> frame list" where
  "reader_run ch m cur [] = []"
| "reader_run ch m cur (Inl e # es) = reader_run ch (media_step m e) cur es"
| "reader_run ch m cur (Inr memory # es) =
     (case read_now memory ch cur m of
        (r, cur, f) \<Rightarrow> (if 0 < r then [the f] else []) @ reader_run ch m cur es)"

lemma reader_history:
  assumes "channel_holds ch m h" "unat cur \<le> length h" "length h + length es < 2 ^ 64"
  shows "\<exists>fs. subseq (map content fs) (concat (map (case_sum (offered ch) (\<lambda>_. [])) es)) \<and>
     subseq (reader_run ch m cur es) (drop (unat cur) (h @ fs)) \<and>
     (\<exists>m. channel_holds ch m (h @ fs))"
  using assms
proof (induction ch m cur es arbitrary: h rule: reader_run.induct)
  case (1 ch m cur)
  then show ?case by (intro exI [of _ "[]"]) auto
next
  case (2 ch m cur e es)
  obtain f where f: "channel_holds ch (media_step m e) (h @ f)" "subseq (map content f) (offered ch e)" "length f \<le> 1"
    using step_holds [OF "2.prems"(1), of e] "2.prems"(3) by auto
  have "unat cur \<le> length (h @ f)" "length (h @ f) + length es < 2 ^ 64" using f(3) "2.prems" by simp_all
  from "2.IH" [OF f(1) this] obtain fs where
    fs: "subseq (map content fs) (concat (map (case_sum (offered ch) (\<lambda>_. [])) es))"
    "subseq (reader_run ch (media_step m e) cur es) (drop (unat cur) ((h @ f) @ fs))"
    "\<exists>m. channel_holds ch m ((h @ f) @ fs)" by blast
  have "subseq (map content (f @ fs)) (offered ch e @ concat (map (case_sum (offered ch) (\<lambda>_. [])) es))"
    using f(2) fs(1) by (simp add: list_emb_append_mono)
  with fs show ?case by (intro exI [of _ "f @ fs"]) simp
next
  case (3 ch m cur memory es)
  have n: "length h + length es < 2 ^ 64" using "3.prems"(3) by simp
  from "3.prems"(1) show ?case
  proof (cases rule: read_now_cases [of ch m h memory cur])
    case (quiet r)
    from "3.IH" [OF quiet(1) [symmetric] refl "3.prems"(1,2) n] show ?thesis
      using quiet by simp
  next
    case (frame i)
    have l: "length h < 2 ^ 64" using n by simp
    have i: "unat (of_nat (Suc i) :: u64) = Suc i" using frame(3) l by (simp add: unat_length del: of_nat_Suc)
    from "3.IH" [OF frame(6) [symmetric] refl "3.prems"(1) _ n] frame(3) i
    obtain fs where fs: "subseq (map content fs) (concat (map (case_sum (offered ch) (\<lambda>_. [])) es))"
      "subseq (reader_run ch m (of_nat (Suc i)) es) (drop (Suc i) (h @ fs))" "\<exists>m. channel_holds ch m (h @ fs)"
      by (auto simp del: of_nat_Suc)
    have "drop i (h @ fs) = h ! i # drop (Suc i) (h @ fs)"
      using frame(3) by (subst Cons_nth_drop_Suc [symmetric]) (simp_all add: nth_append)
    then have "subseq (h ! i # reader_run ch m (of_nat (Suc i)) es) (drop i (h @ fs))"
      using fs(2) by simp
    moreover have "drop (unat cur) (h @ fs) = take (i - unat cur) (drop (unat cur) (h @ fs)) @ drop i (h @ fs)"
      using frame(4) by (metis append_take_drop_id drop_drop le_add_diff_inverse2)
    ultimately have "subseq (h ! i # reader_run ch m (of_nat (Suc i)) es) (drop (unat cur) (h @ fs))"
      by (metis list_emb_append2)
    then show ?thesis using frame(6) fs by (intro exI [of _ fs]) (simp del: of_nat_Suc)
  qed
qed

lemma sorted_subseq: "subseq xs ys \<Longrightarrow> sorted_wrt R ys \<Longrightarrow> sorted_wrt R xs"
  by (induction rule: list_emb.induct) (auto dest: list_emb_set)

lemma numbers_increase:
  assumes "channel_holds ch m h"
  shows "sorted_wrt (\<lambda>f g. f_sequence f < f_sequence g) h"
proof (unfold sorted_wrt_iff_nth_less, intro allI impI)
  fix i j assume "i < j" "j < length h"
  moreover have "length h < 2 ^ 64" "\<forall>i<length h. f_sequence (h ! i) = of_nat (Suc i)"
    using assms by (simp_all add: channel_holds_def ring_def)
  ultimately show "f_sequence (h ! i) < f_sequence (h ! j)"
    by (simp add: word_less_nat_alt unat_length del: of_nat_Suc)
qed

lemma init_streams: "streams jipc_streams_init = [stream_init 0, stream_init 1, stream_init 2, stream_init 3, stream_init 4]"
  by (simp add: jipc_streams_init_def JIPC_STREAMS_def upt_rec numeral_eq_Suc)

text \<open>An IDR picture and one that builds on it, for the examples below.\<close>

definition an_idr :: "byte list" where "an_idr = [0, 0, 1, 0x65, 1]"
definition a_p :: "byte list" where "a_p = [0, 0, 1, 0x41, 1]"

lemma parameters_sample:
  "stream_parameters s an_idr = (True, s)" "stream_parameters s a_p = (False, s)"
  by (cases s; simp add: an_idr_def a_p_def stream_parameters_def annexb_next.simps parameter_units.simps keep_parameters_def)+

lemma length_sample: "length an_idr = 5" "length a_p = 5" "an_idr \<noteq> []" "a_p \<noteq> []"
  by (simp_all add: an_idr_def a_p_def)

lemmas ring_eval = media_step_def jipc_publish_video_def jipc_publish_def init_streams parameters_sample length_sample
  put_frame_def stream_init_def jipc_numbers JIPC_MAX_FRAME_def read_now_def jipc_read.simps take_frame_def content_def
  Let_def jipc_streams_init_def word_le_nat_alt word_less_nat_alt

definition video :: "byte list \<Rightarrow> u64 \<Rightarrow> media_event" where
  "video d pts = Video_in (True, True) 0 False d pts False"

text \<open>C4. A reader of a stream, however it is scheduled against the threads of the daemon and
  however often an allocation fails, gets frames that were published on that stream, byte for
  byte with their time and keyframe mark, in the order of publication and none of them twice.\<close>

theorem readers_get_what_was_published:
  assumes "ch < JIPC_STREAMS" "length es < 2 ^ 64"
  shows "subseq (map content (reader_run ch jipc_streams_init 0 es))
            (concat (map (case_sum (offered ch) (\<lambda>_. [])) es)) \<and>
         sorted_wrt (\<lambda>f g. f_sequence f < f_sequence g) (reader_run ch jipc_streams_init 0 es)"
proof -
  obtain fs m where fs: "subseq (map content fs) (concat (map (case_sum (offered ch) (\<lambda>_. [])) es))"
    "subseq (reader_run ch jipc_streams_init 0 es) fs" "channel_holds ch m fs"
    using reader_history [OF channel_holds_init [OF assms(1)], of 0 es] assms(2) by auto
  have "subseq (map content (reader_run ch jipc_streams_init 0 es)) (map content fs)"
    using fs(2) by (rule subseq_map)
  then show ?thesis
    using fs(1) sorted_subseq [OF fs(2) numbers_increase [OF fs(3)]] subseq_order.trans by blast
qed

lemma readers_get_what_was_published_witness:
  "let es = [Inl (video an_idr 40), Inr True, Inr True, Inl (video a_p 80), Inr False, Inr True];
       got = reader_run 0 jipc_streams_init 0 es
   in map content got = [(an_idr, 40, True), (a_p, 80, False)] \<and>
      sorted_wrt (\<lambda>f g. f_sequence f < f_sequence g) got"
  using readers_get_what_was_published [of 0 "[Inl (video an_idr 40), Inr True, Inr True, Inl (video a_p 80), Inr False, Inr True]"]
  by (simp add: Let_def JIPC_STREAMS_def) (simp add: ring_eval video_def)


text \<open>A reader that waits never misses a frame the ring still has: it is given the frame
  after the one it had last, or else the oldest of the last four pictures (32 of sound).\<close>

theorem reader_misses_only_the_overwritten:
  fixes cur :: u64
  assumes "ch < JIPC_STREAMS" "length es < 2 ^ 64"
  defines "m \<equiv> foldl media_step jipc_streams_init es"
  defines "n \<equiv> unat (st_sequence (streams m ! ch))"
  assumes "0 < cur" "unat cur < n"
  shows "\<exists>f. read_now True ch cur m = (1, f_sequence f, Some f) \<and>
     unat (f_sequence f) = max (unat cur + 1) (n - (if ch = JIPC_AUDIO_STREAM then 32 else 4) + 1)"
proof -
  obtain h where h: "channel_holds ch m h"
    using run_holds [OF channel_holds_init [OF assms(1)], of es] assms(2) by (auto simp: m_def)
  have r: "ring (streams m ! ch) h" using h by (simp add: channel_holds_def)
  have n: "n = length h" using ring_unat [OF r] by (simp add: n_def)
  have cap: "ring_capacity (streams m ! ch) = (if ch = JIPC_AUDIO_STREAM then 32 else 4)"
    unfolding m_def using assms(1) by (rule capacity_of)
  from h show ?thesis
  proof (cases rule: read_now_cases [of ch m h True cur])
    case (quiet r)
    then show ?thesis using assms(6) n by simp
  next
    case (frame i)
    have "f_sequence (h ! i) = of_nat (Suc i)" "length h < 2 ^ 64" using r frame(3) by (simp_all add: ring_def)
    then show ?thesis
      using frame assms(5) cap n
      by (auto simp: next_index_def unat_length word_less_nat_alt unat_eq_zero simp del: of_nat_Suc)
  qed
qed

lemma reader_misses_only_the_overwritten_witness:
  "\<exists>f. read_now True 0 1 (foldl media_step jipc_streams_init [video an_idr 40, video an_idr 80, video an_idr 120,
       video an_idr 160, video an_idr 200, video an_idr 240]) = (1, f_sequence f, Some f) \<and> unat (f_sequence f) = 3"
proof -
  let ?es = "[video an_idr 40, video an_idr 80, video an_idr 120, video an_idr 160, video an_idr 200, video an_idr 240]"
  have "unat (st_sequence (streams (foldl media_step jipc_streams_init ?es) ! 0)) = 6"
    by (simp add: ring_eval video_def)
  then show ?thesis
    using reader_misses_only_the_overwritten [of 0 ?es 1]
    by (simp add: JIPC_STREAMS_def JIPC_AUDIO_STREAM_def numeral_3_eq_3)
qed



section \<open>While the lens is covered\<close>

lemma held_step:
  assumes "length (streams m) = JIPC_STREAMS" "privacy_hold m" "ch < JIPC_STREAMS" "ch \<noteq> JIPC_AUDIO_STREAM" "e \<noteq> Privacy False"
  shows "privacy_hold (media_step m e) \<and> same_ring (streams m ! ch) (streams (media_step m e) ! ch)"
proof (cases e)
  case (Video_in memory source main_only d pts key)
  obtain ok m' where r: "jipc_publish_video memory source main_only d pts key m = (ok, m')" by fastforce
  from r assms(1) have "privacy_hold m' \<and> same_ring (streams m ! ch) (streams m' ! ch)"
    by (cases rule: publish_video_cases) (use assms in \<open>auto simp: touches_def\<close>)
  then show ?thesis using r Video_in assms(2) by (simp add: media_step_def)
next
  case (Audio_in memory d pts)
  obtain ok m' where r: "jipc_publish memory JIPC_AUDIO_STREAM d pts True PCMA m = (ok, m')" by fastforce
  have "privacy_hold m' = privacy_hold m"
    using r publish_fails [of memory JIPC_AUDIO_STREAM d pts True PCMA m m']
      publish_puts(4) [of memory JIPC_AUDIO_STREAM d pts True PCMA m m'] assms(1)
    by (cases ok) (auto simp: jipc_numbers)
  then show ?thesis
    using touches_other [OF publish_touches [OF r], of ch] assms r Audio_in by (simp add: media_step_def jipc_numbers)
next
  case (Privacy h)
  then show ?thesis using assms(5) by (simp add: media_step_def)
qed (use assms in \<open>simp_all add: media_step_def jipc_video_healthy_def\<close>)




text \<open>
  The daemon's setting of one encoder for each lens decides which sources there are. The
  first frame that events put on a ring is the one in its newest slot when its number moves.
\<close>

definition configured :: "bool \<Rightarrow> media_event \<Rightarrow> bool" where
  "configured mo e =
     (case e of Video_in memory source main_only d pts key \<Rightarrow> main_only = mo \<and> (mo \<longrightarrow> even source) | _ \<Rightarrow> True)"

fun first_shown :: "nat \<Rightarrow> media \<Rightarrow> media_event list \<Rightarrow> frame option" where
  "first_shown ch m [] = None"
| "first_shown ch m (e # es) =
     (let m' = media_step m e; s = streams m' ! ch
      in if st_sequence s = st_sequence (streams m ! ch) then first_shown ch m' es
         else slots s ! (unat (st_sequence s - 1) mod ring_capacity s))"

definition waits :: "bool \<Rightarrow> nat \<Rightarrow> media \<Rightarrow> bool" where
  "waits mo ch m = (bit (privacy_wait_key m) (jipc_video_owner mo ch) \<or> \<not> backend_ready m)"

lemma owner_bit: "ch < 4 \<Longrightarrow> jipc_video_owner mo ch < 4"
  by (auto simp: jipc_video_owner_def)

lemma owner_channels:
  "ch < 4 \<Longrightarrow> (mo \<longrightarrow> even source) \<Longrightarrow>
     (jipc_video_owner mo ch = source) = (ch = source \<or> mo \<and> ch = source + 1)"
  by (auto simp: jipc_video_owner_def JIPC_VIDEO_STREAMS_def)

lemma waiting_step:
  assumes l: "length (streams m) = JIPC_STREAMS" and ch: "ch < 4" and w: "waits mo ch m" and c: "configured mo e"
  shows "(same_ring (streams m ! ch) (streams (media_step m e) ! ch) \<and> waits mo ch (media_step m e)) \<or>
     (\<exists>d pts. shows_idr d \<and> put_on d pts True H264 (streams m ! ch) (streams (media_step m e) ! ch))"
proof (cases e)
  case (Video_in memory source main_only d pts key)
  show ?thesis
  proof (cases "backend_ready m")
    case False
    then show ?thesis using w Video_in by (simp add: media_step_def)
  next
    case True
    then have b: "bit (privacy_wait_key m) (jipc_video_owner mo ch)" using w by (simp add: waits_def)
    have mo: "main_only = mo" "mo \<longrightarrow> even source" using c Video_in by (simp_all add: configured_def)
    note own = owner_channels [OF ch mo(2)] and lch = ch [folded JIPC_VIDEO_STREAMS_def]
    have len: "ch < length (streams m)" using ch l by (simp add: JIPC_STREAMS_def)
    obtain ok m' where r: "jipc_publish_video memory source main_only d pts key m = (ok, m')" by fastforce
    have s: "streams (media_step m e) = streams m'" "ok \<Longrightarrow> media_step m e = m'"
      "\<not> ok \<Longrightarrow> \<not> backend_ready (media_step m e)" "privacy_wait_key (media_step m e) = privacy_wait_key m'"
      using True Video_in r by (simp_all add: media_step_def)
    from r l show ?thesis
    proof (cases rule: publish_video_cases)
      case refused
      then show ?thesis using s b by (simp add: waits_def)
    next
      case held
      then show ?thesis using s b len
        by (auto simp: touches_def waits_def bit_set_bit_iff)
    next
      case dropped
      then show ?thesis using s b by (simp add: waits_def)
    next
      case published
      show ?thesis
      proof (cases "jipc_video_owner mo ch = source")
        case True
        then have i: "shows_idr d" using b published(4) by simp
        from True own have "ch = source \<or> mo \<and> ch = source + 1" by simp
        with published(6-8) i mo(1) len
        have "put_on d pts True H264 (streams m ! ch) (streams m' ! ch) \<or>
          (\<not> ok \<and> streams m' ! ch = streams m ! ch)"
          by (cases ok) (auto simp: touches_def)
        then show ?thesis using i s by (auto simp: waits_def)
      next
        case False
        then have "streams m' ! ch = streams m ! ch"
          using touches_other [OF published(6), of ch] own len mo(1) by auto
        moreover have "bit (privacy_wait_key m') (jipc_video_owner mo ch)"
          using b False by (simp add: published(5) bit_unset_bit_iff)
        ultimately show ?thesis using s by (simp add: waits_def)
      qed
    qed
  qed
next
  case (Audio_in memory d pts)
  obtain ok m' where r: "jipc_publish memory JIPC_AUDIO_STREAM d pts True PCMA m = (ok, m')" by fastforce
  have "privacy_wait_key m' = privacy_wait_key m" "backend_ready m' = backend_ready m"
    using r publish_fails [of memory JIPC_AUDIO_STREAM d pts True PCMA m m']
      publish_puts(3,5) [of memory JIPC_AUDIO_STREAM d pts True PCMA m m'] l
    by (cases ok; auto simp: jipc_numbers)+
  then show ?thesis
    using touches_other [OF publish_touches [OF r], of ch] ch l w r Audio_in
    by (simp add: media_step_def jipc_numbers waits_def)
qed (use w in \<open>simp_all add: media_step_def jipc_video_healthy_def waits_def\<close>)

definition sound_ring :: "stream \<Rightarrow> bool" where
  "sound_ring s = (0 < ring_capacity s \<and> ring_capacity s \<le> length (slots s))"

lemma sound_step:
  assumes "length (streams m) = JIPC_STREAMS" "ch < JIPC_STREAMS" "sound_ring (streams m ! ch)"
  shows "sound_ring (streams (media_step m e) ! ch)"
  using step_streams(2) [OF assms(1,2), of e] assms(3)
  by (auto simp: sound_ring_def same_ring_def put_on_def put_frame_def Let_def)

lemma foldl_sound:
  assumes "ch < JIPC_STREAMS"
  shows "length (streams (foldl media_step jipc_streams_init es)) = JIPC_STREAMS \<and>
     sound_ring (streams (foldl media_step jipc_streams_init es) ! ch)"
proof (induction es rule: rev_induct)
  case Nil
  then show ?case using assms
    by (simp add: jipc_streams_init_def stream_init_def sound_ring_def jipc_numbers del: upt.simps)
next
  case (snoc e es)
  then show ?case using sound_step [OF _ assms, of "foldl media_step jipc_streams_init es" e]
      step_streams(1) [OF _ assms, of "foldl media_step jipc_streams_init es" e] by simp
qed

lemma resume:
  assumes "ch < 4" "length (streams m) = JIPC_STREAMS" "sound_ring (streams m ! ch)" "waits mo ch m"
    "\<forall>e\<in>set es. configured mo e" "first_shown ch m es = Some f"
  shows "shows_idr (f_data f) \<and> keyframe f"
  using assms
proof (induction ch m es rule: first_shown.induct)
  case (2 ch m e es)
  let ?m = "media_step m e"
  have ch: "ch < JIPC_STREAMS" using "2.prems"(1) by (simp add: JIPC_STREAMS_def)
  note after = step_streams(1) [OF "2.prems"(2) ch, of e] sound_step [OF "2.prems"(2) ch "2.prems"(3), of e]
  have "configured mo e" using "2.prems"(5) by simp
  from waiting_step [OF "2.prems"(2,1,4) this] show ?case
  proof
    assume q: "same_ring (streams m ! ch) (streams ?m ! ch) \<and> waits mo ch ?m"
    then show ?thesis using "2.IH" [OF refl refl _ "2.prems"(1) after] "2.prems"(5,6) by (simp add: same_ring_def)
  next
    assume "\<exists>d pts. shows_idr d \<and> put_on d pts True H264 (streams m ! ch) (streams ?m ! ch)"
    then obtain d pts s0 where p: "shows_idr d" "same_ring (streams m ! ch) s0" "streams ?m ! ch = put_frame d pts True H264 s0"
      by (auto simp: put_on_def)
    have "unat (st_sequence s0) mod ring_capacity s0 < length (slots s0)"
      using "2.prems"(3) p(2) by (auto simp: sound_ring_def same_ring_def intro: order_less_le_trans [OF mod_less_divisor])
    then show ?thesis using "2.prems"(6) p by (auto simp: put_frame_def Let_def same_ring_def)
  qed
qed simp

text \<open>C8. Once a picture has been held back, the next one that appears on the stream is an
  IDR picture, whatever happens in between: no viewer is given a picture that builds on the
  last one before the lens was covered.\<close>

theorem pictures_resume_with_an_idr:
  fixes es0 :: "media_event list"
  defines "m \<equiv> foldl media_step jipc_streams_init es0"
  assumes "ch < JIPC_VIDEO_STREAMS" "privacy_hold m" "backend_ready m"
    and "\<forall>e\<in>set es. configured mo e"
    and "first_shown ch (media_step m (Video_in memory (jipc_video_owner mo ch) mo d pts key)) es = Some f"
  shows "shows_idr (f_data f) \<and> keyframe f"
proof -
  let ?m = "media_step m (Video_in memory (jipc_video_owner mo ch) mo d pts key)"
  have ch: "ch < 4" "ch < JIPC_STREAMS" using assms(2) by (simp_all add: jipc_numbers)
  have "\<not> (JIPC_VIDEO_STREAMS \<le> jipc_video_owner mo ch \<or> mo \<and> odd (jipc_video_owner mo ch))"
    using ch by (auto simp: jipc_video_owner_def JIPC_VIDEO_STREAMS_def)
  then have w: "waits mo ch ?m"
    using assms(3,4) owner_bit [OF ch(1), of mo]
    by (simp add: media_step_def jipc_publish_video_def waits_def bit_set_bit_iff JIPC_VIDEO_STREAMS_def)
  have ok: "length (streams ?m) = JIPC_STREAMS \<and> sound_ring (streams ?m ! ch)"
    using foldl_sound [OF ch(2), of "es0 @ [Video_in memory (jipc_video_owner mo ch) mo d pts key]"]
    by (simp add: m_def)
  show ?thesis using resume [OF ch(1) _ _ w assms(5,6)] ok by blast
qed

lemma pictures_resume_with_an_idr_witness:
  "\<exists>f. first_shown 0 (media_step (foldl media_step jipc_streams_init [Privacy True]) (Video_in (True, True) 0 True an_idr 40 False))
      [Privacy False, Video_in (True, True) 0 True a_p 80 False, Video_in (True, True) 0 True an_idr 120 False] = Some f \<and>
    shows_idr (f_data f) \<and> keyframe f"
proof -
  have "first_shown 0 (media_step (foldl media_step jipc_streams_init [Privacy True]) (Video_in (True, True) 0 True an_idr 40 False))
      [Privacy False, Video_in (True, True) 0 True a_p 80 False, Video_in (True, True) 0 True an_idr 120 False] =
    Some \<lparr>f_data = an_idr, pts_us = 120, f_sequence = 1, keyframe = True, f_codec = H264\<rparr>"
    by (simp add: ring_eval held_parameters_def)
  moreover have "jipc_video_owner True 0 = 0" by (simp add: jipc_video_owner_def)
  moreover have "privacy_hold (foldl media_step jipc_streams_init [Privacy True])"
    "backend_ready (foldl media_step jipc_streams_init [Privacy True])"
    by (simp_all add: media_step_def jipc_streams_init_def)
  ultimately show ?thesis
    using pictures_resume_with_an_idr [of 0 "[Privacy True]"
      "[Privacy False, Video_in (True, True) 0 True a_p 80 False, Video_in (True, True) 0 True an_idr 120 False]" True
      "(True, True)" an_idr 40 False]
    by (simp add: JIPC_VIDEO_STREAMS_def configured_def)
qed


end
