(* ===== verification/Viewer.thy ===== *)
theory Viewer
  imports Media_Correct Rtp_Correct
begin

text \<open>
  A viewer of the RTSP server (\<open>Rtp\<close>) on the rings of the media daemon: what the server
  relies on of the frames it reads is an interface, the rings provide it, and together a
  viewer is only sent pictures it can decode.
\<close>

section \<open>The frames a server reads\<close>

text \<open>
  What a reader is promised: reading gives a frame later than the cursor and moves the
  cursor to its number, or gives none and leaves the cursor where it was.
\<close>

locale frame_source =
  fixes good :: "'m \<Rightarrow> bool"
    and rd :: "'m \<Rightarrow> u64 \<Rightarrow> int \<times> u64 \<times> frame"
  assumes rd_some: "good s \<Longrightarrow> rd s cur = (r, cur', f) \<Longrightarrow> 0 < r \<Longrightarrow> cur' = f_sequence f \<and> cur < f_sequence f"
    and rd_none: "good s \<Longrightarrow> rd s cur = (r, cur', f) \<Longrightarrow> r \<le> 0 \<Longrightarrow> cur' = cur"
begin

lemma cursor_moves: "good s \<Longrightarrow> rd s cur = (r, cur', f) \<Longrightarrow> cur \<le> cur'"
  using rd_some [of s cur r cur' f] rd_none [of s cur r cur' f] by (cases "0 < r") auto

end

text \<open>A source of pictures gives H.264 only.\<close>

locale picture_source = frame_source good rd
  for good :: "'m \<Rightarrow> bool" and rd :: "'m \<Rightarrow> u64 \<Rightarrow> int \<times> u64 \<times> frame" +
  assumes rd_codec: "good s \<Longrightarrow> rd s cur = (r, cur', f) \<Longrightarrow> 0 < r \<Longrightarrow> f_codec f = H264"

text \<open>The last picture sent is the one at the cursor, or the client waits for a keyframe.\<close>

definition follows :: "frame option \<Rightarrow> rtsp_client \<Rightarrow> bool" where
  "follows prev c = (need_keyframe c \<or>
     (case prev of None \<Rightarrow> False | Some g \<Rightarrow> cursor c ! 0 = f_sequence g \<and> f_sequence g \<noteq> 0))"

definition continues :: "frame option \<Rightarrow> frame \<Rightarrow> bool" where
  "continues prev f = (keyframe f \<or>
     (case prev of None \<Rightarrow> False | Some g \<Rightarrow> f_sequence f = f_sequence g + 1))"

fun decodable :: "frame option \<Rightarrow> frame list \<Rightarrow> bool" where
  "decodable prev [] = True"
| "decodable prev (f # fs) = (continues prev f \<and> decodable (Some f) fs)"

lemma choose_picture:
  assumes "is_setup (tracks c ! 0)" "net_read env (n_tick w) (nat (channel c)) (cursor c ! 0) = (r, cur, f)"
  defines "c1 \<equiv> c\<lparr>cursor := (cursor c)[0 := cur]\<rparr>"
  defines "gap \<equiv> cursor c ! 0 \<noteq> 0 \<and> f_sequence f \<noteq> cursor c ! 0 + 1 \<and> \<not> keyframe f \<and> \<not> need_keyframe c"
  shows "r \<le> 0 \<Longrightarrow> choose_frame env 0 c w = (r = 0, None, c1, n_next w)"
    and "0 < r \<Longrightarrow> f_codec f = H264 \<Longrightarrow> (need_keyframe c \<or> gap) \<and> \<not> keyframe f \<Longrightarrow>
      \<exists>w'. choose_frame env 0 c w = (True, None, c1\<lparr>need_keyframe := True\<rparr>, w')"
    and "0 < r \<Longrightarrow> f_codec f = H264 \<Longrightarrow> \<not> ((need_keyframe c \<or> gap) \<and> \<not> keyframe f) \<Longrightarrow>
      \<exists>w'. choose_frame env 0 c w = (True, Some f, c1\<lparr>need_keyframe := False\<rparr>, w')"
proof -
  show "r \<le> 0 \<Longrightarrow> choose_frame env 0 c w = (r = 0, None, c1, n_next w)"
    using assms(1,2) by (auto simp: choose_frame_def c1_def Let_def)
  show "0 < r \<Longrightarrow> f_codec f = H264 \<Longrightarrow> (need_keyframe c \<or> gap) \<and> \<not> keyframe f \<Longrightarrow>
      \<exists>w'. choose_frame env 0 c w = (True, None, c1\<lparr>need_keyframe := True\<rparr>, w')"
    using assms(1,2) by (auto simp: choose_frame_def c1_def gap_def Let_def)
  show "0 < r \<Longrightarrow> f_codec f = H264 \<Longrightarrow> \<not> ((need_keyframe c \<or> gap) \<and> \<not> keyframe f) \<Longrightarrow>
      \<exists>w'. choose_frame env 0 c w = (True, Some f, c1\<lparr>need_keyframe := False\<rparr>, w')"
    using assms(1,2) by (auto simp: choose_frame_def c1_def gap_def Let_def)
qed

context picture_source
begin

lemma choose_continues:
  assumes good: "good s" and env: "\<And>k cur. net_read env k (nat (channel c)) cur = rd s cur"
    and c: "cursor c \<noteq> []" and prev: "follows prev c"
    and choose: "choose_frame env 0 c w = (ok, chosen, c', w')"
  shows "cursor c' \<noteq> [] \<and> channel c' = channel c \<and>
     (case chosen of None \<Rightarrow> follows prev c' | Some f \<Rightarrow> continues prev f \<and> follows (Some f) c')"
proof (cases "is_setup (tracks c ! 0)")
  case False
  then show ?thesis using choose c prev by (auto simp: choose_frame_def)
next
  case True
  obtain r cur f where read: "rd s (cursor c ! 0) = (r, cur, f)" by (metis prod_cases3)
  let ?c = "c\<lparr>cursor := (cursor c)[0 := cur]\<rparr>"
  let ?gap = "cursor c ! 0 \<noteq> 0 \<and> f_sequence f \<noteq> cursor c ! 0 + 1 \<and> \<not> keyframe f \<and> \<not> need_keyframe c"
  note picks = choose_picture [where w = w and env = env, OF True env [THEN trans, OF read]]
  consider (none) "r \<le> 0" | (lost) "0 < r" "(need_keyframe c \<or> ?gap) \<and> \<not> keyframe f"
    | (sent) "0 < r" "\<not> ((need_keyframe c \<or> ?gap) \<and> \<not> keyframe f)" by linarith
  then show ?thesis
  proof cases
    case none
    then have "cur = cursor c ! 0" "chosen = None" "c' = ?c"
      using rd_none [OF good read] picks(1) choose by auto
    then show ?thesis using c prev by (auto simp: follows_def)
  next
    case lost
    then have "chosen = None" "c' = ?c\<lparr>need_keyframe := True\<rparr>"
      using picks(2) [OF lost(1) rd_codec [OF good read lost(1)] lost(2)] choose by auto
    then show ?thesis using c by (simp add: follows_def)
  next
    case sent
    then have "chosen = Some f" "c' = ?c\<lparr>need_keyframe := False\<rparr>"
      using picks(3) [OF sent(1) rd_codec [OF good read sent(1)] sent(2)] choose by auto
    moreover have "cur = f_sequence f" "f_sequence f \<noteq> 0"
      using rd_some [OF good read sent(1)] by auto
    moreover have "continues prev f"
      using sent(2) prev by (auto simp: continues_def follows_def split: option.splits)
    ultimately show ?thesis using c by (simp add: follows_def)
  qed
qed

end

section \<open>The rings are such a source\<close>

text \<open>The frame of a read that gives none is the cleared structure.\<close>

definition ring_read :: "bool \<Rightarrow> nat \<Rightarrow> media \<Rightarrow> u64 \<Rightarrow> int \<times> u64 \<times> frame" where
  "ring_read memory ch m cur =
     (case read_now memory ch cur m of
        (r, cur, f) \<Rightarrow> (r, cur, case f of None \<Rightarrow>
           \<lparr>f_data = [], pts_us = 0, f_sequence = 0, keyframe = False, f_codec = H264\<rparr> | Some f \<Rightarrow> f))"

lemma ring_read_cases:
  assumes "channel_holds ch m h" "ring_read memory ch m cur = (r, cur', f)"
  shows "(r \<le> 0 \<and> cur' = cur) \<or>
     (0 < r \<and> f \<in> set h \<and> cur' = f_sequence f \<and> cur < f_sequence f \<and> f_codec f = channel_codec ch)"
  using assms(1)
proof (cases rule: read_now_cases [of ch m h memory cur])
  case (quiet r)
  then show ?thesis using assms(2) by (auto simp: ring_read_def)
next
  case (frame i)
  have h: "length h < 2 ^ 64" "f_sequence (h ! i) = of_nat (Suc i)" "f_codec (h ! i) = channel_codec ch"
    using assms(1) frame(3) by (simp_all add: channel_holds_def ring_def)
  moreover have "cur < of_nat (Suc i)"
    using frame(3,4) h(1) by (simp add: word_less_nat_alt unat_length del: of_nat_Suc)
  ultimately show ?thesis using assms(2) frame(3,6) by (auto simp: ring_read_def simp del: of_nat_Suc)
qed

interpretation ring: frame_source "\<lambda>m. \<exists>h. channel_holds ch m h" "ring_read memory ch" for memory ch
  by unfold_locales (use ring_read_cases in force)+

interpretation pictures: picture_source "\<lambda>m. ch < JIPC_VIDEO_STREAMS \<and> (\<exists>h. channel_holds ch m h)" "ring_read memory ch"
  for memory ch
proof unfold_locales
  fix m cur r cur' f
  assume good: "ch < JIPC_VIDEO_STREAMS \<and> (\<exists>h. channel_holds ch m h)" and read: "ring_read memory ch m cur = (r, cur', f)"
  then obtain h where h: "channel_holds ch m h" by blast
  note facts = ring_read_cases [OF h read]
  show "cur' = f_sequence f \<and> cur < f_sequence f" if "0 < r" using facts that by auto
  show "cur' = cur" if "r \<le> 0" using facts that by auto
  show "f_codec f = H264" if "0 < r" using facts that good by (auto simp: channel_codec_def jipc_numbers)
qed

section \<open>The server on the rings\<close>

text \<open>
  The server's thread of one client among the threads of the daemon: \<open>Inr\<close> is a round of
  \<open>stream_frames\<close> for the video track, with the network and the clock as it finds them; the
  frames are those of the rings at that moment. The thread ends when sending fails.
\<close>

definition on_rings :: "bool \<Rightarrow> media \<Rightarrow> 'e rtp_env_scheme \<Rightarrow> 'e rtp_env_scheme" where
  "on_rings memory m env = env\<lparr>net_read := (\<lambda>k ch cur. ring_read memory ch m cur)\<rparr>"

fun viewer_run ::
  "media \<Rightarrow> rtsp_client \<Rightarrow> 'w rtp_net_scheme \<Rightarrow> (media_event + bool \<times> 'e rtp_env_scheme) list \<Rightarrow> frame list" where
  "viewer_run m c w [] = []"
| "viewer_run m c w (Inl e # es) = viewer_run (media_step m e) c w es"
| "viewer_run m c w (Inr (memory, env) # es) =
     (case choose_frame (on_rings memory m env) 0 c w of
        (_, chosen, _, _) \<Rightarrow>
          (case chosen of None \<Rightarrow> [] | Some f \<Rightarrow> [f]) @
          (case stream_track (on_rings memory m env) 0 c w of
             (False, _, _) \<Rightarrow> []
           | (True, c, w) \<Rightarrow> viewer_run m c w es))"

lemma rtcp_report_keeps:
  "rtcp_report env i bye c w = (ok, c', w') \<Longrightarrow>
     cursor c' = cursor c \<and> channel c' = channel c \<and> need_keyframe c' = need_keyframe c"
  by (auto simp: rtcp_report_def Let_def split: if_splits option.splits prod.splits)

lemma stream_track_keeps:
  assumes "choose_frame env 0 c w = (ok1, chosen, c1, w1)" "stream_track env 0 c w = (ok, c', w')"
  shows "cursor c' = cursor c1 \<and> channel c' = channel c1 \<and> need_keyframe c' = need_keyframe c1"
  using assms
  by (auto simp: stream_track_def Let_def dest!: rtcp_report_keeps split: if_splits option.splits prod.splits)

lemma follows_cong:
  "cursor c' = cursor c \<Longrightarrow> need_keyframe c' = need_keyframe c \<Longrightarrow> follows prev c' = follows prev c"
  by (simp add: follows_def cong: option.case_cong)

lemma viewer_decodable:
  assumes "channel_holds (nat (channel c)) m h" "nat (channel c) < JIPC_VIDEO_STREAMS"
    "length h + length es < 2 ^ 64" "cursor c \<noteq> []" "follows prev c"
  shows "decodable prev (viewer_run m c w es)"
  using assms
proof (induction m c w es arbitrary: h prev rule: viewer_run.induct)
  case (2 m c w e es)
  obtain fs where fs: "channel_holds (nat (channel c)) (media_step m e) (h @ fs)" "length fs \<le> 1"
    using step_holds [OF "2.prems"(1), of e] "2.prems"(3) by auto
  then show ?case using "2.IH" [OF fs(1) "2.prems"(2) _ "2.prems"(4,5)] "2.prems"(3) by simp
next
  case (3 m c w memory env es)
  let ?env = "on_rings memory m env"
  obtain ok1 chosen c1 w1 where choose: "choose_frame ?env 0 c w = (ok1, chosen, c1, w1)" by (metis prod_cases4)
  obtain ok c2 w2 where track: "stream_track ?env 0 c w = (ok, c2, w2)" by (metis prod_cases3)
  have good: "nat (channel c) < JIPC_VIDEO_STREAMS \<and> (\<exists>h. channel_holds (nat (channel c)) m h)"
    using "3.prems"(1,2) by blast
  have sent: "cursor c1 \<noteq> [] \<and> channel c1 = channel c \<and>
     (case chosen of None \<Rightarrow> follows prev c1 | Some f \<Rightarrow> continues prev f \<and> follows (Some f) c1)"
    using pictures.choose_continues [OF good, of ?env c memory prev w ok1 chosen c1 w1] "3.prems"(4,5) choose
    by (simp add: on_rings_def)
  have n: "length h + length es < 2 ^ 64" using "3.prems"(3) by simp
  note keeps = stream_track_keeps [OF choose track]
  have rest: "decodable p (viewer_run m c2 w2 es)" if "ok" "follows p c1" for p
    by (rule "3.IH" [OF choose [symmetric] refl refl track [symmetric] _ refl])
      (use that n "3.prems"(1,2) sent keeps in \<open>simp_all add: follows_cong [of c2 c1]\<close>)
  show ?case
    using sent rest choose track by (cases chosen; cases ok) auto
qed simp

text \<open>C1. Whatever the daemon's threads, the network and the allocator do, the pictures a viewer
  of an RTSP session is sent start with a keyframe and each other one is the direct successor of
  the one sent before it: a decoder is never given a picture without its reference.\<close>

theorem viewers_get_decodable_video:
  assumes "nat (channel c) < JIPC_VIDEO_STREAMS" "need_keyframe c" "cursor c \<noteq> []" "length es < 2 ^ 64"
  shows "decodable None (viewer_run jipc_streams_init c w es)"
proof (rule viewer_decodable)
  show "channel_holds (nat (channel c)) jipc_streams_init []"
    using assms(1) by (intro channel_holds_init) (simp add: jipc_numbers)
qed (use assms in \<open>simp_all add: follows_def\<close>)

definition sample_viewer :: rtsp_client where
  "sample_viewer = \<lparr> channel = 0, playing = True, need_keyframe = True, client_id = 1, backchannel = False,
       tracks = [sample_track\<lparr>tcp := False, rtp_fd := 5\<rparr>], input_buffer = [], nonce = [], session_id = [], base_uri = [],
       nonce_us = 0, last_activity_us = 0, cursor = [0, 0], pts_origin_us = 0, mono_origin_us = 0,
       clock_started = False, nonce_count = 0 \<rparr>"

lemma start_code_sample: "start_code an_idr 0 = (0, 3)" "start_code an_idr 3 = (5, 0)"
  "start_code a_p 0 = (0, 3)" "start_code a_p 3 = (5, 0)"
  by (simp_all add: an_idr_def a_p_def start_code.simps)

lemma unit_sample: "trim_zeros an_idr 3 5 = 5" "trim_zeros a_p 3 5 = 5"
  "take 2 (drop 3 an_idr) = [0x65, 1]" "take 2 (drop 3 a_p) = [0x41, 1]"
  by (simp_all add: an_idr_def a_p_def numeral_eq_Suc)

lemma viewer_sample:
  "viewer_run jipc_streams_init sample_viewer sample_net
      [Inl (video a_p 40), Inr (True, sample_rtp_env), Inl (video an_idr 80), Inr (True, sample_rtp_env),
       Inl (video a_p 120), Inr (True, sample_rtp_env)] =
    [\<lparr>f_data = an_idr, pts_us = 80, f_sequence = 2, keyframe = True, f_codec = H264\<rparr>,
     \<lparr>f_data = a_p, pts_us = 120, f_sequence = 3, keyframe = False, f_codec = H264\<rparr>]"
  by (simp add: ring_eval video_def choose_frame_def stream_track_def on_rings_def ring_read_def sample_viewer_def
    sample_net_def sample_rtp_env_def sample_track_def n_next_def video_frame_def h264_nal_def rtp_def send_transport_def start_code_sample
    nal_units.simps RTP_PAYLOAD_MAX_def request_idr_def rtp_packet_def unit_sample write_be16_def write_be32_def)

lemma viewers_get_decodable_video_witness:
  "\<exists>fs. length fs = 2 \<and> decodable None fs \<and> viewer_run jipc_streams_init sample_viewer sample_net
      [Inl (video a_p 40), Inr (True, sample_rtp_env), Inl (video an_idr 80), Inr (True, sample_rtp_env),
       Inl (video a_p 120), Inr (True, sample_rtp_env)] = fs"
  using viewers_get_decodable_video [of sample_viewer "[Inl (video a_p 40), Inr (True, sample_rtp_env),
      Inl (video an_idr 80), Inr (True, sample_rtp_env), Inl (video a_p 120), Inr (True, sample_rtp_env)]" sample_net]
  unfolding viewer_sample by (simp add: sample_viewer_def JIPC_VIDEO_STREAMS_def)

end
