(* ===== verification/Media_Audio.thy ===== *)
theory Media_Audio
  imports Alaw
begin

text \<open>
  Sound in the media daemon: its own A-law coder and the clock that stamps the frames of the
  microphone (\<open>media/src/audio.c\<close>), and the tones of the siren (\<open>media/src/siren.c\<close>). Times
  in microseconds and counts of samples are natural numbers; they stay far below the 64 bits
  of the code.
\<close>

section \<open>A-law\<close>

function alaw_threshold :: "u32 \<Rightarrow> nat \<Rightarrow> u32 \<Rightarrow> nat" where
  "alaw_threshold magnitude segment threshold =
     (if segment < 7 \<and> threshold \<le> magnitude then alaw_threshold magnitude (segment + 1) (push_bit 1 threshold)
      else segment)"
  by pat_completeness auto
termination by (relation "measure (\<lambda>(m, segment, t). 7 - segment)") auto

declare alaw_threshold.simps [simp del]

definition jipc_alaw_encode :: "int \<Rightarrow> byte" where
  "jipc_alaw_encode sample =
     (let mask = (if 0 \<le> sample then 0xd5 else 0x55 :: byte);
          magnitude = (if 0 \<le> sample then word_of_int sample else word_of_int (- sample - 1) :: u32);
          magnitude = (if 32767 < magnitude then 32767 else magnitude);
          segment = alaw_threshold magnitude 0 256;
          quantized = (if segment \<noteq> 0 then drop_bit (segment + 3) magnitude else drop_bit 4 magnitude)
      in ucast (push_bit 4 (of_nat segment) OR (quantized AND 15)) XOR mask)"

definition jipc_alaw_decode :: "byte \<Rightarrow> int" where
  "jipc_alaw_decode code =
     (let value = code XOR 0x55; segment = unat (drop_bit 4 value AND 7);
          magnitude = push_bit 4 (uint (value AND 15)) + 8;
          magnitude = (if segment \<noteq> 0 then magnitude + 256 else magnitude);
          magnitude = (if 1 < segment then push_bit (segment - 1) magnitude else magnitude)
      in if value AND 128 \<noteq> 0 then magnitude else - magnitude)"

lemma alaw_threshold_spec:
  assumes "unat m < 32768"
  shows "alaw_threshold m 0 256 = g711_segment (unat m div 8)"
proof -
  have u: "n \<le> m \<longleftrightarrow> unat n \<le> unat m" for n by (simp add: word_le_nat_alt)
  consider "unat m < 256" | "256 \<le> unat m" "unat m < 512" | "512 \<le> unat m" "unat m < 1024"
    | "1024 \<le> unat m" "unat m < 2048" | "2048 \<le> unat m" "unat m < 4096" | "4096 \<le> unat m" "unat m < 8192"
    | "8192 \<le> unat m" "unat m < 16384" | "16384 \<le> unat m" using assms by linarith
  then show ?thesis
    by cases
      (use assms in \<open>simp_all add: alaw_threshold.simps u g711_segment_0
        g711_segment_eqI [where s = 1] g711_segment_eqI [where s = 2] g711_segment_eqI [where s = 3]
        g711_segment_eqI [where s = 4] g711_segment_eqI [where s = 5] g711_segment_eqI [where s = 6]
        g711_segment_eqI [where s = 7]\<close>)
qed

definition media_clip :: "int \<Rightarrow> nat" where
  "media_clip x = min 32767 (nat (if 0 \<le> x then x else - x - 1))"

lemma jipc_encode_spec:
  assumes "- 2147483648 \<le> x" "x < 2147483648"
  shows "alaw_code (jipc_alaw_encode x) = g711_compress (media_clip x div 8)"
    and "alaw_positive (jipc_alaw_encode x) = (0 \<le> x)"
proof -
  define mag :: u32 where "mag = (if 0 \<le> x then word_of_int x else word_of_int (- x - 1))"
  define m :: u32 where "m = (if 32767 < mag then 32767 else mag)"
  have um: "unat mag = nat (if 0 \<le> x then x else - x - 1)"
    using assms unat_word_of_int32 [of x] unat_word_of_int32 [of "- x - 1"] unfolding mag_def by auto
  have ud: "unat m = media_clip x"
    by (simp add: m_def media_clip_def um [symmetric] word_less_nat_alt min_def)
  then have m: "unat m < 32768" by (simp add: media_clip_def)
  let ?s = "g711_segment (unat m div 8)"
  have s: "alaw_threshold m 0 256 = ?s" by (rule alaw_threshold_spec [OF m])
  have s8: "?s < 8" using alaw_segment_spec(2) [of "drop_bit 3 m"] m by (simp add: unat_drop_bit)
  define q where "q = (if ?s \<noteq> 0 then drop_bit (?s + 3) m else drop_bit 4 m)"
  define v :: u32 where "v = push_bit 4 (of_nat ?s) OR (q AND 15)"
  have us: "unat (of_nat ?s :: u32) = ?s" using s8 by (simp add: unat_of_nat take_bit_nat_eq_self)
  have uq: "unat q = unat m div 8 div 2 ^ max ?s 1"
  proof -
    have "max ?s 1 = (if ?s = 0 then 1 else ?s)" by simp
    then show ?thesis by (simp add: q_def unat_drop_bit div_mult2_eq [symmetric] power_add mult.commute)
  qed
  have uv: "unat v = g711_compress (unat m div 8)"
    using s8 us unat_nibbles [of "of_nat ?s" q] by (simp add: v_def uq g711_compress_def Let_def)
  have cl: "unat v < 128"
    using s8 mod_less_divisor [of 16 "unat m div 8 div 2 ^ max ?s 1"]
    unfolding uv g711_compress_def Let_def by linarith
  have e: "jipc_alaw_encode x = ucast v XOR (if 0 \<le> x then 0xd5 else 0x55)"
    by (simp only: jipc_alaw_encode_def Let_def mag_def [symmetric] m_def [symmetric] s q_def [symmetric] v_def [symmetric])
  have uc: "unat (ucast v :: byte) = unat v"
    using cl by (simp add: unsigned_ucast_eq take_bit_nat_eq_self)
  have "jipc_alaw_encode x XOR 0x55 = (if 0 \<le> x then ucast v XOR 0x80 else ucast v)"
    by (simp add: e xor.assoc)
  then have "unat (jipc_alaw_encode x XOR 0x55) = (if 0 \<le> x then unat v + 128 else unat v)"
    using cl by (simp add: unat_sign_bit uc)
  then show "alaw_code (jipc_alaw_encode x) = g711_compress (media_clip x div 8)"
    "alaw_positive (jipc_alaw_encode x) = (0 \<le> x)"
    using cl by (auto simp: alaw_code_def alaw_positive_def uv ud)
qed

lemma g711_compress_top: "3968 \<le> m \<Longrightarrow> m < 4096 \<Longrightarrow> g711_compress m = 127"
proof -
  assume m: "3968 \<le> m" "m < 4096"
  have s: "g711_segment m = 7" using m by (intro g711_segment_eqI) simp_all
  have "m div 128 = 31" using m by (intro div_nat_eqI) simp_all
  then show ?thesis by (simp add: g711_compress_def s)
qed

lemma decode_all: "list_all (\<lambda>b. jipc_alaw_decode b = sint (jooan_alaw_decode_sample b)) all_bytes"
  by code_simp

text \<open>C39. The daemon codes every 16-bit sample as the audio router does, although it finds the
  segment with a moving threshold and clips elsewhere; and it reads a code as the router does.\<close>

theorem media_alaw_is_the_routers:
  "jipc_alaw_encode (sint x) = jooan_alaw_encode_sample x \<and>
   jipc_alaw_decode b = sint (jooan_alaw_decode_sample b)"
proof
  have rng: "- 32768 \<le> sint x" "sint x < 32768" using sint_ge [of x] sint_lt [of x] by simp_all
  define y where "y = nat (if 0 \<le> sint x then sint x else - sint x - 1)"
  have y: "y < 32768" using rng by (auto simp: y_def)
  have "g711_compress (min 32767 y div 8) = g711_compress (min 32635 y div 8)"
  proof (cases "32635 < y")
    case True
    then have "min 32635 y div 8 = 4079" "3968 \<le> min 32767 y div 8" "min 32767 y div 8 < 4096" using y by auto
    then show ?thesis by (simp add: g711_compress_top)
  next
    case False
    then show ?thesis by (simp add: min_def)
  qed
  then show "jipc_alaw_encode (sint x) = jooan_alaw_encode_sample x"
    using jipc_encode_spec [of "sint x"] alaw_encode_spec [of x] rng
    by (intro alaw_byte_eqI) (simp_all add: media_clip_def alaw_clip_def y_def)
  show "jipc_alaw_decode b = sint (jooan_alaw_decode_sample b)"
    using all_bytes_check [of "\<lambda>b. jipc_alaw_decode b = sint (jooan_alaw_decode_sample b)" b] decode_all by simp
qed

section \<open>The clock of the microphone\<close>

record audio_clock =
  anchor_us :: nat
  clock_samples :: nat
  clock_rate :: nat
  clock_running :: bool

definition jipc_audio_clock_init :: "nat \<Rightarrow> audio_clock" where
  "jipc_audio_clock_init rate =
     \<lparr>anchor_us = 0, clock_samples = 0, clock_rate = (if rate \<noteq> 0 then rate else 8000), clock_running = False\<rparr>"

definition samples_us :: "nat \<Rightarrow> nat \<Rightarrow> nat" where
  "samples_us samples rate = samples div rate * 1000000 + samples mod rate * 1000000 div rate"

definition jipc_audio_clock_ahead :: "audio_clock \<Rightarrow> nat \<Rightarrow> nat \<Rightarrow> bool" where
  "jipc_audio_clock_ahead c now samples =
     (clock_running c \<and> now + 150000 < anchor_us c + samples_us (clock_samples c + samples) (clock_rate c))"

text \<open>The stamp of a frame, and whether the timeline starts anew.\<close>

definition jipc_audio_clock_stamp :: "audio_clock \<Rightarrow> nat \<Rightarrow> nat \<Rightarrow> nat \<times> bool \<times> audio_clock" where
  "jipc_audio_clock_stamp c now samples =
     (let duration = samples_us samples (clock_rate c);
          restart = (if clock_running c
            then anchor_us c + samples_us (clock_samples c + samples) (clock_rate c) + 150000 < now else True);
          c = (if restart then c\<lparr>anchor_us := if duration < now then now - duration else 0,
                                 clock_samples := 0, clock_running := True\<rparr> else c);
          pts = anchor_us c + samples_us (clock_samples c) (clock_rate c)
      in (pts, restart, c\<lparr>clock_samples := clock_samples c + samples\<rparr>))"

text \<open>
  The microphone thread (\<open>imp_backend.c\<close>): a frame that would run ahead is dropped, any
  other is stamped. What comes out is the time of the frame's end of capture, its stamp and
  the stamp its successor would have.
\<close>

fun stamped :: "audio_clock \<Rightarrow> (nat \<times> nat) list \<Rightarrow> (nat \<times> nat \<times> nat) list" where
  "stamped c [] = []"
| "stamped c ((now, samples) # fs) =
     (if jipc_audio_clock_ahead c now samples then stamped c fs
      else case jipc_audio_clock_stamp c now samples of
        (pts, _, c) \<Rightarrow> (now, pts, anchor_us c + samples_us (clock_samples c) (clock_rate c)) # stamped c fs)"

lemma samples_us_exact: "samples_us n r = n * 1000000 div r"
proof (cases "r = 0")
  case False
  have "n * 1000000 = (n div r * r + n mod r) * 1000000" by simp
  also have "\<dots> = n mod r * 1000000 + (n div r * 1000000) * r"
    by (simp only: add_mult_distrib ac_simps)
  finally have "n * 1000000 = n mod r * 1000000 + (n div r * 1000000) * r" .
  then show ?thesis using False unfolding samples_us_def by (simp only: div_mult_self1) simp
qed (simp add: samples_us_def)

lemma samples_us_add: "samples_us n r + samples_us k r \<le> samples_us (n + k) r"
  using div_add1_eq [of "n * 1000000" "k * 1000000" r]
  unfolding samples_us_exact add_mult_distrib by linarith

definition clock_end :: "audio_clock \<Rightarrow> nat" where
  "clock_end c = anchor_us c + samples_us (clock_samples c) (clock_rate c)"

lemma clock_end_with: "clock_end (c\<lparr>clock_samples := n\<rparr>) = anchor_us c + samples_us n (clock_rate c)"
  by (simp add: clock_end_def)

lemma stamp_facts:
  assumes "jipc_audio_clock_stamp c now n = (pts, restart, c')"
  shows "clock_running c'" "clock_rate c' = clock_rate c"
    and "clock_running c \<Longrightarrow> pts = clock_end c \<or> clock_end c + 150000 < pts"
    and "pts + samples_us n (clock_rate c) \<le> clock_end c'"
    and "now \<le> clock_end c' + 150000"
    and "\<not> jipc_audio_clock_ahead c now n \<Longrightarrow> samples_us n (clock_rate c) \<le> 150000 \<Longrightarrow> clock_end c' \<le> now + 150000"
proof -
  let ?d = "samples_us n (clock_rate c)"
  let ?stop = "anchor_us c + samples_us (clock_samples c + n) (clock_rate c)"
  have z: "samples_us 0 (clock_rate c) = 0" by (simp add: samples_us_def)
  note add = samples_us_add [of "clock_samples c" "clock_rate c" n]
  consider (go) "clock_running c" "\<not> ?stop + 150000 < now" | (new) "\<not> (clock_running c \<and> \<not> ?stop + 150000 < now)" by blast
  then have "clock_running c' \<and> clock_rate c' = clock_rate c \<and>
     (clock_running c \<longrightarrow> pts = clock_end c \<or> clock_end c + 150000 < pts) \<and>
     pts + ?d \<le> clock_end c' \<and> now \<le> clock_end c' + 150000 \<and>
     (\<not> jipc_audio_clock_ahead c now n \<longrightarrow> ?d \<le> 150000 \<longrightarrow> clock_end c' \<le> now + 150000)"
  proof cases
    case go
    then have "pts = clock_end c" "c' = c\<lparr>clock_samples := clock_samples c + n\<rparr>"
      using assms by (simp_all add: jipc_audio_clock_stamp_def clock_end_def Let_def)
    then show ?thesis using go add by (simp add: clock_end_def jipc_audio_clock_ahead_def)
  next
    case new
    then have r: "(if clock_running c then ?stop + 150000 < now else True) = True" by auto
    have "pts = (if ?d < now then now - ?d else 0)"
      "c' = c\<lparr>anchor_us := pts, clock_samples := n, clock_running := True\<rparr>"
      using assms z unfolding jipc_audio_clock_stamp_def Let_def r by auto
    then show ?thesis using new add by (auto simp: clock_end_def)
  qed
  then show "clock_running c'" "clock_rate c' = clock_rate c"
    "clock_running c \<Longrightarrow> pts = clock_end c \<or> clock_end c + 150000 < pts"
    "pts + ?d \<le> clock_end c'" "now \<le> clock_end c' + 150000"
    "\<not> jipc_audio_clock_ahead c now n \<Longrightarrow> ?d \<le> 150000 \<Longrightarrow> clock_end c' \<le> now + 150000" by blast+
qed

text \<open>
  A timeline of frames: none begins before the one before it ends, one begins exactly there
  unless more than 150 ms are missing, and none ends more than 150 ms away from its capture.
\<close>

fun timeline :: "nat option \<Rightarrow> (nat \<times> nat \<times> nat) list \<Rightarrow> bool" where
  "timeline prev [] = True"
| "timeline prev ((now, pts, e) # xs) =
     (pts \<le> e \<and> e \<le> now + 150000 \<and> now \<le> e + 150000 \<and>
      (case prev of None \<Rightarrow> True | Some p \<Rightarrow> pts = p \<or> p + 150000 < pts) \<and> timeline (Some e) xs)"

lemma stamped_timeline:
  "\<forall>(now, n)\<in>set fs. samples_us n (clock_rate c) \<le> 150000 \<Longrightarrow>
     prev = (if clock_running c then Some (clock_end c) else None) \<Longrightarrow> timeline prev (stamped c fs)"
proof (induction c fs arbitrary: prev rule: stamped.induct)
  case (2 c now samples fs)
  show ?case
  proof (cases "jipc_audio_clock_ahead c now samples")
    case True
    then show ?thesis using "2.IH"(1) [OF True] "2.prems" by simp
  next
    case False
    obtain pts restart c' where st: "jipc_audio_clock_stamp c now samples = (pts, restart, c')" by (metis prod_cases3)
    note f = stamp_facts [OF st]
    have "timeline (Some (clock_end c')) (stamped c' fs)"
      using "2.IH"(2) [OF False st [symmetric] refl, of "Some (clock_end c')"] "2.prems" f(1,2) by simp
    then show ?thesis
      using False st f(3-6) "2.prems" by (auto simp: clock_end_def [symmetric])
  qed
qed simp

text \<open>C40. However the frames of the microphone arrive, as long as none is longer than 150 ms,
  the stamps are a timeline: sound is never repeated, only a stall of more than 150 ms leaves a
  gap, and the stamps stay within 150 ms of the capture.\<close>

theorem microphone_stamps_are_a_timeline:
  assumes "\<forall>(now, n)\<in>set fs. samples_us n (if rate \<noteq> 0 then rate else 8000) \<le> 150000"
  shows "timeline None (stamped (jipc_audio_clock_init rate) fs)"
  using stamped_timeline [of fs "jipc_audio_clock_init rate" None] assms
  by (simp add: jipc_audio_clock_init_def)

lemma microphone_stamps_are_a_timeline_witness:
  "stamped (jipc_audio_clock_init 8000) [(40000, 320), (79000, 320), (80000, 1200), (900000, 320)] =
     [(40000, 0, 40000), (79000, 40000, 80000), (80000, 80000, 230000), (900000, 860000, 900000)] \<and>
   timeline None (stamped (jipc_audio_clock_init 8000) [(40000, 320), (79000, 320), (80000, 1200), (900000, 320)])"
  using microphone_stamps_are_a_timeline [of "[(40000, 320), (79000, 320), (80000, 1200), (900000, 320)]" 8000]
  by (simp add: samples_us_def jipc_audio_clock_init_def jipc_audio_clock_stamp_def jipc_audio_clock_ahead_def Let_def)

section \<open>The siren\<close>

definition RATE :: nat where "RATE = 8000"
definition FULL :: nat where "FULL = 26000"
definition SOFT :: nat where "SOFT = 11000"
definition RAMP :: nat where "RAMP = RATE div 200"
definition JIPC_SIREN_SOUNDS :: nat where "JIPC_SIREN_SOUNDS = 4"

record siren =
  sound :: nat
  siren_t :: nat
  siren_phase :: nat

definition jipc_siren_name :: "nat \<Rightarrow> string option" where
  "jipc_siren_name n =
     (if n < JIPC_SIREN_SOUNDS then Some ([''alarm'', ''two_tone'', ''pulse'', ''chime''] ! n) else None)"

definition jipc_siren_sound :: "string option \<Rightarrow> int" where
  "jipc_siren_sound name =
     (case filter (\<lambda>i. name = jipc_siren_name i \<and> name \<noteq> None) [0..<JIPC_SIREN_SOUNDS] of
        [] \<Rightarrow> -1 | i # _ \<Rightarrow> int i)"

definition jipc_siren_init :: "nat \<Rightarrow> siren" where
  "jipc_siren_init n = \<lparr>sound = if n < JIPC_SIREN_SOUNDS then n else 0, siren_t = 0, siren_phase = 0\<rparr>"

definition wave :: "nat \<Rightarrow> int" where
  "wave phase =
     (let x = int (phase mod 32768); y = x * (32768 - x) div 8192
      in if 32768 \<le> phase then - y else y)"

definition siren_ramp :: "nat \<Rightarrow> nat \<Rightarrow> nat" where
  "siren_ramp t len = (let edge = (if t < len - t then t else len - t) in if RAMP \<le> edge then RAMP else edge)"

text \<open>The frequency and the level of a sound at a sample of its cycle.\<close>

definition tone :: "nat \<Rightarrow> nat \<Rightarrow> nat \<times> nat" where
  "tone kind t =
     (if kind = 1 then
        let at = t mod RATE; within = at mod (RATE div 2)
        in (if at < RATE div 2 then 1100 else 800, FULL * siren_ramp within (RATE div 2) div RAMP)
      else if kind = 2 then
        let len = RATE * 150 div 1000; at = t mod (2 * len)
        in (1500, if at < len then FULL * siren_ramp at len div RAMP else 0)
      else if kind = 3 then
        let first = RATE * 6 div 10; second = RATE * 8 div 10; at = t mod (RATE * 24 div 10);
            len = (if at < first then first else second); within = (if at < first then at else at - first);
            hz = (if at < first then 880 else 660)
        in if first + second \<le> at then (hz, 0)
           else let left = len - within; rise = (if within < RAMP then within else RAMP)
                in (hz, SOFT * left * left div (len * len) * rise div RAMP)
      else
        let period = 2 * RATE; at = t mod period; up = (if at < period div 2 then at else period - at)
        in (500 + 1000 * up div (period div 2), FULL))"

text \<open>The value of the next sample before it is coded; the very first ones fade in.\<close>

definition siren_sample :: "siren \<Rightarrow> int \<times> siren" where
  "siren_sample g =
     (let (hz, level) = tone (sound g) (siren_t g);
          level = (if siren_t g < RAMP then level * siren_t g div RAMP else level);
          phase = (siren_phase g + hz * 65536 div RATE) mod 65536
      in (wave phase * int level div 32768,
          g\<lparr>siren_phase := phase, siren_t := (siren_t g + 1) mod 4294967296\<rparr>))"

fun jipc_siren_fill :: "siren \<Rightarrow> nat \<Rightarrow> byte list \<times> siren" where
  "jipc_siren_fill g 0 = ([], g)"
| "jipc_siren_fill g (Suc n) =
     (let (x, g) = siren_sample g; (bs, g) = jipc_siren_fill g n in (jipc_alaw_encode x # bs, g))"

lemma wave_bound: "\<bar>wave p\<bar> \<le> 32768"
proof -
  let ?x = "int (p mod 32768)"
  have x: "0 \<le> ?x" "?x < 32768" by simp_all
  have "0 \<le> (?x - 16384) * (?x - 16384)" by simp
  then have hi: "?x * (32768 - ?x) \<le> 268435456" by (simp add: algebra_simps)
  have lo: "0 \<le> ?x * (32768 - ?x)" using x by (intro mult_nonneg_nonneg) auto
  have "?x * (32768 - ?x) div 8192 \<le> 268435456 div 8192" using hi by (intro zdiv_mono1) auto
  moreover have "0 \<le> ?x * (32768 - ?x) div 8192" using lo by (simp only: pos_imp_zdiv_nonneg_iff)
  ultimately have "\<bar>?x * (32768 - ?x) div 8192\<bar> \<le> 32768" by linarith
  then show ?thesis unfolding wave_def Let_def by (simp only: abs_minus_cancel split: if_split) blast
qed

lemma scaled_le: "a \<le> b \<Longrightarrow> 0 < b \<Longrightarrow> n * a div b \<le> (n :: nat)"
  by (metis div_le_mono mult_le_mono2 nonzero_mult_div_cancel_right not_gr_zero)

lemma ramp_le: "siren_ramp t len \<le> RAMP"
  by (simp add: siren_ramp_def Let_def)

lemma tone_level: "snd (tone kind t) \<le> FULL"
proof -
  have r: "0 < RAMP" by (simp add: RAMP_def RATE_def)
  have full: "FULL * siren_ramp a b div RAMP \<le> FULL" for a b by (rule scaled_le [OF ramp_le r])
  have soft: "SOFT * (len - w) * (len - w) div (len * len) * rise div RAMP \<le> FULL" if "rise \<le> RAMP" "0 < len" for len w rise
  proof -
    have "SOFT * ((len - w) * (len - w)) div (len * len) \<le> SOFT"
      by (rule scaled_le) (use that in \<open>auto intro: mult_le_mono\<close>)
    then have "SOFT * (len - w) * (len - w) div (len * len) \<le> SOFT" by (simp add: mult.assoc)
    moreover have "SOFT * (len - w) * (len - w) div (len * len) * rise div RAMP \<le> SOFT * (len - w) * (len - w) div (len * len)"
      by (rule scaled_le [OF that(1) r])
    ultimately show ?thesis by (simp add: SOFT_def FULL_def)
  qed
  show ?thesis unfolding tone_def Let_def
    using full soft by (auto simp: RATE_def)
qed

text \<open>No sample of the siren is clipped, whatever the sound and wherever it is in it: the
  level the sound is made for is the loudest it gets.\<close>

theorem siren_never_clips: "\<bar>fst (siren_sample g)\<bar> \<le> int FULL"
proof -
  obtain hz level where t: "tone (sound g) (siren_t g) = (hz, level)" by fastforce
  define l where "l = (if siren_t g < RAMP then level * siren_t g div RAMP else level)"
  define p where "p = (siren_phase g + hz * 65536 div RATE) mod 65536"
  have "level \<le> FULL" using tone_level [of "sound g" "siren_t g"] t by simp
  moreover have "l \<le> level" using scaled_le [of "siren_t g" RAMP level] by (auto simp: l_def)
  ultimately have l: "int l \<le> int FULL" by simp
  have "\<bar>wave p * int l\<bar> \<le> 32768 * int FULL"
    unfolding abs_mult using wave_bound [of p] l by (intro mult_mono) auto
  then have "- (32768 * int FULL) \<le> wave p * int l" "wave p * int l \<le> 32768 * int FULL" by auto
  then have "- int FULL \<le> wave p * int l div 32768" "wave p * int l div 32768 \<le> int FULL" by linarith+
  then show ?thesis by (simp add: siren_sample_def Let_def t l_def [symmetric] p_def [symmetric])
qed

end
