(* ===== verification/Speaker.thy ===== *)
theory Speaker
  imports Media_Audio
begin

text \<open>
  The speaker service (\<open>media/src/speaker.c\<close>): one thread owns the audio output and the
  amplifier; talkers and the siren change its state under a mutex. A step of the thread is
  what it does from one release of the mutex to the next, beginning with the call on the
  output that it made without the mutex; every operation of the others is one step. The
  samples are of any type, as the service only moves them: \<open>byte\<close> is the program.
\<close>

section \<open>State\<close>

definition QUEUE_BYTES :: nat where "QUEUE_BYTES = 16000"
definition TRIM_ABOVE :: nat where "TRIM_ABOVE = 4800"
definition TRIM_TO :: nat where "TRIM_TO = 2400"
definition RELEASE_TAIL :: nat where "RELEASE_TAIL = 1600"
definition DEADMAN_US :: nat where "DEADMAN_US = 500000"
definition HALF_DUPLEX_TAIL_US :: nat where "HALF_DUPLEX_TAIL_US = 300000"
definition MUTE_ATTEMPTS :: nat where "MUTE_ATTEMPTS = 100"
definition JIPC_SPEAKER_FRAME :: nat where "JIPC_SPEAKER_FRAME = 320"
definition speaker_idle_close_us :: nat where "speaker_idle_close_us = 10000000"
definition speaker_retry_unit_us :: nat where "speaker_retry_unit_us = 1000000"
definition JIPC_SIREN_MAX_SECONDS :: nat where "JIPC_SIREN_MAX_SECONDS = 300"

text \<open>What a frame is filled with, and the calls on the output with their success, newest first.\<close>

datatype 'a sound_frame = Talk "'a list" | Siren_sound "byte list" | Quiet

datatype 'a sink_call =
    Sink_open int | Amplifier bool | Play "'a sound_frame" | Sink_volume int | Sink_close

text \<open>Where the thread has released the mutex: the call it is in, or the wait.\<close>

datatype 'a speaker_pc =
    Top | Muting nat | Closing | Opening int bool | Settling | Stopping bool bool | Restoring int
  | Siren_gain int | Underrun | Writing "'a sound_frame" | Ended

record 'a speaker =
  queue :: "'a list"
  head :: nat
  queued :: nat
  leased :: bool
  session :: bool
  released :: bool
  owner :: u64
  owner_ssrc :: u32
  last_submit_us :: nat
  session_end_us :: nat
  out_open :: bool
  volume :: int
  faulted :: bool
  mute_pending :: bool
  mute_attempts :: nat
  write_errors :: nat
  backoff_s :: nat
  retry_us :: nat
  sessions_begun :: nat
  played_frames :: nat
  dropped_bytes :: nat
  refused :: nat
  faults :: nat
  siren_on :: bool
  siren_volume :: int
  siren_volume_applied :: int
  volume_restore :: bool
  siren_until :: nat
  siren_state :: siren
  speaker_error :: string
  full_duplex :: bool
  quit :: bool
  gate_released :: bool
  pc :: "'a speaker_pc"
  calls :: "('a sink_call \<times> bool) list"

text \<open>What the thread finds in a step: the clock, the boot hook's marker, and how calls end.\<close>

record speaker_in =
  in_now :: nat
  in_gate :: bool
  in_open :: bool
  in_amp :: bool
  in_write :: bool
  in_volume :: bool
  in_error :: string

definition call :: "'a sink_call \<Rightarrow> bool \<Rightarrow> 'a speaker \<Rightarrow> 'a speaker" where
  "call c ok s = s\<lparr>calls := (c, ok) # calls s\<rparr>"

text \<open>The thread's start; the amplifier may have been left on before a crash.\<close>

definition jipc_speaker_start :: "'a \<Rightarrow> bool \<Rightarrow> bool \<Rightarrow> 'a speaker" where
  "jipc_speaker_start z duplex gate =
     \<lparr>queue = replicate QUEUE_BYTES z, head = 0, queued = 0, leased = False, session = False, released = False,
      owner = 0, owner_ssrc = 0, last_submit_us = 0, session_end_us = 0, out_open = False, volume = 60,
      faulted = False, mute_pending = gate, mute_attempts = 0, write_errors = 0, backoff_s = 0, retry_us = 0,
      sessions_begun = 0, played_frames = 0, dropped_bytes = 0, refused = 0, faults = 0, siren_on = False,
      siren_volume = 0, siren_volume_applied = 0, volume_restore = False, siren_until = 0,
      siren_state = \<lparr>sound = 0, siren_t = 0, siren_phase = 0\<rparr>, speaker_error = [], full_duplex = duplex,
      quit = False, gate_released = gate, pc = Top, calls = []\<rparr>"

section \<open>The queue\<close>

fun ring_write :: "'a list \<Rightarrow> nat \<Rightarrow> 'a list \<Rightarrow> 'a list" where
  "ring_write q p [] = q"
| "ring_write q p (b # bs) = ring_write (q[p mod QUEUE_BYTES := b]) (p + 1) bs"

definition queue_push :: "'a list \<Rightarrow> 'a speaker \<Rightarrow> 'a speaker" where
  "queue_push bs s = s\<lparr>queue := ring_write (queue s) (head s + queued s) bs, queued := queued s + length bs\<rparr>"

definition drop_oldest :: "nat \<Rightarrow> 'a speaker \<Rightarrow> 'a speaker" where
  "drop_oldest n s =
     (let n = (if queued s < n then queued s else n)
      in s\<lparr>head := (head s + n) mod QUEUE_BYTES, queued := queued s - n, dropped_bytes := dropped_bytes s + n\<rparr>)"

text \<open>The oldest samples, at most a frame of them.\<close>

definition queue_take :: "'a speaker \<Rightarrow> 'a list \<times> 'a speaker" where
  "queue_take s =
     (let n = (if queued s < JIPC_SPEAKER_FRAME then queued s else JIPC_SPEAKER_FRAME)
      in (map (\<lambda>i. queue s ! ((head s + i) mod QUEUE_BYTES)) [0..<n],
          s\<lparr>head := (head s + n) mod QUEUE_BYTES, queued := queued s - n\<rparr>))"

text \<open>Room for what is accepted; a backchannel that ran ahead is cut back.\<close>

definition queue_accept :: "bool \<Rightarrow> 'a list \<Rightarrow> 'a speaker \<Rightarrow> 'a speaker" where
  "queue_accept http pcma s =
     (let s = queue_push pcma (if QUEUE_BYTES < queued s + length pcma
                               then drop_oldest (queued s + length pcma - QUEUE_BYTES) s else s)
      in if \<not> http \<and> TRIM_ABOVE < queued s then drop_oldest (queued s - TRIM_TO) s else s)"

section \<open>The thread\<close>

definition siren_gain :: "int \<Rightarrow> int" where
  "siren_gain percent = 60 * percent div 100"

text \<open>The end of a session up to the release of the mutex in \<open>stop_output\<close>.\<close>

definition end_session :: "bool \<Rightarrow> nat \<Rightarrow> 'a speaker \<Rightarrow> 'a speaker" where
  "end_session close now s =
     s\<lparr>session := False, leased := False, released := False, head := 0, queued := 0, siren_on := False,
       session_end_us := now, pc := Stopping close (out_open s), out_open := out_open s \<and> \<not> close\<rparr>"

definition fault :: "string \<Rightarrow> nat \<Rightarrow> 'a speaker \<Rightarrow> 'a speaker" where
  "fault message now s =
     (let b = (if backoff_s s \<noteq> 0 then if 30 \<le> backoff_s s then 60 else backoff_s s * 2 else 5)
      in end_session True now (s\<lparr>faulted := True, faults := faults s + 1, backoff_s := b,
           retry_us := now + b * speaker_retry_unit_us, write_errors := 0, speaker_error := message\<rparr>))"

text \<open>The calls of \<open>stop_output\<close>, and what follows them with the mutex held again.\<close>

definition stop_output :: "bool \<Rightarrow> bool \<Rightarrow> speaker_in \<Rightarrow> 'a speaker \<Rightarrow> 'a speaker" where
  "stop_output close was_open i s =
     (let s = (if was_open \<and> \<not> close then call (Play Quiet) (in_write i) (call (Play Quiet) (in_write i) s) else s);
          s = call (Amplifier False) (in_amp i) s;
          s = (if close \<and> was_open then call Sink_close True s else s);
          s = (if in_amp i then s else s\<lparr>mute_pending := True, mute_attempts := 0\<rparr>)
      in if \<not> volume_restore s then s\<lparr>pc := Top\<rparr>
         else s\<lparr>volume_restore := False, pc := if out_open s then Restoring (volume s) else Top\<rparr>)"

text \<open>Out of a session: closing an idle output, or starting a session for what has arrived.\<close>

definition idle_part :: "nat \<Rightarrow> speaker_in \<Rightarrow> 'a speaker \<Rightarrow> 'a speaker" where
  "idle_part now i s =
     (if out_open s \<and> speaker_idle_close_us < now - session_end_us s then s\<lparr>out_open := False, pc := Closing\<rparr>
      else
        let s = (if faulted s \<and> retry_us s \<le> now then s\<lparr>faulted := False\<rparr> else s);
            asked = ((queued s \<noteq> 0 \<or> siren_on s) \<and> \<not> faulted s); gate = (gate_released s \<or> in_gate i);
            s = (if asked then s\<lparr>gate_released := gate\<rparr> else s); shut = (faulted s \<or> \<not> gate);
            s = (if queued s \<noteq> 0 \<and> shut then s\<lparr>head := 0, queued := 0, leased := False, released := False\<rparr> else s);
            s = (if siren_on s \<and> shut then s\<lparr>siren_on := False\<rparr> else s)
        in if queued s = 0 \<and> \<not> siren_on s then s\<lparr>pc := Top\<rparr>
           else
             let v = (if siren_on s then siren_gain (siren_volume s) else volume s); need_open = (\<not> out_open s);
                 s = (if siren_on s \<and> need_open then s\<lparr>siren_volume_applied := siren_volume s\<rparr> else s)
             in s\<lparr>session := True, sessions_begun := sessions_begun s + 1, pc := Opening v need_open\<rparr>)"

definition siren_frame :: "'a speaker \<Rightarrow> 'a speaker" where
  "siren_frame s =
     (let (bs, g) = jipc_siren_fill (siren_state s) JIPC_SPEAKER_FRAME
      in s\<lparr>volume_restore := True, siren_state := g, pc := Writing (Siren_sound bs)\<rparr>)"

definition session_part :: "speaker_in \<Rightarrow> 'a speaker \<Rightarrow> 'a speaker" where
  "session_part i s =
     (let now = in_now i;
          s = (if siren_on s \<and> siren_until s \<le> now then s\<lparr>siren_on := False, released := True\<rparr> else s)
      in if \<not> siren_on s \<and> queued s = 0 \<and> (released s \<or> DEADMAN_US < now - last_submit_us s)
         then end_session False now s
         else if siren_on s then
           if siren_volume_applied s \<noteq> siren_volume s
           then s\<lparr>siren_volume_applied := siren_volume s, pc := Siren_gain (siren_gain (siren_volume s))\<rparr>
           else siren_frame s
         else if queued s = 0 then s\<lparr>pc := Underrun\<rparr>
         else let (bs, s) = queue_take s in s\<lparr>pc := Writing (Talk bs)\<rparr>)"

definition thread_exit :: "speaker_in \<Rightarrow> 'a speaker \<Rightarrow> 'a speaker" where
  "thread_exit i s =
     (let active = (session s \<or> mute_pending s); was_open = out_open s;
          s = s\<lparr>session := False, out_open := False, pc := Ended\<rparr>;
          s = (if active then call (Amplifier False) (in_amp i) s else s)
      in if was_open then call Sink_close True s else s)"

definition speaker_top :: "speaker_in \<Rightarrow> 'a speaker \<Rightarrow> 'a speaker" where
  "speaker_top i s =
     (if quit s then thread_exit i s
      else if session s then session_part i s
      else if mute_pending s \<and> mute_attempts s < MUTE_ATTEMPTS
      then s\<lparr>mute_attempts := mute_attempts s + 1, pc := Muting (in_now i)\<rparr>
      else idle_part (in_now i) i s)"

definition speaker_opened :: "int \<Rightarrow> bool \<Rightarrow> speaker_in \<Rightarrow> 'a speaker \<Rightarrow> 'a speaker" where
  "speaker_opened v need_open i s =
     (let s = (if need_open then call (Sink_open v) (in_open i) s else s); opened = (need_open \<longrightarrow> in_open i);
          s = (if opened then (call (Amplifier True) (in_amp i) s)\<lparr>out_open := True\<rparr> else s)
      in if opened \<and> in_amp i then s\<lparr>pc := Settling\<rparr>
         else fault (if need_open \<and> \<not> in_open i \<and> in_error i \<noteq> [] then in_error i
                     else ''speaker output or amplifier failed'') (in_now i) s)"

definition speaker_written :: "'a sound_frame \<Rightarrow> speaker_in \<Rightarrow> 'a speaker \<Rightarrow> 'a speaker" where
  "speaker_written f i s =
     (let s = call (Play f) (in_write i) s
      in if \<not> in_write i then
           if 3 \<le> write_errors s + 1 then fault ''audio output refused three frames'' (in_now i) s
           else s\<lparr>write_errors := write_errors s + 1, pc := Top\<rparr>
         else s\<lparr>write_errors := 0, backoff_s := 0, played_frames := played_frames s + 1, pc := Top\<rparr>)"

definition speaker_step :: "speaker_in \<Rightarrow> 'a speaker \<Rightarrow> 'a speaker" where
  "speaker_step i s =
     (case pc s of
        Top \<Rightarrow> speaker_top i s
      | Muting now \<Rightarrow>
          let s = call (Amplifier False) (in_amp i) s
          in idle_part now i (if in_amp i then s\<lparr>mute_pending := False\<rparr> else s)
      | Closing \<Rightarrow> (call Sink_close True s)\<lparr>pc := Top\<rparr>
      | Opening v need_open \<Rightarrow> speaker_opened v need_open i s
      | Settling \<Rightarrow> s\<lparr>pc := Top\<rparr>
      | Stopping close was_open \<Rightarrow> stop_output close was_open i s
      | Restoring v \<Rightarrow> (call (Sink_volume v) (in_volume i) s)\<lparr>pc := Top\<rparr>
      | Siren_gain v \<Rightarrow> siren_frame (call (Sink_volume v) (in_volume i) s)
      | Underrun \<Rightarrow> if queued s \<noteq> 0 \<or> quit s then s\<lparr>pc := Top\<rparr> else s\<lparr>pc := Writing Quiet\<rparr>
      | Writing f \<Rightarrow> speaker_written f i s
      | Ended \<Rightarrow> s)"

section \<open>Talkers, the siren and the volume\<close>

datatype talk_result = TALK_OK | TALK_INVALID | TALK_BUSY | TALK_UNAVAILABLE

definition jipc_talk_submit ::
  "u64 \<Rightarrow> u32 \<Rightarrow> bool \<Rightarrow> 'a list \<Rightarrow> nat \<Rightarrow> bool \<Rightarrow> 'a speaker \<Rightarrow> talk_result \<times> 'a speaker" where
  "jipc_talk_submit who src http pcma now gate s =
     (if pcma = [] \<or> 8000 < length pcma then (TALK_INVALID, s)
      else if \<not> (gate_released s \<or> gate) then (TALK_UNAVAILABLE, s)
      else
        let s = s\<lparr>gate_released := True\<rparr>
        in if faulted s \<and> now < retry_us s then (TALK_UNAVAILABLE, s)
           else if siren_on s then (TALK_BUSY, s\<lparr>refused := refused s + 1\<rparr>)
           else if leased s \<and> (owner s \<noteq> who \<or> owner_ssrc s \<noteq> src) then (TALK_BUSY, s\<lparr>refused := refused s + 1\<rparr>)
           else if http \<and> QUEUE_BYTES < queued s + length pcma then (TALK_BUSY, s)
           else
             let s = (if leased s then s else s\<lparr>leased := True, owner := who, owner_ssrc := src\<rparr>);
                 s = queue_accept http pcma (s\<lparr>released := False\<rparr>)
             in (TALK_OK, s\<lparr>last_submit_us := now\<rparr>))"

definition jipc_talk_release :: "u64 \<Rightarrow> 'a speaker \<Rightarrow> 'a speaker" where
  "jipc_talk_release who s =
     (if leased s \<and> owner s = who
      then s\<lparr>released := True, queued := if RELEASE_TAIL < queued s then RELEASE_TAIL else queued s\<rparr>
      else s)"

definition jipc_talk_active :: "nat \<Rightarrow> 'a speaker \<Rightarrow> bool" where
  "jipc_talk_active now s =
     (\<not> full_duplex s \<and> (session s \<or> (session_end_us s \<noteq> 0 \<and> now - session_end_us s < HALF_DUPLEX_TAIL_US)))"

definition jipc_siren_start :: "nat \<Rightarrow> nat \<Rightarrow> int \<Rightarrow> nat \<Rightarrow> bool \<Rightarrow> 'a speaker \<Rightarrow> bool \<times> 'a speaker" where
  "jipc_siren_start kind seconds percent now gate s =
     (if JIPC_SIREN_SOUNDS \<le> kind \<or> seconds = 0 \<or> JIPC_SIREN_MAX_SECONDS < seconds \<or> percent < 1 \<or> 100 < percent
      then (False, s)
      else if \<not> (gate_released s \<or> gate) then (False, s)
      else
        let s = s\<lparr>gate_released := True\<rparr>
        in if faulted s \<and> now < retry_us s then (False, s)
           else (True, s\<lparr>head := 0, queued := 0, leased := False, released := False, siren_on := True,
                         siren_volume := percent, siren_volume_applied := 0,
                         siren_until := now + seconds * 1000000, siren_state := jipc_siren_init kind\<rparr>))"

definition jipc_siren_stop :: "'a speaker \<Rightarrow> 'a speaker" where
  "jipc_siren_stop s = (if siren_on s then s\<lparr>siren_on := False, released := True\<rparr> else s)"

definition jipc_speaker_set_volume :: "int \<Rightarrow> bool \<Rightarrow> 'a speaker \<Rightarrow> bool \<times> 'a speaker" where
  "jipc_speaker_set_volume v ok s =
     (if v < -30 \<or> 120 < v then (False, s)
      else
        let s = s\<lparr>volume := v\<rparr>
        in if out_open s \<and> \<not> siren_on s then (ok, call (Sink_volume v) ok s) else (True, s))"

text \<open>The order in which the thread and the others get the mutex.\<close>

datatype 'a speaker_event =
    Thread speaker_in
  | Submit u64 u32 bool "'a list" nat bool
  | Release u64
  | Siren_begin nat nat int nat bool
  | Siren_end
  | Set_volume int bool
  | Speaker_stop

definition speaker_event :: "'a speaker \<Rightarrow> 'a speaker_event \<Rightarrow> 'a speaker" where
  "speaker_event s e =
     (case e of
        Thread i \<Rightarrow> speaker_step i s
      | Submit who src http pcma now gate \<Rightarrow> snd (jipc_talk_submit who src http pcma now gate s)
      | Release who \<Rightarrow> jipc_talk_release who s
      | Siren_begin kind seconds percent now gate \<Rightarrow> snd (jipc_siren_start kind seconds percent now gate s)
      | Siren_end \<Rightarrow> jipc_siren_stop s
      | Set_volume v ok \<Rightarrow> snd (jipc_speaker_set_volume v ok s)
      | Speaker_stop \<Rightarrow> s\<lparr>quit := True\<rparr>)"

end
