(* ===== verification/Speaker_Correct.thy ===== *)
theory Speaker_Correct
  imports Speaker "HOL-Library.Sublist"
begin

text \<open>
  The speaker service is correct. The ring is a queue of samples (the locale \<open>sample_queue\<close>), so
  what is played is what was accepted, in order, and no frame mixes two talkers; the amplifier
  and the output follow the sessions (an invariant of every interleaving, by the locale
  \<open>invariant_machine\<close>); a siren ends by its deadline; and one order of calls in which the
  output keeps the siren's volume. The clock is monotonic and every time is read with the
  mutex held, so the differences of times never wrap around. A frame of talk holds the samples
  taken from the queue: the driver gets it filled up with the silence byte.
\<close>

section \<open>The ring is a queue\<close>

definition contents :: "'a speaker \<Rightarrow> 'a list" where
  "contents s = map (\<lambda>i. queue s ! ((head s + i) mod QUEUE_BYTES)) [0..<queued s]"

definition ring_ok :: "'a speaker \<Rightarrow> bool" where
  "ring_ok s = (length (queue s) = QUEUE_BYTES \<and> queued s \<le> QUEUE_BYTES)"

lemma length_contents [simp]: "length (contents s) = queued s"
  by (simp add: contents_def)

lemma length_ring_write [simp]: "length (ring_write q p bs) = length q"
  by (induction q p bs rule: ring_write.induct) simp_all

lemma mod_apart:
  assumes "(a :: nat) < b" "b < a + n"
  shows "a mod n \<noteq> b mod n"
proof
  assume "a mod n = b mod n"
  then have "n dvd b - a" using assms(1) mod_eq_dvd_iff_nat [of a b n] by simp
  then show False using assms by (simp add: nat_dvd_not_less)
qed

lemma ring_write_nth:
  "length q = QUEUE_BYTES \<Longrightarrow> length bs \<le> QUEUE_BYTES \<Longrightarrow> p \<le> j \<Longrightarrow> j < p + length bs \<Longrightarrow>
     ring_write q p bs ! (j mod QUEUE_BYTES) = bs ! (j - p)"
proof (induction q p bs rule: ring_write.induct)
  case (2 q p b bs)
  have q0: "0 < QUEUE_BYTES" by (simp add: QUEUE_BYTES_def)
  show ?case
  proof (cases "j = p")
    case True
    have "ring_write q' p' bs ! (p mod QUEUE_BYTES) = q' ! (p mod QUEUE_BYTES)"
      if "p < p'" "p' + length bs \<le> p + QUEUE_BYTES" "length q' = QUEUE_BYTES" for q' p'
      using that
    proof (induction bs arbitrary: q' p')
      case (Cons c cs)
      have "p mod QUEUE_BYTES \<noteq> p' mod QUEUE_BYTES" by (rule mod_apart) (use Cons.prems in auto)
      then show ?case using Cons.IH [of "Suc p'" "q'[p' mod QUEUE_BYTES := c]"] Cons.prems by simp
    qed simp
    from this [of "p + 1" "q[p mod QUEUE_BYTES := b]"] show ?thesis
      using True "2.prems" q0 by simp
  next
    case False
    then show ?thesis using "2.IH" "2.prems" by (simp add: nth_Cons' Suc_diff_Suc)
  qed
qed simp

lemma ring_write_other:
  "length q = QUEUE_BYTES \<Longrightarrow> j < p \<Longrightarrow> p + length bs \<le> j + QUEUE_BYTES \<Longrightarrow>
     ring_write q p bs ! (j mod QUEUE_BYTES) = q ! (j mod QUEUE_BYTES)"
proof (induction q p bs rule: ring_write.induct)
  case (2 q p b bs)
  have "j mod QUEUE_BYTES \<noteq> p mod QUEUE_BYTES" by (rule mod_apart) (use "2.prems" in auto)
  then show ?case using 2 by simp
qed simp

lemma queue_push_contents:
  assumes "ring_ok s" "queued s + length bs \<le> QUEUE_BYTES"
  shows "ring_ok (queue_push bs s) \<and> contents (queue_push bs s) = contents s @ bs"
proof
  show "ring_ok (queue_push bs s)" using assms by (simp add: ring_ok_def queue_push_def)
  show "contents (queue_push bs s) = contents s @ bs"
  proof (rule nth_equalityI)
    fix i assume "i < length (contents (queue_push bs s))"
    then have i: "i < queued s + length bs" by (simp add: queue_push_def)
    have q: "length (queue s) = QUEUE_BYTES" using assms(1) by (simp add: ring_ok_def)
    show "contents (queue_push bs s) ! i = (contents s @ bs) ! i"
    proof (cases "i < queued s")
      case True
      then have "ring_write (queue s) (head s + queued s) bs ! ((head s + i) mod QUEUE_BYTES) =
          queue s ! ((head s + i) mod QUEUE_BYTES)"
        using assms(2) by (intro ring_write_other) (simp_all add: q)
      then show ?thesis using True i by (simp add: contents_def queue_push_def nth_append)
    next
      case False
      then have "ring_write (queue s) (head s + queued s) bs ! ((head s + i) mod QUEUE_BYTES) =
          bs ! (head s + i - (head s + queued s))"
        using assms(2) i by (intro ring_write_nth) (simp_all add: q)
      then show ?thesis using False i by (simp add: contents_def queue_push_def nth_append)
    qed
  qed (simp add: queue_push_def)
qed

lemma contents_advance:
  assumes "n \<le> queued s"
  shows "contents (s\<lparr>head := (head s + n) mod QUEUE_BYTES, queued := queued s - n\<rparr>) = drop n (contents s)"
proof (rule nth_equalityI)
  fix i assume "i < length (contents (s\<lparr>head := (head s + n) mod QUEUE_BYTES, queued := queued s - n\<rparr>))"
  then have "n + i < queued s" "i < queued s - n" using assms by simp_all
  then show "contents (s\<lparr>head := (head s + n) mod QUEUE_BYTES, queued := queued s - n\<rparr>) ! i = drop n (contents s) ! i"
    by (simp add: contents_def mod_add_left_eq add.assoc)
qed simp

lemma drop_oldest_contents:
  "ring_ok s \<Longrightarrow> ring_ok (drop_oldest n s) \<and> contents (drop_oldest n s) = drop n (contents s)"
  using contents_advance [of "if queued s < n then queued s else n" s]
  by (auto simp: drop_oldest_def Let_def ring_ok_def contents_def)

lemma queue_take_contents:
  assumes "ring_ok s" "queue_take s = (bs, s')"
  shows "ring_ok s' \<and> bs = take JIPC_SPEAKER_FRAME (contents s) \<and> contents s' = drop JIPC_SPEAKER_FRAME (contents s)"
proof -
  let ?n = "if queued s < JIPC_SPEAKER_FRAME then queued s else JIPC_SPEAKER_FRAME"
  have "bs = take ?n (contents s)" "s' = s\<lparr>head := (head s + ?n) mod QUEUE_BYTES, queued := queued s - ?n\<rparr>"
    using assms(2) by (auto simp: queue_take_def Let_def contents_def take_map)
  moreover have "take ?n (contents s) = take JIPC_SPEAKER_FRAME (contents s)"
    "drop ?n (contents s) = drop JIPC_SPEAKER_FRAME (contents s)" by simp_all
  moreover have "?n \<le> queued s" by simp
  ultimately show ?thesis using assms(1) contents_advance [of ?n s] unfolding ring_ok_def by simp linarith
qed

text \<open>
  A bounded queue: what is pushed comes out at the other end, and dropping takes the oldest.
\<close>

locale sample_queue =
  fixes ok :: "'q \<Rightarrow> bool" and elems :: "'q \<Rightarrow> 'a list" and capacity :: nat and burst :: nat
    and push :: "'a list \<Rightarrow> 'q \<Rightarrow> 'q" and discard :: "nat \<Rightarrow> 'q \<Rightarrow> 'q" and pull :: "'q \<Rightarrow> 'a list \<times> 'q"
  assumes push_elems: "ok q \<Longrightarrow> length (elems q) + length xs \<le> capacity \<Longrightarrow>
      ok (push xs q) \<and> elems (push xs q) = elems q @ xs"
    and discard_elems: "ok q \<Longrightarrow> ok (discard n q) \<and> elems (discard n q) = drop n (elems q)"
    and pull_elems: "ok q \<Longrightarrow> pull q = (xs, q') \<Longrightarrow> ok q' \<and> xs = take burst (elems q) \<and> elems q' = drop burst (elems q)"
begin

text \<open>Making room first keeps the newest samples that fit, the pushed ones among them.\<close>

lemma push_newest:
  assumes "ok q" "length xs \<le> capacity" "length (elems q) \<le> capacity"
  shows "ok (push xs (discard (length (elems q) + length xs - capacity) q)) \<and>
     elems (push xs (discard (length (elems q) + length xs - capacity) q)) =
       drop (length (elems q) + length xs - capacity) (elems q @ xs)"
proof -
  let ?n = "length (elems q) + length xs - capacity"
  have d: "ok (discard ?n q)" "elems (discard ?n q) = drop ?n (elems q)" using discard_elems [OF assms(1)] by auto
  then have "length (elems (discard ?n q)) + length xs \<le> capacity" using assms by simp
  from push_elems [OF d(1) this] d(2) assms show ?thesis by simp
qed

lemma pull_split: "ok q \<Longrightarrow> pull q = (xs, q') \<Longrightarrow> elems q = xs @ elems q'"
  using pull_elems by fastforce

end

interpretation talk_queue: sample_queue ring_ok contents QUEUE_BYTES JIPC_SPEAKER_FRAME queue_push drop_oldest queue_take
proof unfold_locales
  show "ring_ok q \<Longrightarrow> length (contents q) + length xs \<le> QUEUE_BYTES \<Longrightarrow>
      ring_ok (queue_push xs q) \<and> contents (queue_push xs q) = contents q @ xs" for q :: "'a speaker" and xs
    using queue_push_contents [of q xs] by simp
qed (rule drop_oldest_contents, assumption, rule queue_take_contents)

section \<open>What is heard\<close>

text \<open>The frames of talk that have been played, and the one that is being written.\<close>

fun talk_frames :: "('a sink_call \<times> bool) list \<Rightarrow> 'a list list" where
  "talk_frames [] = []"
| "talk_frames ((c, ok) # cs) = talk_frames cs @ (case c of Play (Talk bs) \<Rightarrow> [bs] | _ \<Rightarrow> [])"

definition pending :: "'a speaker \<Rightarrow> 'a list list" where
  "pending s = (case pc s of Writing (Talk bs) \<Rightarrow> [bs] | _ \<Rightarrow> [])"

text \<open>A step that leaves the queue as it was, or empties it, and begins no frame of talk.\<close>

definition keeps_queue :: "'a speaker \<Rightarrow> 'a speaker \<Rightarrow> bool" where
  "keeps_queue s s' = (queue s' = queue s \<and> owner s' = owner s \<and>
     (queued s' = 0 \<or> (head s' = head s \<and> queued s' = queued s \<and> leased s' = leased s)) \<and>
     pending s' = [] \<and> talk_frames (calls s') = talk_frames (calls s) @ pending s)"

lemma keeps_queue_trans:
  "keeps_queue s s1 \<Longrightarrow> pending s1 = [] \<Longrightarrow> keeps_queue s1 s2 \<Longrightarrow> keeps_queue s s2"
  by (auto simp: keeps_queue_def)

lemma call_simps [simp]:
  "queue (call c ok s) = queue s" "head (call c ok s) = head s" "queued (call c ok s) = queued s"
  "leased (call c ok s) = leased s" "owner (call c ok s) = owner s" "pc (call c ok s) = pc s"
  "calls (call c ok s) = (c, ok) # calls s" "session (call c ok s) = session s" "siren_on (call c ok s) = siren_on s"
  "out_open (call c ok s) = out_open s" "volume_restore (call c ok s) = volume_restore s" "volume (call c ok s) = volume s"
  "mute_pending (call c ok s) = mute_pending s" "write_errors (call c ok s) = write_errors s" "backoff_s (call c ok s) = backoff_s s"
  "full_duplex (call c ok s) = full_duplex s" "siren_state (call c ok s) = siren_state s"
  by (simp_all add: call_def)

lemma fault_keeps: "pending s = [] \<Longrightarrow> keeps_queue s (fault msg now s)"
  by (simp add: fault_def end_session_def keeps_queue_def pending_def Let_def)

lemma stop_output_keeps: "pc s = Stopping close was_open \<Longrightarrow> keeps_queue s (stop_output close was_open i s)"
  by (auto simp: stop_output_def keeps_queue_def pending_def Let_def)

lemma idle_part_keeps: "pending s = [] \<Longrightarrow> keeps_queue s (idle_part now i s)"
  by (simp add: idle_part_def keeps_queue_def pending_def Let_def)

lemma siren_frame_keeps: "pending s = [] \<Longrightarrow> keeps_queue s (siren_frame s)"
  by (simp add: siren_frame_def keeps_queue_def pending_def Let_def split: prod.split)

lemma session_part_keeps:
  assumes "pending s = []" "queued s = 0 \<or> siren_on s \<and> \<not> siren_until s \<le> in_now i"
  shows "keeps_queue s (session_part i s)"
  using assms siren_frame_keeps [OF assms(1)]
  by (auto simp: session_part_def end_session_def keeps_queue_def pending_def Let_def siren_frame_def split: prod.splits)

lemma queue_take_siren:
  "queue_take s = (bs, s') \<Longrightarrow>
     queue_take (s\<lparr>siren_on := a, released := b\<rparr>) = (bs, s'\<lparr>siren_on := a, released := b\<rparr>)"
  by (auto simp: queue_take_def Let_def)

lemma queue_take_fields:
  "queue_take s = (bs, s') \<Longrightarrow>
     siren_on s' = siren_on s \<and> released s' = released s \<and> queue s' = queue s \<and> owner s' = owner s \<and>
     leased s' = leased s \<and> calls s' = calls s \<and> session s' = session s"
  by (auto simp: queue_take_def Let_def)

lemma session_part_talks:
  assumes "queued s \<noteq> 0" "\<not> (siren_on s \<and> \<not> siren_until s \<le> in_now i)" "queue_take s = (bs, s')"
  shows "\<exists>r on. session_part i s = s'\<lparr>siren_on := on, released := r, pc := Writing (Talk bs)\<rparr>"
proof (cases "siren_on s")
  case True
  then have "session_part i s = s'\<lparr>siren_on := False, released := True, pc := Writing (Talk bs)\<rparr>"
    using assms(1,2) queue_take_siren [OF assms(3), where a = False and b = True] by (simp add: session_part_def Let_def)
  then show ?thesis by blast
next
  case False
  then have "session_part i s = s'\<lparr>pc := Writing (Talk bs)\<rparr>"
    using assms by (simp add: session_part_def Let_def)
  then show ?thesis using queue_take_fields [OF assms(3)]
    by (intro exI [of _ "released s"] exI [of _ "siren_on s"]) simp
qed

text \<open>A step of the thread either keeps the queue or begins a frame with its oldest samples.\<close>

lemma thread_step_queue:
  "keeps_queue s (speaker_step i s) \<or>
   (\<exists>bs s' r on. pending s = [] \<and> queue_take s = (bs, s') \<and>
      speaker_step i s = s'\<lparr>siren_on := on, released := r, pc := Writing (Talk bs)\<rparr>)"
proof (cases "pc s")
  case Top
  have p: "pending s = []" using Top by (simp add: pending_def)
  show ?thesis
  proof (cases "\<not> quit s \<and> session s \<and> queued s \<noteq> 0 \<and> \<not> (siren_on s \<and> \<not> siren_until s \<le> in_now i)")
    case True
    obtain bs s' where t: "queue_take s = (bs, s')" by fastforce
    from session_part_talks [OF _ _ t, of i] True Top p t show ?thesis
      by (auto simp: speaker_step_def speaker_top_def)
  next
    case False
    have "keeps_queue s (thread_exit i s)"
      using p by (auto simp: thread_exit_def keeps_queue_def pending_def Let_def)
    moreover have "keeps_queue s (s\<lparr>mute_attempts := n, pc := Muting k\<rparr>)" for n k
      using p by (simp add: keeps_queue_def pending_def)
    ultimately have "keeps_queue s (speaker_top i s)"
      using False session_part_keeps [OF p] idle_part_keeps [OF p] by (auto simp: speaker_top_def)
    then show ?thesis using Top by (simp add: speaker_step_def)
  qed
next
  case (Muting now)
  let ?s = "call (Amplifier False) (in_amp i) s"
  have "keeps_queue ?s (idle_part now i ?s)" "keeps_queue (?s\<lparr>mute_pending := False\<rparr>) (idle_part now i (?s\<lparr>mute_pending := False\<rparr>))"
    using Muting by (auto intro!: idle_part_keeps simp: pending_def)
  then show ?thesis using Muting by (auto simp: speaker_step_def Let_def keeps_queue_def pending_def)
next
  case (Opening v need_open)
  have "keeps_queue s (speaker_opened v need_open i s)"
    using Opening unfolding speaker_opened_def Let_def fault_def end_session_def
    by (simp add: keeps_queue_def pending_def)
  then show ?thesis using Opening by (simp add: speaker_step_def)
next
  case (Stopping close was_open)
  then show ?thesis using stop_output_keeps [OF Stopping, of i] by (simp add: speaker_step_def)
next
  case (Siren_gain v)
  have "keeps_queue (call (Sink_volume v) (in_volume i) s) (siren_frame (call (Sink_volume v) (in_volume i) s))"
    by (rule siren_frame_keeps) (simp add: Siren_gain pending_def)
  then show ?thesis using Siren_gain by (auto simp: speaker_step_def keeps_queue_def pending_def)
next
  case (Writing f)
  have "keeps_queue s (speaker_written f i s)"
    using Writing unfolding speaker_written_def Let_def fault_def end_session_def
    by (cases f) (simp_all add: keeps_queue_def pending_def)
  then show ?thesis using Writing by (simp add: speaker_step_def)
qed (simp_all add: speaker_step_def keeps_queue_def pending_def)

section \<open>Submissions\<close>

lemma contents_cong:
  "queue s' = queue s \<Longrightarrow> head s' = head s \<Longrightarrow> queued s' = queued s \<Longrightarrow> contents s' = contents s"
  by (simp add: contents_def)

lemma ring_ok_cong: "queue s' = queue s \<Longrightarrow> queued s' \<le> queued s \<Longrightarrow> ring_ok s \<Longrightarrow> ring_ok s'"
  by (simp add: ring_ok_def)

lemma drop_push_fields:
  "owner (drop_oldest n s) = owner s" "leased (drop_oldest n s) = leased s" "calls (drop_oldest n s) = calls s"
  "pc (drop_oldest n s) = pc s" "siren_on (drop_oldest n s) = siren_on s" "session (drop_oldest n s) = session s"
  "owner (queue_push bs s) = owner s" "leased (queue_push bs s) = leased s" "calls (queue_push bs s) = calls s"
  "pc (queue_push bs s) = pc s" "siren_on (queue_push bs s) = siren_on s" "session (queue_push bs s) = session s"
  "queued (queue_push bs s) = queued s + length bs" "out_open (drop_oldest n s) = out_open s"
  "mute_pending (drop_oldest n s) = mute_pending s" "siren_until (drop_oldest n s) = siren_until s"
  "out_open (queue_push bs s) = out_open s" "mute_pending (queue_push bs s) = mute_pending s"
  "siren_until (queue_push bs s) = siren_until s"
  by (simp_all add: drop_oldest_def queue_push_def Let_def)

lemma queue_accept_fields:
  "owner (queue_accept http bs s) = owner s" "leased (queue_accept http bs s) = leased s"
  "calls (queue_accept http bs s) = calls s" "pc (queue_accept http bs s) = pc s"
  "siren_on (queue_accept http bs s) = siren_on s" "session (queue_accept http bs s) = session s"
  "out_open (queue_accept http bs s) = out_open s" "mute_pending (queue_accept http bs s) = mute_pending s"
  "siren_until (queue_accept http bs s) = siren_until s"
  by (simp_all add: queue_accept_def Let_def drop_push_fields)

lemma queue_accept_contents:
  assumes "ring_ok s" "length bs \<le> QUEUE_BYTES"
  shows "\<exists>k. ring_ok (queue_accept http bs s) \<and> contents (queue_accept http bs s) = drop k (contents s @ bs)"
proof -
  define k where "k = queued s + length bs - QUEUE_BYTES"
  define s2 where "s2 = queue_push bs (if QUEUE_BYTES < queued s + length bs then drop_oldest (queued s + length bs - QUEUE_BYTES) s else s)"
  have len: "length (contents s) \<le> QUEUE_BYTES" using assms(1) by (simp add: ring_ok_def)
  have "ring_ok s2 \<and> contents s2 = drop k (contents s @ bs)"
  proof (cases "QUEUE_BYTES < queued s + length bs")
    case True
    then show ?thesis using talk_queue.push_newest [OF assms len] by (simp add: s2_def k_def)
  next
    case False
    then show ?thesis using talk_queue.push_elems [OF assms(1), of bs] by (simp add: s2_def k_def)
  qed
  then have s2: "ring_ok s2" "contents s2 = drop k (contents s @ bs)" by auto
  show ?thesis
  proof (cases "\<not> http \<and> TRIM_ABOVE < queued s2")
    case True
    then have "queue_accept http bs s = drop_oldest (queued s2 - TRIM_TO) s2" by (simp add: queue_accept_def s2_def Let_def)
    moreover have "ring_ok (drop_oldest (queued s2 - TRIM_TO) s2) \<and>
        contents (drop_oldest (queued s2 - TRIM_TO) s2) = drop (queued s2 - TRIM_TO + k) (contents s @ bs)"
      using talk_queue.discard_elems [OF s2(1), of "queued s2 - TRIM_TO"] s2(2) by (simp only: drop_drop)
    ultimately show ?thesis by auto
  next
    case False
    then have "queue_accept http bs s = s2" unfolding queue_accept_def Let_def s2_def [symmetric] by (rule if_not_P)
    then show ?thesis using s2 by auto
  qed
qed

definition untouched :: "'a speaker \<Rightarrow> 'a speaker \<Rightarrow> bool" where
  "untouched s s' = (queue s' = queue s \<and> head s' = head s \<and> queued s' = queued s \<and> leased s' = leased s \<and>
     owner s' = owner s \<and> calls s' = calls s \<and> pc s' = pc s \<and> siren_on s' = siren_on s \<and> session s' = session s)"

lemma submit_refused:
  "jipc_talk_submit who src http pcma now gate s = (r, s') \<Longrightarrow> r \<noteq> TALK_OK \<Longrightarrow> untouched s s'"
  by (auto simp: jipc_talk_submit_def untouched_def Let_def split: if_splits)

lemma submit_accepted:
  assumes "jipc_talk_submit who src http pcma now gate s = (TALK_OK, s')" "ring_ok s"
  shows "\<not> siren_on s" "leased s \<Longrightarrow> owner s = who \<and> owner_ssrc s = src"
    and "leased s'" "owner s' = who" "calls s' = calls s" "pc s' = pc s" "siren_on s' = siren_on s" "session s' = session s"
    and "\<exists>k. ring_ok s' \<and> contents s' = drop k (contents s @ pcma)"
proof -
  define s1 where "s1 = (if leased s then s\<lparr>gate_released := True\<rparr>
      else s\<lparr>gate_released := True, leased := True, owner := who, owner_ssrc := src\<rparr>)\<lparr>released := False\<rparr>"
  have ok: "\<not> (pcma = [] \<or> 8000 < length pcma)" "\<not> siren_on s" "\<not> (leased s \<and> (owner s \<noteq> who \<or> owner_ssrc s \<noteq> src))"
    using assms(1) by (auto simp: jipc_talk_submit_def Let_def split: if_splits)
  have s': "s' = (queue_accept http pcma s1)\<lparr>last_submit_us := now\<rparr>"
    using assms(1) ok by (auto simp: jipc_talk_submit_def s1_def Let_def split: if_splits)
  have s1: "contents s1 = contents s" "ring_ok s1" "leased s1" "owner s1 = who" "calls s1 = calls s"
    "pc s1 = pc s" "siren_on s1 = siren_on s" "session s1 = session s"
    using ok(3) assms(2) by (auto simp: s1_def ring_ok_def contents_def)
  show "\<not> siren_on s" "leased s \<Longrightarrow> owner s = who \<and> owner_ssrc s = src" using ok by auto
  show "leased s'" "owner s' = who" "calls s' = calls s" "pc s' = pc s" "siren_on s' = siren_on s" "session s' = session s"
    by (simp_all add: s' queue_accept_fields s1)
  have "length pcma \<le> QUEUE_BYTES" using ok(1) by (simp add: QUEUE_BYTES_def)
  from queue_accept_contents [OF s1(2) this, of http] s1(1)
  have "\<exists>k. ring_ok (queue_accept http pcma s1) \<and> contents (queue_accept http pcma s1) = drop k (contents s @ pcma)"
    by (simp only:)
  moreover have "contents s' = contents (queue_accept http pcma s1)" "ring_ok s' = ring_ok (queue_accept http pcma s1)"
    by (simp_all add: s' contents_def ring_ok_def)
  ultimately show "\<exists>k. ring_ok s' \<and> contents s' = drop k (contents s @ pcma)" by (simp only:)
qed

section \<open>One talker at a time\<close>

text \<open>What the talkers were told is accepted, in order.\<close>

fun accepted :: "'a speaker \<Rightarrow> 'a speaker_event list \<Rightarrow> 'a list" where
  "accepted s [] = []"
| "accepted s (e # es) =
     (case e of Submit who src http pcma now gate \<Rightarrow>
        if fst (jipc_talk_submit who src http pcma now gate s) = TALK_OK then pcma else [] | _ \<Rightarrow> []) @
     accepted (speaker_event s e) es"

text \<open>Samples carry their talker; a frame of talk is one talker's.\<close>

definition own_samples :: "(u64 \<times> 'a) speaker_event \<Rightarrow> bool" where
  "own_samples e =
     (case e of Submit who src http pcma now gate \<Rightarrow> \<forall>b\<in>set pcma. fst b = who | _ \<Rightarrow> True)"

definition one_talker :: "(u64 \<times> 'a) list \<Rightarrow> bool" where
  "one_talker bs = (\<exists>who. \<forall>b\<in>set bs. fst b = who)"

definition talk_inv :: "(u64 \<times> 'a) list \<Rightarrow> (u64 \<times> 'a) speaker \<Rightarrow> bool" where
  "talk_inv acc s = (ring_ok s \<and> (queued s \<noteq> 0 \<longrightarrow> leased s) \<and> (\<forall>b\<in>set (contents s). fst b = owner s) \<and>
     (\<forall>bs\<in>set (talk_frames (calls s) @ pending s). one_talker bs) \<and>
     subseq (concat (talk_frames (calls s) @ pending s) @ contents s) acc)"

lemma subseq_left: "subseq (a @ b) c \<Longrightarrow> subseq a c"
  by (metis append_Nil2 list_emb_append_mono list_emb_Nil subseq_order.order_refl subseq_order.trans)

lemma subseq_drop_right: "subseq (a @ drop k b) (a @ b)"
  by (metis append_take_drop_id list_emb_append2 list_emb_append_mono subseq_order.order_refl)

lemma contents_empty: "queued s = 0 \<Longrightarrow> contents s = []"
  by (simp add: contents_def)

lemma talk_inv_smaller:
  assumes "talk_inv acc s" "owner s' = owner s" "ring_ok s'" "queued s' \<noteq> 0 \<Longrightarrow> leased s'"
    "talk_frames (calls s') @ pending s' = talk_frames (calls s) @ pending s"
    "\<exists>c. contents s = contents s' @ c"
  shows "talk_inv acc s'"
proof -
  obtain c where c: "contents s = contents s' @ c" using assms(6) by blast
  have "subseq ((concat (talk_frames (calls s) @ pending s) @ contents s') @ c) acc"
    using assms(1) c unfolding talk_inv_def by simp
  then have "subseq (concat (talk_frames (calls s) @ pending s) @ contents s') acc" by (rule subseq_left)
  then show ?thesis using assms c unfolding talk_inv_def by auto
qed

lemma talk_inv_thread:
  assumes i: "talk_inv acc s"
  shows "talk_inv acc (speaker_step j s)"
  using thread_step_queue [of s j]
proof
  assume k: "keeps_queue s (speaker_step j s)"
  then have "contents (speaker_step j s) = contents s \<or> queued (speaker_step j s) = 0"
    by (auto simp: keeps_queue_def contents_def)
  then show ?thesis
    using k i by (intro talk_inv_smaller [OF i]) (auto simp: keeps_queue_def talk_inv_def ring_ok_def contents_empty)
next
  assume "\<exists>bs s' r on. pending s = [] \<and> queue_take s = (bs, s') \<and>
      speaker_step j s = s'\<lparr>siren_on := on, released := r, pc := Writing (Talk bs)\<rparr>"
  then obtain bs s' r on where t: "pending s = []" "queue_take s = (bs, s')"
    "speaker_step j s = s'\<lparr>siren_on := on, released := r, pc := Writing (Talk bs)\<rparr>" by blast
  have ok: "ring_ok s" using i by (simp add: talk_inv_def)
  note q = queue_take_contents [OF ok t(2)] and f = queue_take_fields [OF t(2)]
  have split: "contents s = bs @ contents s'" using talk_queue.pull_split [OF ok t(2)] .
  then have "queued s' \<noteq> 0 \<Longrightarrow> queued s \<noteq> 0" using length_contents [of s] by simp
  moreover have "contents (speaker_step j s) = contents s'" "ring_ok (speaker_step j s)"
    using q by (simp_all add: t(3) contents_def ring_ok_def)
  ultimately show ?thesis using i f split t(1) by (auto simp: talk_inv_def t(3) pending_def one_talker_def)
qed

lemma talk_inv_untouched: "talk_inv acc s \<Longrightarrow> untouched s s' \<Longrightarrow> talk_inv acc s'"
  by (rule talk_inv_smaller) (auto simp: untouched_def talk_inv_def ring_ok_def contents_def pending_def)

lemma siren_start_effect:
  "(untouched s (snd (jipc_siren_start kind seconds percent now gate s)) \<and>
      siren_until (snd (jipc_siren_start kind seconds percent now gate s)) = siren_until s) \<or>
   (fst (jipc_siren_start kind seconds percent now gate s) \<and>
    snd (jipc_siren_start kind seconds percent now gate s) =
      s\<lparr>gate_released := True, head := 0, queued := 0, leased := False, released := False, siren_on := True,
        siren_volume := percent, siren_volume_applied := 0, siren_until := now + seconds * 1000000, siren_state := jipc_siren_init kind\<rparr>)"
  by (simp add: jipc_siren_start_def Let_def untouched_def)

lemma set_volume_effect:
  "snd (jipc_speaker_set_volume v ok s) = s \<or> snd (jipc_speaker_set_volume v ok s) = s\<lparr>volume := v\<rparr> \<or>
   snd (jipc_speaker_set_volume v ok s) = call (Sink_volume v) ok (s\<lparr>volume := v\<rparr>)"
  by (simp add: jipc_speaker_set_volume_def Let_def)

lemma talk_inv_event:
  assumes i: "talk_inv acc s" and own: "own_samples e"
  shows "talk_inv (acc @ accepted s [e]) (speaker_event s e)"
proof (cases e)
  case (Thread j)
  then show ?thesis using talk_inv_thread [OF i, of j] by (simp add: speaker_event_def)
next
  case (Submit who src http pcma now gate)
  obtain r s' where r: "jipc_talk_submit who src http pcma now gate s = (r, s')" by fastforce
  show ?thesis
  proof (cases "r = TALK_OK")
    case False
    then show ?thesis using talk_inv_untouched [OF i submit_refused [OF r]] Submit r by (simp add: speaker_event_def)
  next
    case True
    have ok: "ring_ok s" using i by (simp add: talk_inv_def)
    note f = submit_accepted [OF r [unfolded True] ok]
    obtain k where k: "ring_ok s'" "contents s' = drop k (contents s @ pcma)" using f(9) by blast
    have tags: "\<forall>b\<in>set (contents s @ pcma). fst b = who"
      using own Submit f(2) i contents_empty [of s] by (auto simp: talk_inv_def own_samples_def)
    have "subseq (concat (talk_frames (calls s) @ pending s) @ contents s @ pcma) (acc @ pcma)"
      using i list_emb_append_mono [of "(=)" "concat (talk_frames (calls s) @ pending s) @ contents s" acc pcma pcma]
      by (simp add: talk_inv_def)
    then have "subseq (concat (talk_frames (calls s) @ pending s) @ contents s') (acc @ pcma)"
      using subseq_drop_right [of "concat (talk_frames (calls s) @ pending s)" k "contents s @ pcma"]
      unfolding k(2) by (rule subseq_order.trans [rotated])
    moreover have "\<forall>b\<in>set (contents s'). fst b = who" using tags k(2) by (metis in_set_dropD)
    moreover have "pending s' = pending s" using f(6) by (simp add: pending_def)
    ultimately show ?thesis using i k(1) f(3-5) Submit r True by (simp add: talk_inv_def speaker_event_def)
  qed
next
  case (Release who)
  have "contents s = contents (s\<lparr>released := True, queued := RELEASE_TAIL\<rparr>) @ drop RELEASE_TAIL (contents s)"
    if "RELEASE_TAIL < queued s"
    using that by (intro nth_equalityI) (auto simp: contents_def nth_append)
  then have "talk_inv acc (speaker_event s e)" using Release i
    by (intro talk_inv_smaller [OF i])
      (auto simp: speaker_event_def jipc_talk_release_def talk_inv_def ring_ok_def pending_def contents_def)
  then show ?thesis by (simp add: Release)
next
  case (Siren_begin kind seconds percent now gate)
  have "talk_inv acc (s\<lparr>gate_released := True, head := 0, queued := 0, leased := False, released := False, siren_on := True,
      siren_volume := p, siren_volume_applied := 0, siren_until := t, siren_state := g\<rparr>)" for p t g
    by (rule talk_inv_smaller [OF i]) (use i in \<open>simp_all add: contents_empty ring_ok_def pending_def talk_inv_def\<close>)
  then have "talk_inv acc (speaker_event s e)"
    using siren_start_effect [of s kind seconds percent now gate] talk_inv_untouched [OF i] Siren_begin
    by (auto simp: speaker_event_def)
  then show ?thesis by (simp add: Siren_begin)
next
  case (Set_volume v ok)
  have "talk_inv acc (s\<lparr>volume := v\<rparr>)" "talk_inv acc (call (Sink_volume v) ok (s\<lparr>volume := v\<rparr>))"
    by (rule talk_inv_smaller [OF i]; use i in \<open>simp add: contents_def ring_ok_def pending_def talk_inv_def\<close>)+
  then have "talk_inv acc (speaker_event s e)"
    using set_volume_effect [of v ok s] i Set_volume by (auto simp: speaker_event_def)
  then show ?thesis by (simp add: Set_volume)
qed (use i in \<open>auto simp: speaker_event_def jipc_siren_stop_def talk_inv_def ring_ok_def pending_def contents_def\<close>)

lemma talk_inv_run:
  "talk_inv acc s \<Longrightarrow> list_all own_samples es \<Longrightarrow> talk_inv (acc @ accepted s es) (foldl speaker_event s es)"
proof (induction es arbitrary: acc s)
  case (Cons e es)
  have "talk_inv (acc @ accepted s [e]) (speaker_event s e)"
    by (rule talk_inv_event [OF Cons.prems(1)]) (use Cons.prems(2) in simp)
  from Cons.IH [OF this] Cons.prems(2) show ?case by simp
qed simp

text \<open>C6. Whatever the talkers, the siren and the output do and in whatever order the mutex is
  taken, every frame of talk that is played is one talker's alone, and all that is played is, in
  order and each sample at most once, what was accepted from the talkers.\<close>

theorem talkers_do_not_mix:
  assumes "list_all own_samples es"
  shows "(\<forall>bs\<in>set (talk_frames (calls (foldl speaker_event (jipc_speaker_start z duplex gate) es))). one_talker bs) \<and>
    subseq (concat (talk_frames (calls (foldl speaker_event (jipc_speaker_start z duplex gate) es))))
      (accepted (jipc_speaker_start z duplex gate) es)"
proof -
  have "talk_inv [] (jipc_speaker_start z duplex gate)"
    by (simp add: talk_inv_def jipc_speaker_start_def ring_ok_def contents_def pending_def)
  from talk_inv_run [OF this assms] show ?thesis
    unfolding talk_inv_def by (auto intro: subseq_left)
qed

section \<open>The amplifier\<close>

text \<open>Whether the last call switched it on, and whether it may be on at all.\<close>

fun amp_on :: "('a sink_call \<times> bool) list \<Rightarrow> bool" where
  "amp_on [] = False"
| "amp_on ((c, ok) # cs) = (case c of Amplifier on \<Rightarrow> on \<and> ok | _ \<Rightarrow> amp_on cs)"

fun amp_may_be_on :: "('a sink_call \<times> bool) list \<Rightarrow> bool" where
  "amp_may_be_on [] = False"
| "amp_may_be_on ((c, ok) # cs) =
     (case c of Amplifier on \<Rightarrow> on \<or> (\<not> ok \<and> amp_may_be_on cs) | _ \<Rightarrow> amp_may_be_on cs)"

definition amp_inv :: "'a speaker \<Rightarrow> bool" where
  "amp_inv s =
     (let playing = (session s \<and> out_open s \<and> amp_on (calls s));
          silent = (\<not> session s \<and> (amp_may_be_on (calls s) \<longrightarrow> mute_pending s))
      in case pc s of
           Top \<Rightarrow> (if session s then playing else silent)
         | Muting now \<Rightarrow> \<not> session s \<and> mute_pending s
         | Closing \<Rightarrow> silent
         | Opening v need_open \<Rightarrow> session s \<and> (need_open \<or> out_open s)
         | Stopping close was_open \<Rightarrow> \<not> session s
         | Restoring v \<Rightarrow> silent
         | Ended \<Rightarrow> \<not> session s
         | _ \<Rightarrow> playing)"

lemma idle_part_amp:
  "\<not> session s \<Longrightarrow> (amp_may_be_on (calls s) \<longrightarrow> mute_pending s) \<Longrightarrow> amp_inv (idle_part now i s)"
  by (simp add: idle_part_def amp_inv_def Let_def)

lemma end_session_amp: "amp_inv (end_session close now s)"
  by (simp add: end_session_def amp_inv_def Let_def)

lemma fault_amp: "amp_inv (fault msg now s)"
  by (simp add: fault_def end_session_amp Let_def)

lemma siren_frame_amp:
  "session s \<Longrightarrow> out_open s \<Longrightarrow> amp_on (calls s) \<Longrightarrow> amp_inv (siren_frame s)"
  by (simp add: siren_frame_def amp_inv_def Let_def split: prod.split)

lemma session_part_amp:
  assumes "session s" "out_open s" "amp_on (calls s)"
  shows "amp_inv (session_part i s)"
proof -
  define s1 where "s1 = (if siren_on s \<and> siren_until s \<le> in_now i then s\<lparr>siren_on := False, released := True\<rparr> else s)"
  have s1: "session s1" "out_open s1" "amp_on (calls s1)" using assms by (simp_all add: s1_def)
  have "amp_inv (s1\<lparr>siren_volume_applied := v, pc := Siren_gain g\<rparr>)" "amp_inv (s1\<lparr>pc := Underrun\<rparr>)" for v g
    using s1 by (simp_all add: amp_inv_def)
  moreover have "amp_inv (case queue_take s1 of (bs, s) \<Rightarrow> s\<lparr>pc := Writing (Talk bs)\<rparr>)"
    using s1 by (simp add: amp_inv_def queue_take_def Let_def)
  ultimately show ?thesis
    unfolding session_part_def Let_def s1_def [symmetric] using s1 by (simp add: end_session_amp siren_frame_amp)
qed

lemma speaker_top_amp:
  assumes "amp_inv s" "pc s = Top"
  shows "amp_inv (speaker_top i s)"
proof -
  have "amp_inv (thread_exit i s)" by (auto simp: thread_exit_def amp_inv_def Let_def)
  moreover have "\<not> session s \<Longrightarrow> mute_pending s \<Longrightarrow> amp_inv (s\<lparr>mute_attempts := n, pc := Muting k\<rparr>)" for n k
    by (simp add: amp_inv_def)
  ultimately show ?thesis using assms session_part_amp [of s i] idle_part_amp [of s "in_now i" i]
    by (auto simp: speaker_top_def amp_inv_def [of s] Let_def)
qed

lemma thread_step_amp: "amp_inv s \<Longrightarrow> amp_inv (speaker_step i s)"
proof (cases "pc s")
  case Top
  assume "amp_inv s"
  then show ?thesis using speaker_top_amp [OF _ Top] Top by (simp add: speaker_step_def)
next
  case (Muting now)
  assume inv: "amp_inv s"
  let ?s = "call (Amplifier False) (in_amp i) s"
  have "amp_inv (idle_part now i (if in_amp i then ?s\<lparr>mute_pending := False\<rparr> else ?s))"
    by (rule idle_part_amp) (use inv Muting in \<open>auto simp: amp_inv_def\<close>)
  then show ?thesis using Muting by (simp add: speaker_step_def Let_def)
next
  case (Opening v need_open)
  assume "amp_inv s"
  then show ?thesis using Opening fault_amp unfolding speaker_step_def speaker_opened_def Let_def
    by (auto simp: amp_inv_def [of s] amp_inv_def [of "_\<lparr>pc := Settling\<rparr>"])
next
  case (Stopping close was_open)
  assume "amp_inv s"
  then show ?thesis using Stopping
    by (auto simp: speaker_step_def stop_output_def amp_inv_def Let_def)
next
  case (Siren_gain v)
  assume "amp_inv s"
  then show ?thesis using Siren_gain siren_frame_amp [of "call (Sink_volume v) (in_volume i) s"]
    by (simp add: speaker_step_def amp_inv_def [of s])
next
  case (Writing f)
  assume "amp_inv s"
  then have p: "session s" "out_open s" "amp_on (calls s)" using Writing by (simp_all add: amp_inv_def)
  have step: "speaker_step i s = speaker_written f i s" using Writing by (simp add: speaker_step_def)
  show ?thesis
  proof (cases "in_write i")
    case True
    then show ?thesis unfolding step using p by (simp add: speaker_written_def amp_inv_def Let_def)
  next
    case False
    show ?thesis
    proof (cases "3 \<le> write_errors s + 1")
      case True
      then have "speaker_written f i s = fault ''audio output refused three frames'' (in_now i) (call (Play f) False s)"
        using False by (simp add: speaker_written_def Let_def)
      then show ?thesis unfolding step by (simp add: fault_amp)
    next
      case few: False
      then show ?thesis unfolding step using p False by (simp add: speaker_written_def amp_inv_def Let_def)
    qed
  qed
qed (auto simp: speaker_step_def amp_inv_def Let_def split: if_splits)

lemma amp_inv_same:
  "session s' = session s \<Longrightarrow> out_open s' = out_open s \<Longrightarrow> mute_pending s' = mute_pending s \<Longrightarrow> pc s' = pc s \<Longrightarrow>
     amp_on (calls s') = amp_on (calls s) \<Longrightarrow> amp_may_be_on (calls s') = amp_may_be_on (calls s) \<Longrightarrow>
     amp_inv s' = amp_inv s"
  by (simp add: amp_inv_def cong: speaker_pc.case_cong)

lemma submit_same:
  assumes "jipc_talk_submit who src http pcma now gate s = (r, s')"
  shows "session s' = session s" "out_open s' = out_open s" "mute_pending s' = mute_pending s" "pc s' = pc s"
    "calls s' = calls s" "siren_on s' = siren_on s" "siren_until s' = siren_until s"
proof -
  have s': "s' = snd (jipc_talk_submit who src http pcma now gate s)" using assms by simp
  show "session s' = session s" "out_open s' = out_open s" "mute_pending s' = mute_pending s" "pc s' = pc s"
    "calls s' = calls s" "siren_on s' = siren_on s" "siren_until s' = siren_until s"
    unfolding s' by (simp_all add: jipc_talk_submit_def Let_def queue_accept_fields)
qed

lemma amp_inv_event: "amp_inv s \<Longrightarrow> amp_inv (speaker_event s e)"
proof (cases e)
  case (Submit who src http pcma now gate)
  assume i: "amp_inv s"
  obtain r s' where r: "jipc_talk_submit who src http pcma now gate s = (r, s')" by fastforce
  then have "amp_inv s' = amp_inv s" using submit_same [OF r] by (intro amp_inv_same) simp_all
  then show ?thesis using i Submit r by (simp add: speaker_event_def)
next
  case (Set_volume v ok)
  assume i: "amp_inv s"
  have "amp_inv (s\<lparr>volume := v\<rparr>) = amp_inv s" "amp_inv (call (Sink_volume v) ok (s\<lparr>volume := v\<rparr>)) = amp_inv s"
    by (rule amp_inv_same; simp)+
  then show ?thesis using i set_volume_effect [of v ok s] Set_volume by (auto simp: speaker_event_def)
next
  case (Siren_begin kind seconds percent now gate)
  assume i: "amp_inv s"
  have "amp_inv (snd (jipc_siren_start kind seconds percent now gate s)) = amp_inv s"
    by (rule amp_inv_same) (simp_all add: jipc_siren_start_def Let_def)
  then show ?thesis using i Siren_begin by (simp add: speaker_event_def)
next
  case (Release who)
  assume i: "amp_inv s"
  have "amp_inv (jipc_talk_release who s) = amp_inv s"
    by (rule amp_inv_same) (simp_all add: jipc_talk_release_def)
  then show ?thesis using i Release by (simp add: speaker_event_def)
next
  case Siren_end
  assume i: "amp_inv s"
  have "amp_inv (jipc_siren_stop s) = amp_inv s"
    by (rule amp_inv_same) (simp_all add: jipc_siren_stop_def)
  then show ?thesis using i Siren_end by (simp add: speaker_event_def)
next
  case Speaker_stop
  assume i: "amp_inv s"
  have "amp_inv (s\<lparr>quit := True\<rparr>) = amp_inv s" by (rule amp_inv_same) simp_all
  then show ?thesis using i Speaker_stop by (simp add: speaker_event_def)
qed (simp add: speaker_event_def thread_step_amp)

interpretation speaker_amp: invariant_machine speaker_event amp_inv
  by unfold_locales (rule amp_inv_event)


section \<open>The siren\<close>

fun siren_frames :: "('a sink_call \<times> bool) list \<Rightarrow> byte list list" where
  "siren_frames [] = []"
| "siren_frames ((c, ok) # cs) = siren_frames cs @ (case c of Play (Siren_sound bs) \<Rightarrow> [bs] | _ \<Rightarrow> [])"

definition siren_silent :: "'a speaker \<Rightarrow> bool" where
  "siren_silent s = (\<not> siren_on s \<and>
     (case pc s of Siren_gain v \<Rightarrow> False | Writing (Siren_sound bs) \<Rightarrow> False | _ \<Rightarrow> True))"

text \<open>What a step does to the siren: it never moves the deadline nor switches it on.\<close>

definition siren_same :: "'a speaker \<Rightarrow> 'a speaker \<Rightarrow> bool" where
  "siren_same s s' = (siren_until s' = siren_until s \<and> (siren_on s' \<longrightarrow> siren_on s) \<and>
     (siren_silent s \<longrightarrow> siren_silent s' \<and> siren_frames (calls s') = siren_frames (calls s)))"

lemma siren_until_call [simp]: "siren_until (call c ok s) = siren_until s" "siren_volume (call c ok s) = siren_volume s"
  by (simp_all add: call_def)

lemma fault_siren: "siren_until (fault msg now s) = siren_until s \<and> siren_silent (fault msg now s) \<and> calls (fault msg now s) = calls s \<and>
   \<not> siren_on (fault msg now s)"
  by (simp add: fault_def end_session_def siren_silent_def Let_def)

lemma idle_part_siren:
  "siren_until (idle_part now i s) = siren_until s \<and> (siren_on (idle_part now i s) \<longrightarrow> siren_on s) \<and>
   (\<not> siren_on s \<longrightarrow> siren_silent (idle_part now i s)) \<and> calls (idle_part now i s) = calls s"
  by (simp add: idle_part_def siren_silent_def Let_def)

lemma siren_frame_siren:
  "siren_until (siren_frame s) = siren_until s \<and> siren_on (siren_frame s) = siren_on s \<and> calls (siren_frame s) = calls s"
  by (simp add: siren_frame_def Let_def split: prod.split)

lemma if_cases: "(c \<Longrightarrow> P a) \<Longrightarrow> (\<not> c \<Longrightarrow> P b) \<Longrightarrow> P (if c then a else b)"
  by simp

lemma session_part_siren:
  "siren_until (session_part i s) = siren_until s \<and> (siren_on (session_part i s) \<longrightarrow> siren_on s) \<and>
   (\<not> siren_on s \<or> siren_until s \<le> in_now i \<longrightarrow> siren_silent (session_part i s)) \<and> calls (session_part i s) = calls s"
proof -
  define s1 where "s1 = (if siren_on s \<and> siren_until s \<le> in_now i then s\<lparr>siren_on := False, released := True\<rparr> else s)"
  have s1: "siren_until s1 = siren_until s" "siren_on s1 \<longrightarrow> siren_on s" "calls s1 = calls s"
    "\<not> siren_on s \<or> siren_until s \<le> in_now i \<longrightarrow> \<not> siren_on s1" by (simp_all add: s1_def)
  have "siren_until (case queue_take s1 of (bs, s) \<Rightarrow> s\<lparr>pc := Writing (Talk bs)\<rparr>) = siren_until s1 \<and>
      siren_on (case queue_take s1 of (bs, s) \<Rightarrow> s\<lparr>pc := Writing (Talk bs)\<rparr>) = siren_on s1 \<and>
      calls (case queue_take s1 of (bs, s) \<Rightarrow> s\<lparr>pc := Writing (Talk bs)\<rparr>) = calls s1 \<and>
      (\<not> siren_on s1 \<longrightarrow> siren_silent (case queue_take s1 of (bs, s) \<Rightarrow> s\<lparr>pc := Writing (Talk bs)\<rparr>))"
    by (simp add: queue_take_def siren_silent_def Let_def)
  note take = this
  define P where "P s' = (siren_until s' = siren_until s \<and> (siren_on s' \<longrightarrow> siren_on s) \<and>
      (\<not> siren_on s \<or> siren_until s \<le> in_now i \<longrightarrow> siren_silent s') \<and> calls s' = calls s)" for s' :: "'a speaker"
  have "P (end_session False now s1)" for now by (simp add: P_def end_session_def siren_silent_def s1(1,3))
  moreover have "P (siren_frame s1)" if "siren_on s1"
    using that s1(2,4) siren_frame_siren [of s1] unfolding P_def s1(1,3) by blast
  moreover have "P (s1\<lparr>siren_volume_applied := v, pc := Siren_gain g\<rparr>)" if "siren_on s1" for v g
  proof -
    let ?r = "s1\<lparr>siren_volume_applied := v, pc := Siren_gain g\<rparr>"
    have "siren_until ?r = siren_until s1" "siren_on ?r = siren_on s1" "calls ?r = calls s1" by simp_all
    then show ?thesis using that s1(2,4) unfolding P_def s1(1,3) by blast
  qed
  moreover have "P (s1\<lparr>pc := Underrun\<rparr>)" if "\<not> siren_on s1"
    using that by (simp add: P_def siren_silent_def s1(1,3))
  moreover have "P (case queue_take s1 of (bs, s) \<Rightarrow> s\<lparr>pc := Writing (Talk bs)\<rparr>)" if "\<not> siren_on s1"
    using that take unfolding P_def s1(1,3) by blast
  moreover note P = calculation
  have "P (session_part i s)" unfolding session_part_def Let_def s1_def [symmetric]
    by (simp add: P)
  then show ?thesis by (simp add: P_def)
qed

lemma thread_step_siren: "siren_same s (speaker_step i s)"
proof (cases "pc s")
  case Top
  have "siren_same s (thread_exit i s)" by (auto simp: thread_exit_def siren_same_def siren_silent_def Let_def)
  moreover have "siren_same s (s\<lparr>mute_attempts := n, pc := Muting k\<rparr>)" for n k
    by (simp add: siren_same_def siren_silent_def)
  moreover have "siren_same s (session_part i s)"
    using session_part_siren [of i s] unfolding siren_same_def siren_silent_def [of s] by simp
  moreover have "siren_same s (idle_part (in_now i) i s)"
    using idle_part_siren [of "in_now i" i s] unfolding siren_same_def siren_silent_def [of s] by simp
  ultimately show ?thesis using Top by (simp add: speaker_step_def speaker_top_def)
next
  case (Muting now)
  let ?s = "if in_amp i then (call (Amplifier False) (in_amp i) s)\<lparr>mute_pending := False\<rparr> else call (Amplifier False) (in_amp i) s"
  have "siren_on ?s = siren_on s" "siren_until ?s = siren_until s" "siren_frames (calls ?s) = siren_frames (calls s)" by simp_all
  then show ?thesis using Muting idle_part_siren [of now i ?s]
    unfolding speaker_step_def Muting speaker_pc.case Let_def siren_same_def siren_silent_def [of s] by auto
next
  case (Opening v need_open)
  then show ?thesis using fault_siren
    unfolding speaker_step_def speaker_opened_def Let_def siren_same_def
    by (auto simp: siren_silent_def [of s] siren_silent_def [of "_\<lparr>pc := Settling\<rparr>"])
next
  case (Stopping close was_open)
  then show ?thesis by (auto simp: speaker_step_def stop_output_def siren_same_def siren_silent_def Let_def)
next
  case (Siren_gain v)
  then show ?thesis using siren_frame_siren [of "call (Sink_volume v) (in_volume i) s"]
    by (simp add: speaker_step_def siren_same_def siren_silent_def [of s])
next
  case (Writing f)
  define s1 where "s1 = call (Play f) (in_write i) s"
  have s1: "siren_on s1 = siren_on s" "siren_until s1 = siren_until s"
    "siren_silent s \<longrightarrow> siren_frames (calls s1) = siren_frames (calls s)"
    using Writing by (auto simp: s1_def siren_silent_def split: sound_frame.splits)
  have step: "speaker_step i s = (if \<not> in_write i then
           if 3 \<le> write_errors s1 + 1 then fault ''audio output refused three frames'' (in_now i) s1
           else s1\<lparr>write_errors := write_errors s1 + 1, pc := Top\<rparr>
         else s1\<lparr>write_errors := 0, backoff_s := 0, played_frames := played_frames s1 + 1, pc := Top\<rparr>)"
    using Writing by (simp add: speaker_step_def speaker_written_def s1_def Let_def)
  have "siren_same s (s1\<lparr>write_errors := n, pc := Top\<rparr>)" "siren_same s (s1\<lparr>write_errors := 0, backoff_s := 0, played_frames := n, pc := Top\<rparr>)"
    "siren_same s (fault msg now s1)" for n msg now
    using s1 fault_siren [of msg now s1]
    by (auto simp: siren_same_def siren_silent_def fault_def end_session_def Let_def)
  then show ?thesis unfolding step by simp
qed (auto simp: speaker_step_def siren_same_def siren_silent_def)

definition begins_siren :: "'a speaker_event \<Rightarrow> bool" where
  "begins_siren e = (case e of Siren_begin kind seconds percent now gate \<Rightarrow> True | _ \<Rightarrow> False)"

lemma siren_same_fields:
  "siren_until s' = siren_until s \<Longrightarrow> siren_on s' = siren_on s \<Longrightarrow> pc s' = pc s \<Longrightarrow>
     siren_frames (calls s') = siren_frames (calls s) \<Longrightarrow> siren_same s s'"
  by (simp add: siren_same_def siren_silent_def)

lemma siren_event: "\<not> begins_siren e \<Longrightarrow> siren_same s (speaker_event s e)"
proof (cases e)
  case (Submit who src http pcma now gate)
  obtain r s' where r: "jipc_talk_submit who src http pcma now gate s = (r, s')" by fastforce
  then show ?thesis using submit_same [OF r] Submit
    by (intro siren_same_fields) (simp_all add: speaker_event_def)
next
  case (Set_volume v ok)
  then show ?thesis using set_volume_effect [of v ok s]
    by (intro siren_same_fields) (auto simp: speaker_event_def)
next
  case (Release who)
  then show ?thesis by (intro siren_same_fields) (simp_all add: speaker_event_def jipc_talk_release_def)
next
  case Siren_end
  then show ?thesis by (auto simp: speaker_event_def jipc_siren_stop_def siren_same_def siren_silent_def)
next
  case Speaker_stop
  then show ?thesis by (intro siren_same_fields) (simp_all add: speaker_event_def)
qed (simp_all add: begins_siren_def speaker_event_def thread_step_siren)

lemma siren_run_until:
  "list_all (\<lambda>e. \<not> begins_siren e) es \<Longrightarrow> siren_until (foldl speaker_event s es) = siren_until s"
proof (induction es arbitrary: s)
  case (Cons e es)
  then show ?case using siren_event [of e s] by (simp add: siren_same_def)
qed simp

lemma siren_run_silent:
  "list_all (\<lambda>e. \<not> begins_siren e) es \<Longrightarrow> siren_silent s \<Longrightarrow>
     siren_silent (foldl speaker_event s es) \<and> siren_frames (calls (foldl speaker_event s es)) = siren_frames (calls s)"
proof (induction es arbitrary: s)
  case (Cons e es)
  have "siren_silent (speaker_event s e)" "siren_frames (calls (speaker_event s e)) = siren_frames (calls s)"
    using siren_event [of e s] Cons.prems by (simp_all add: siren_same_def)
  then show ?case using Cons.IH [of "speaker_event s e"] Cons.prems(1) by simp
qed simp

text \<open>C37. A siren that was begun for some seconds is over then: the first time after that the thread
  looks at its session, it ends the siren, and from then on no frame of it is written,
  whatever else happens, until a siren is begun again.\<close>

theorem siren_ends_by_its_deadline:
  assumes "jipc_siren_start kind seconds percent now gate s0 = (True, s1)"
    and "list_all (\<lambda>e. \<not> begins_siren e) es" "list_all (\<lambda>e. \<not> begins_siren e) es'"
    and "pc (foldl speaker_event s1 es) = Top" "session (foldl speaker_event s1 es)" "\<not> quit (foldl speaker_event s1 es)"
    and "now + seconds * 1000000 \<le> in_now i"
  shows "siren_frames (calls (foldl speaker_event s1 (es @ Thread i # es'))) =
           siren_frames (calls (foldl speaker_event s1 es)) \<and>
         \<not> siren_on (foldl speaker_event s1 (es @ Thread i # es'))"
proof -
  let ?s = "foldl speaker_event s1 es"
  have "siren_until s1 = now + seconds * 1000000"
    using assms(1) by (auto simp: jipc_siren_start_def Let_def split: if_splits)
  then have u: "siren_until ?s \<le> in_now i" using siren_run_until [OF assms(2), of s1] assms(7) by simp
  have "siren_frames (calls (speaker_event ?s (Thread i))) = siren_frames (calls ?s) \<and>
      siren_silent (speaker_event ?s (Thread i))"
    using session_part_siren [of i ?s] u assms(4-6)
    by (simp add: speaker_event_def speaker_step_def speaker_top_def)
  then show ?thesis using siren_run_silent [OF assms(3), of "speaker_event ?s (Thread i)"]
    by (simp add: siren_silent_def)
qed

section \<open>The volume after a siren\<close>

text \<open>The gain of the output, by the calls on it.\<close>

fun out_gain :: "('a sink_call \<times> bool) list \<Rightarrow> int option" where
  "out_gain [] = None"
| "out_gain ((c, ok) # cs) =
     (if \<not> ok then out_gain cs else case c of Sink_open v \<Rightarrow> Some v | Sink_volume v \<Rightarrow> Some v | _ \<Rightarrow> out_gain cs)"

definition all_well :: "nat \<Rightarrow> speaker_in" where
  "all_well t = \<lparr>in_now = t, in_gate = True, in_open = True, in_amp = True, in_write = True, in_volume = True, in_error = []\<rparr>"

definition early_stop :: "'a \<Rightarrow> 'a speaker_event list" where
  "early_stop x = [Siren_begin 0 5 10 1000 True, Thread (all_well 1001), Thread (all_well 1002), Siren_end,
     Thread (all_well 201003), Thread (all_well 201004), Thread (all_well 201005),
     Submit 7 0 False [x] 900000 True, Thread (all_well 900001), Thread (all_well 900002),
     Thread (all_well 1100003), Thread (all_well 1100004), Thread (all_well 1100005)]"

lemmas speaker_eval = jipc_speaker_start_def speaker_event_def speaker_step_def speaker_top_def idle_part_def
  session_part_def speaker_opened_def speaker_written_def stop_output_def end_session_def jipc_siren_start_def
  jipc_siren_stop_def jipc_talk_submit_def jipc_talk_release_def queue_accept_def queue_push_def queue_take_def
  drop_oldest_def call_def all_well_def JIPC_SIREN_SOUNDS_def JIPC_SIREN_MAX_SECONDS_def QUEUE_BYTES_def TRIM_ABOVE_def
  MUTE_ATTEMPTS_def DEADMAN_US_def speaker_idle_close_us_def JIPC_SPEAKER_FRAME_def siren_gain_def


section \<open>The theorems at work\<close>

text \<open>One talker is heard, a second one is refused, and is heard when the first has left.\<close>

definition two_talkers :: "(u64 \<times> byte) speaker_event list" where
  "two_talkers = [Submit 7 1 False [(7, 1)] 100 True, Thread (all_well 200), Thread (all_well 201),
     Submit 8 2 False [(8, 5)] 300 True, Thread (all_well 200202), Thread (all_well 200203), Release 7,
     Thread (all_well 240000), Thread (all_well 240001), Thread (all_well 240002),
     Submit 8 2 False [(8, 2)] 250000 True, Thread (all_well 250001), Thread (all_well 250002),
     Thread (all_well 450003), Thread (all_well 450004), Thread (all_well 450005)]"

lemma two_talkers_are_heard:
  "talk_frames (calls (foldl speaker_event (jipc_speaker_start (0, 0) False False) two_talkers)) = [[(7, 1)], [(8, 2)]]"
  unfolding two_talkers_def by (simp add: speaker_eval Let_def)

theorem talkers_do_not_mix_witness:
  "list_all own_samples two_talkers \<and>
   one_talker [(7 :: u64, 1 :: byte)] \<and> one_talker [(8 :: u64, 2 :: byte)] \<and>
   subseq [(7, 1), (8, 2)] (accepted (jipc_speaker_start (0, 0) False False) two_talkers)"
proof -
  have own: "list_all own_samples two_talkers" by (simp add: two_talkers_def own_samples_def)
  show ?thesis using own talkers_do_not_mix [OF own, of "(0, 0)" False False] by (simp add: two_talkers_are_heard)
qed

lemma two_talkers_writing:
  "pc (foldl speaker_event (jipc_speaker_start (0, 0) False False) (take 6 two_talkers)) = Writing (Talk [(7, 1)])"
  unfolding two_talkers_def by (simp add: speaker_eval Let_def)


definition siren_started :: "byte speaker" where
  "siren_started = snd (jipc_siren_start 0 5 10 1000 True (jipc_speaker_start 0 False False))"

definition siren_opening :: "byte speaker_event list" where
  "siren_opening = [Thread (all_well 1001), Thread (all_well 1002), Thread (all_well 5000999)]"

theorem siren_ends_by_its_deadline_witness:
  "\<not> siren_on (foldl speaker_event siren_started
      (siren_opening @ Thread (all_well 5001000) # [Submit 7 1 False [1] 5001001 True, Thread (all_well 5001002)]))"
proof -
  have start: "jipc_siren_start 0 5 10 1000 True (jipc_speaker_start 0 False False) = (True, siren_started)"
    unfolding siren_started_def by (simp add: speaker_eval Let_def)
  have at: "pc (foldl speaker_event siren_started siren_opening) = Top"
    "session (foldl speaker_event siren_started siren_opening)"
    "\<not> quit (foldl speaker_event siren_started siren_opening)"
    unfolding siren_started_def siren_opening_def by (simp_all add: speaker_eval Let_def)
  have quiet: "list_all (\<lambda>e. \<not> begins_siren e) siren_opening"
    "list_all (\<lambda>e. \<not> begins_siren e) [Submit 7 1 False [1 :: byte] 5001001 True, Thread (all_well 5001002)]"
    by (simp_all add: siren_opening_def begins_siren_def)
  have due: "1000 + 5 * 1000000 \<le> in_now (all_well 5001000)" by (simp add: all_well_def)
  show ?thesis using siren_ends_by_its_deadline [OF start quiet at due] by blast
qed

end
