(* ===== verification/Spec2Isabelle.thy ===== *)
theory Spec2Isabelle
  imports Alaw Audio_Wire Hashes Guard_Client Ws_Handshake Router_Client Audio_Router Auth_Safety
    Rtp_Correct Rtsp_Safety Button Ntp_Correct Update_Safety Viewer Speaker_Correct
begin

text \<open>
  \<^bold>\<open>JOOAN W3-U local firmware: a verification library.\<close>

  The firmware replaces the cloud services of a two-lens camera by local ones. Two C programs
  carry its logic: the \<^emph>\<open>platform\<close> (\<open>src/\<close>: the admin daemon, the push-to-talk audio router
  and the guard that confines the vendor's program) and the \<^emph>\<open>media daemon\<close> (\<open>media/src/\<close>:
  video, sound, RTSP, updates). The theories translate their functions one by one; a
  definition has the name of the C function it models, or names the part of it in the
  comment above it. Every definition computes.

  \<^bold>\<open>How the code is modelled.\<close> Structs are records, enums datatypes, words have their width where
  wrapping matters (\<open>Prelude\<close>: \<open>byte\<close>, \<open>u16\<close>, \<open>u32\<close>, \<open>u64\<close>); counts, sizes and microseconds
  that stay far below 64 bits are natural numbers. Failures are values (\<open>error + 'a\<close> with the
  error number the code stores, options, or the code's own return values). What the kernel, a
  socket, a clock, a verifier program or the driver answers is an argument of the step that
  asks: an environment read as a list of answers, or the input of a step. Threads are steps:
  what a thread does from one release of its mutex to the next is one step, and the theorems
  quantify over every order of the steps. Loops are structural recursions or functions with a
  measure; the few loops that end only because of the outside are partial functions, and the
  properties prove that they return.

  \<^bold>\<open>Theories, in the order of the code.\<close>
  \<^item> \<open>Prelude\<close>: machine types, \<open>errno\<close>, results, big-endian fields, byte enumeration, and the
    locale \<open>invariant_machine\<close> (an invariant kept by every step holds after every run), which
    \<open>Router_Client\<close>, \<open>Auth_Safety\<close>, \<open>Media_Correct\<close>, \<open>Speaker_Correct\<close> and others interpret.
    \<open>C_Strings\<close>: the C library's string functions as used.
  \<^item> \<open>Alaw\<close> (\<open>src/audio/g711_alaw.c\<close>, \<open>src/guard/guard_policy.c\<close>): the codec against the G.711
    segments; round trip and error bound.
  \<^item> \<open>Audio_Wire\<close> (\<open>src/audio/audio_wire.c\<close>, \<open>audio_guard_wire.c\<close>): the JAUD and JAGD formats;
    parsing inverts building, exactly; the sequence numbers a session accepts.
  \<^item> \<open>Hashes\<close> (\<open>guard_sha256.c\<close>, \<open>daemon/crypto.c\<close>, the accept key of \<open>audio_router.c\<close>): streaming
    SHA-256 refines the padded digest; PBKDF2 is RFC 8018.
  \<^item> \<open>Guard_Client\<close> (\<open>src/audio/audio_guard.c\<close>): the router's side of a talk session.
    \<open>Ws_Handshake\<close>, \<open>Router_Client\<close>, \<open>Audio_Router\<close> (\<open>src/audio/audio_router.c\<close>): the upgrade request,
    one client (queue, frames, push to talk), and the process (microphone, table of clients,
    leases, main loop).
  \<^item> \<open>Daemon_Util\<close>, \<open>Auth_Store\<close>, \<open>Auth\<close>, \<open>Auth_Safety\<close>, \<open>Button\<close>, \<open>Ntp\<close>, \<open>Ntp_Correct\<close>
    (\<open>src/daemon/\<close>): helpers and atomic files, credentials on flash, sessions and the throttle and
    what they promise, the reset button, and the SNTP client.
  \<^item> \<open>Media_Streams\<close>, \<open>Media_Rings\<close>, \<open>Media_Correct\<close> (\<open>media/src/media.c\<close>): the frame rings that join
    the encoders to every consumer, the privacy hold, the health check, and what readers get
    under every interleaving. The rings meet the locales \<open>frame_source\<close> and \<open>picture_source\<close>,
    through which \<open>Viewer\<close> composes them with the RTSP server.
  \<^item> \<open>Media_Audio\<close> (\<open>audio.c\<close>, \<open>siren.c\<close>), \<open>Speaker\<close>, \<open>Speaker_Correct\<close> (\<open>speaker.c\<close>): the daemon's
    sound: coder, clock, siren tones, and the thread that shares the amplifier among talkers and
    the siren. The ring of samples meets the locale \<open>sample_queue\<close>.
  \<^item> \<open>Rtp\<close>, \<open>Rtp_Correct\<close>, \<open>Rtsp_Request\<close>, \<open>Auth_Limit\<close>, \<open>Rtsp\<close>, \<open>Rtsp_Safety\<close> (\<open>rtsp.c\<close>, \<open>authlimit.c\<close>,
    MD5 and comparison of \<open>crypto.c\<close> and \<open>util.c\<close>): packets, requests, Digest sign-in and sessions.
  \<^item> \<open>Media_Update\<close>, \<open>Update_Safety\<close> (\<open>update.c\<close>): signed updates from the browser.
  \<^bold>\<open>What the lemmas show.\<close> Each model theory is followed by the lemmas of its operations (one per
  branch where a client needs it), an invariant and its preservation, and then the properties,
  each after a text that states it with its number: safety of sign-in (no request without a
  credential, no session without a Digest answer, five guesses a minute), of updates (nothing
  runs before it is verified), of the talk protocols (order, numbering, one talker at a time),
  of video (a reader gets what was published, in order and once; held pictures are not
  published; a viewer can decode what it is sent); round trips of every format; refinement of
  hashes and atomic files; bounds of the codec, the clock and the siren; and a few behaviours
  that differ from what the code means to do, shown on concrete runs.

  \<^bold>\<open>Bounds and fuel.\<close> Ring capacities, queue sizes, time-outs and field lengths are the code's
  constants, as definitions of the same name. There is no fuel: loops over data end by a
  measure. Three loops of the router that a socket could keep alive are partial functions, so
  that not returning is the value \<open>None\<close>: \<open>client_flush\<close> and \<open>client_receive\<close> are proved to return on a
  socket that is interrupted finitely often (each round sends or takes a byte, and queue and
  buffer are bounded); \<open>drain_microphone\<close> ends when the socket of the microphone is empty, which
  only its sender decides.

  \<^bold>\<open>Not modelled, and why.\<close> System calls, drivers, the vendor's libraries and OpenSSL are the
  environment. The hardware backend (\<open>imp_backend.c\<close>) and the motors and lights
  (\<open>platform.c\<close>) are calls into devices; the HTTP, ONVIF and discovery servers are routing and text
  templates around the operations modelled here; the camera controls, the configuration and the
  guard library are listed as open in the manifest. Vendored code (cJSON), scripts, web pages,
  tests and the assembly variant of SHA-256 are outside.
\<close>

end
